(* ===== verification/Prelude.thy ===== *)
theory Prelude
  imports Main "HOL-Library.Word" "HOL-Library.FSet" "HOL-Library.Finite_Map"
    "HOL-Library.List_Lexorder" "HOL-Library.Code_Target_Nat"
begin

text \<open>
  Shared vocabulary of the development.

  \<^item> Rust results. A function that returns \<open>Result<T, E>\<close> is modelled as a function into \<open>'e + 'a\<close>,
    \<open>Inl\<close> for \<open>Err\<close> and \<open>Inr\<close> for \<open>Ok\<close>. The \<open>?\<close> operator is \<open>try_r\<close>, \<open>ok_or\<close> is \<open>ok_or\<close>,
    \<open>map_err\<close> is \<open>map_err\<close>, and a fallible loop over a slice is \<open>try_fold\<close>.
  \<^item> Machine integers. Unsigned counters are \<open>nat\<close> with their width written out in every checked,
    saturating or narrowing operation; bit sets are words. A \<open>usize\<close> is 64 bits wide.
  \<^item> Ordered collections. \<open>BTreeSet<K>\<close> is \<open>'k fset\<close> and \<open>BTreeMap<K, V>\<close> is \<open>('k, 'v) fmap\<close>: both are
    finite by type and equal exactly when they hold the same elements. Iteration is ascending:
    \<open>btree_iter\<close> and \<open>btree_items\<close>.
  \<^item> Identifiers. \<open>define_identifier!\<close> makes newtypes over \<open>[u8; 16]\<close> that exclude the all-zero value and
    are ordered by their bytes.
\<close>

section \<open>Results\<close>

fun try_r :: "'e + 'a \<Rightarrow> ('a \<Rightarrow> 'e + 'b) \<Rightarrow> 'e + 'b" where
  "try_r (Inl e) f = Inl e"
| "try_r (Inr x) f = f x"

fun ok_or :: "'e \<Rightarrow> 'a option \<Rightarrow> 'e + 'a" where
  "ok_or e None = Inl e"
| "ok_or e (Some x) = Inr x"

fun map_err :: "('e \<Rightarrow> 'f) \<Rightarrow> 'e + 'a \<Rightarrow> 'f + 'a" where
  "map_err g (Inl e) = Inl (g e)"
| "map_err g (Inr x) = Inr x"

fun try_fold :: "('b \<Rightarrow> 'a \<Rightarrow> 'e + 'b) \<Rightarrow> 'b \<Rightarrow> 'a list \<Rightarrow> 'e + 'b" where
  "try_fold f acc [] = Inr acc"
| "try_fold f acc (x # xs) = try_r (f acc x) (\<lambda>acc'. try_fold f acc' xs)"

fun try_map :: "('a \<Rightarrow> 'e + 'b) \<Rightarrow> 'a list \<Rightarrow> 'e + 'b list" where
  "try_map f [] = Inr []"
| "try_map f (x # xs) = try_r (f x) (\<lambda>y. try_r (try_map f xs) (\<lambda>ys. Inr (y # ys)))"

definition is_ok :: "'e + 'a \<Rightarrow> bool" where
  "is_ok r = (case r of Inl _ \<Rightarrow> False | Inr _ \<Rightarrow> True)"

section \<open>Machine integers\<close>

definition u8_max :: nat where "u8_max = 255"
definition u16_max :: nat where "u16_max = 65535"
definition u32_max :: nat where "u32_max = 4294967295"
definition u64_max :: nat where "u64_max = 18446744073709551615"

text \<open>\<open>checked_add\<close> at a width given by its maximum, and its saturating and subtracting kin.\<close>

definition checked_add :: "nat \<Rightarrow> nat \<Rightarrow> nat \<Rightarrow> nat option" where
  "checked_add mx a b = (if a + b \<le> mx then Some (a + b) else None)"

definition saturating_add :: "nat \<Rightarrow> nat \<Rightarrow> nat \<Rightarrow> nat" where
  "saturating_add mx a b = min (a + b) mx"

definition checked_sub :: "nat \<Rightarrow> nat \<Rightarrow> nat option" where
  "checked_sub a b = (if b \<le> a then Some (a - b) else None)"

definition try_narrow :: "nat \<Rightarrow> nat \<Rightarrow> nat option" where
  "try_narrow mx a = (if a \<le> mx then Some a else None)"

section \<open>Ordered collections\<close>

definition btree_iter :: "'a::linorder fset \<Rightarrow> 'a list" where
  "btree_iter s = sorted_list_of_fset s"

definition btree_items :: "('k::linorder, 'v) fmap \<Rightarrow> ('k \<times> 'v) list" where
  "btree_items m = map (\<lambda>k. (k, the (fmlookup m k))) (btree_iter (fmdom m))"

definition first_key_value :: "('k::linorder, 'v) fmap \<Rightarrow> ('k \<times> 'v) option" where
  "first_key_value m = (case btree_items m of [] \<Rightarrow> None | kv # _ \<Rightarrow> Some kv)"

definition pop_first :: "('k::linorder, 'v) fmap \<Rightarrow> ('k, 'v) fmap" where
  "pop_first m = (case btree_iter (fmdom m) of [] \<Rightarrow> m | k # _ \<Rightarrow> fmdrop k m)"

definition entry_or_insert :: "'k \<Rightarrow> 'v \<Rightarrow> ('k, 'v) fmap \<Rightarrow> ('k, 'v) fmap" where
  "entry_or_insert k v m = (case fmlookup m k of None \<Rightarrow> fmupd k v m | Some _ \<Rightarrow> m)"

definition lookup_or :: "'v \<Rightarrow> 'k \<Rightarrow> ('k, 'v) fmap \<Rightarrow> 'v" where
  "lookup_or d k m = (case fmlookup m k of None \<Rightarrow> d | Some v \<Rightarrow> v)"

text \<open>\<open>slice.last()\<close>, \<open>iter().find\<close>, \<open>slice.get\<close>.\<close>

definition last_opt :: "'a list \<Rightarrow> 'a option" where
  "last_opt xs = (if xs = [] then None else Some (last xs))"

definition get_opt :: "'a list \<Rightarrow> nat \<Rightarrow> 'a option" where
  "get_opt xs i = (if i < length xs then Some (xs ! i) else None)"

section \<open>Bytes\<close>

type_synonym byte = "8 word"
type_synonym bytes = "8 word list"

definition ascii :: "string \<Rightarrow> bytes" where
  "ascii s = map of_char s"

text \<open>\<open>to_be_bytes\<close> and \<open>from_be_bytes\<close> of a \<open>k\<close>-byte unsigned integer.\<close>

fun be_bytes :: "nat \<Rightarrow> nat \<Rightarrow> bytes" where
  "be_bytes 0 n = []"
| "be_bytes (Suc k) n = be_bytes k (n div 256) @ [word_of_nat n]"

definition from_be_bytes :: "bytes \<Rightarrow> nat" where
  "from_be_bytes bs = foldl (\<lambda>acc b. acc * 256 + unat b) 0 bs"

section \<open>Identifiers\<close>

datatype node_id = NodeId (node_bytes: bytes)
datatype quorum_plan_id = QuorumPlanId (plan_id_bytes: bytes)
datatype operation_id = OperationId (operation_bytes: bytes)
datatype partition_id = PartitionId (partition_bytes: bytes)

datatype identifier_error = Nil_Identifier

definition validate_identifier :: "bytes \<Rightarrow> identifier_error + bytes" where
  "validate_identifier bs = (if bs = replicate 16 0 then Inl Nil_Identifier else Inr bs)"

definition node_id_from_bytes :: "bytes \<Rightarrow> identifier_error + node_id" where
  "node_id_from_bytes bs = try_r (validate_identifier bs) (\<lambda>b. Inr (NodeId b))"

definition plan_id_from_bytes :: "bytes \<Rightarrow> identifier_error + quorum_plan_id" where
  "plan_id_from_bytes bs = try_r (validate_identifier bs) (\<lambda>b. Inr (QuorumPlanId b))"

definition identifier_ok :: "bytes \<Rightarrow> bool" where
  "identifier_ok bs = (length bs = 16 \<and> bs \<noteq> replicate 16 0)"

text \<open>The derived order of the newtype is the lexicographic order of its bytes.\<close>

instantiation node_id :: linorder
begin
definition less_eq_node_id :: "node_id \<Rightarrow> node_id \<Rightarrow> bool" where
  "less_eq_node_id a b = (node_bytes a \<le> node_bytes b)"
definition less_node_id :: "node_id \<Rightarrow> node_id \<Rightarrow> bool" where
  "less_node_id a b = (node_bytes a < node_bytes b)"
instance
  by standard (auto simp: less_eq_node_id_def less_node_id_def node_id.expand)
end

section \<open>Lemmas\<close>

named_theorems result_simps "inversion of successful and failing results"

lemma try_r_Inr [result_simps]: "try_r m f = Inr y \<longleftrightarrow> (\<exists>x. m = Inr x \<and> f x = Inr y)"
  by (cases m) auto

lemma try_r_Inl [result_simps]:
  "try_r m f = Inl e \<longleftrightarrow> m = Inl e \<or> (\<exists>x. m = Inr x \<and> f x = Inl e)"
  by (cases m) auto

lemma try_r_cong [fundef_cong]:
  "m = m' \<Longrightarrow> (\<And>x. m' = Inr x \<Longrightarrow> f x = g x) \<Longrightarrow> try_r m f = try_r m' g"
  by (cases m) auto

lemma try_map_cong [fundef_cong]:
  "xs = ys \<Longrightarrow> (\<And>x. x \<in> set ys \<Longrightarrow> f x = g x) \<Longrightarrow> try_map f xs = try_map g ys"
  by (induction xs arbitrary: ys) auto

lemma ok_or_Inr [result_simps]: "ok_or e m = Inr x \<longleftrightarrow> m = Some x"
  by (cases m) auto

lemma ok_or_Inl [result_simps]: "ok_or e m = Inl e' \<longleftrightarrow> m = None \<and> e' = e"
  by (cases m) auto

lemma map_err_Inr [result_simps]: "map_err g r = Inr x \<longleftrightarrow> r = Inr x"
  by (cases r) auto

lemma map_err_Inl [result_simps]: "map_err g r = Inl e \<longleftrightarrow> (\<exists>e'. r = Inl e' \<and> e = g e')"
  by (cases r) auto

lemma is_ok_Inr [simp]: "is_ok (Inr x)"
  by (simp add: is_ok_def)

lemma is_ok_Inl [simp]: "\<not> is_ok (Inl x)"
  by (simp add: is_ok_def)

lemma is_ok_iff: "is_ok r \<longleftrightarrow> (\<exists>x. r = Inr x)"
  by (cases r) auto

lemma checked_add_Some [simp]:
  "checked_add mx a b = Some c \<longleftrightarrow> c = a + b \<and> a + b \<le> mx"
  by (auto simp: checked_add_def)

lemma checked_add_None [simp]: "checked_add mx a b = None \<longleftrightarrow> mx < a + b"
  by (auto simp: checked_add_def)

lemma checked_sub_Some [simp]: "checked_sub a b = Some c \<longleftrightarrow> b \<le> a \<and> c = a - b"
  by (auto simp: checked_sub_def)

lemma checked_sub_None [simp]: "checked_sub a b = None \<longleftrightarrow> a < b"
  by (auto simp: checked_sub_def)

lemma try_narrow_Some [simp]: "try_narrow mx a = Some b \<longleftrightarrow> b = a \<and> a \<le> mx"
  by (auto simp: try_narrow_def)

lemma try_narrow_None [simp]: "try_narrow mx a = None \<longleftrightarrow> mx < a"
  by (auto simp: try_narrow_def)

lemma set_btree_iter [simp]: "set (btree_iter s) = fset s"
  by (simp add: btree_iter_def sorted_list_of_fset.rep_eq)

lemma distinct_btree_iter [simp]: "distinct (btree_iter s)"
  by (simp add: btree_iter_def sorted_list_of_fset.rep_eq)

lemma sorted_btree_iter [simp]: "sorted (btree_iter s)"
  by (simp add: btree_iter_def sorted_list_of_fset.rep_eq)

lemma length_btree_iter [simp]: "length (btree_iter s) = fcard s"
  by (simp add: btree_iter_def sorted_list_of_fset.rep_eq fcard.rep_eq)

lemma btree_iter_inj: "btree_iter s = btree_iter t \<longleftrightarrow> s = t"
  by (metis fset_inject set_btree_iter)

lemma fset_of_list_btree_iter [simp]: "fset_of_list (btree_iter s) = s"
  by (metis fset_inject fset_of_list.rep_eq set_btree_iter)

lemma btree_iter_fset_of_list:
  "sorted xs \<Longrightarrow> distinct xs \<Longrightarrow> btree_iter (fset_of_list xs) = xs"
  by (simp add: btree_iter_def sorted_list_of_fset.rep_eq fset_of_list.rep_eq
      sorted_list_of_set_sort_remdups distinct_remdups_id sorted_sort_id)

lemma last_opt_Nil [simp]: "last_opt [] = None"
  by (simp add: last_opt_def)

lemma last_opt_snoc [simp]: "last_opt (xs @ [x]) = Some x"
  by (simp add: last_opt_def)

lemma last_opt_None [simp]: "last_opt xs = None \<longleftrightarrow> xs = []"
  by (simp add: last_opt_def)

lemma last_opt_Some: "last_opt xs = Some x \<longleftrightarrow> xs \<noteq> [] \<and> last xs = x"
  by (auto simp: last_opt_def)

lemma get_opt_Some: "get_opt xs i = Some x \<longleftrightarrow> i < length xs \<and> xs ! i = x"
  by (auto simp: get_opt_def)

lemma fmlookup_entry_or_insert:
  "fmlookup (entry_or_insert k v m) j =
     (if j = k \<and> fmlookup m k = None then Some v else fmlookup m j)"
  by (auto simp: entry_or_insert_def split: option.splits)

subsection \<open>Big-endian bytes\<close>

lemma length_be_bytes [simp]: "length (be_bytes k n) = k"
  by (induction k arbitrary: n) auto

lemma from_be_bytes_snoc [simp]: "from_be_bytes (bs @ [b]) = from_be_bytes bs * 256 + unat b"
  by (simp add: from_be_bytes_def)

lemma from_be_bytes_Nil [simp]: "from_be_bytes [] = 0"
  by (simp add: from_be_bytes_def)

lemma from_be_be_bytes_mod: "from_be_bytes (be_bytes k n) = n mod 256 ^ k"
proof (induction k arbitrary: n)
  case 0
  then show ?case by simp
next
  case (Suc k)
  have "n mod (256 * 256 ^ k) = n div 256 mod 256 ^ k * 256 + n mod 256"
    by (simp add: mod_mult2_eq)
  with Suc show ?case
    by (simp add: unat_of_nat)
qed

lemma from_be_be_bytes: "n < 256 ^ k \<Longrightarrow> from_be_bytes (be_bytes k n) = n"
  by (simp add: from_be_be_bytes_mod)

lemma be_bytes_inj: "be_bytes k m = be_bytes k n \<Longrightarrow> m < 256 ^ k \<Longrightarrow> n < 256 ^ k \<Longrightarrow> m = n"
  by (metis from_be_be_bytes)

subsection \<open>Identifiers\<close>

lemma node_id_from_bytes_ok [simp]:
  "identifier_ok (node_bytes v) \<Longrightarrow> node_id_from_bytes (node_bytes v) = Inr v"
  by (simp add: node_id_from_bytes_def validate_identifier_def identifier_ok_def)

lemma node_id_from_bytes_Inr:
  "node_id_from_bytes bs = Inr v \<longleftrightarrow> bs \<noteq> replicate 16 0 \<and> v = NodeId bs"
  by (auto simp: node_id_from_bytes_def validate_identifier_def)

lemma plan_id_from_bytes_ok [simp]:
  "identifier_ok (plan_id_bytes v) \<Longrightarrow> plan_id_from_bytes (plan_id_bytes v) = Inr v"
  by (simp add: plan_id_from_bytes_def validate_identifier_def identifier_ok_def)

end
