(* ===== verification/Quorum_Predicate.thy ===== *)
theory Quorum_Predicate
  imports Prelude
begin

text \<open>
  The quorum expression language of \<open>meshspan-consensus\<close>, \<open>quorum/predicate.rs\<close>, together with the compact
  voter sets of \<open>quorum/compile.rs\<close> that it is evaluated on.

  The reference semantics of a predicate is \<open>holds\<close>, evaluation on a set of node identities. The lemmas show
  that the bit-set evaluation \<open>evaluate\<close> agrees with it on every validated predicate, that validated
  predicates are upward closed, refer only to voters, and never hold of the empty set.
\<close>

unbundle bit_operations_syntax

section \<open>Voter sets (compile.rs)\<close>

datatype quorum_plan_error =
    InvalidPlan | InvalidMember | InvalidPredicate | NoQuorum | UnsafeIntersection | UnsafeTransition

datatype voter_set = VoterSet (voter_bits: "16 word")

definition vs_intersects :: "voter_set \<Rightarrow> voter_set \<Rightarrow> bool" where
  "vs_intersects a b = (voter_bits a AND voter_bits b \<noteq> 0)"

definition vs_contains :: "voter_set \<Rightarrow> voter_set \<Rightarrow> bool" where
  "vs_contains a required = (voter_bits a AND voter_bits required = voter_bits required)"

definition contains_bit :: "voter_set \<Rightarrow> nat \<Rightarrow> bool" where
  "contains_bit a b = (voter_bits a AND push_bit b 1 \<noteq> 0)"

fun from_nodes_loop :: "nat \<Rightarrow> node_id list \<Rightarrow> node_id fset \<Rightarrow> 16 word \<Rightarrow> 16 word" where
  "from_nodes_loop i [] nodes acc = acc"
| "from_nodes_loop i (v # vs) nodes acc =
     from_nodes_loop (Suc i) vs nodes
       (if v |\<in>| nodes \<and> i \<le> u8_max then acc OR push_bit i 1 else acc)"

definition from_nodes :: "node_id list \<Rightarrow> node_id fset \<Rightarrow> voter_set" where
  "from_nodes ordered nodes = VoterSet (from_nodes_loop 0 ordered nodes 0)"

definition to_nodes :: "voter_set \<Rightarrow> node_id list \<Rightarrow> node_id fset" where
  "to_nodes a ordered =
     fset_of_list (map snd (filter (\<lambda>(i, v). i \<le> u8_max \<and> contains_bit a i) (enumerate 0 ordered)))"

section \<open>Predicates (predicate.rs)\<close>

definition MAXIMUM_PREDICATE_DEPTH :: nat where "MAXIMUM_PREDICATE_DEPTH = 8"
definition MAXIMUM_PREDICATE_NODES :: nat where "MAXIMUM_PREDICATE_NODES = 256"

record weighted_voter =
  wv_voter :: node_id
  wv_weight :: nat

datatype quorum_predicate =
    Voter node_id
  | AtLeast nat "quorum_predicate list"
  | WeightedAtLeast nat "weighted_voter list"
  | All "quorum_predicate list"

fun validate_weighted_loop ::
  "weighted_voter list \<Rightarrow> node_id fset \<Rightarrow> node_id fset \<Rightarrow> nat \<Rightarrow>
     quorum_plan_error + node_id fset \<times> nat" where
  "validate_weighted_loop [] voters referenced tot = Inr (referenced, tot)"
| "validate_weighted_loop (item # rest) voters referenced tot =
     (if wv_weight item = 0 \<or> wv_voter item |\<notin>| voters \<or> wv_voter item |\<in>| referenced
      then Inl InvalidPredicate
      else try_r (ok_or InvalidPredicate (checked_add u32_max tot (wv_weight item)))
        (\<lambda>tot'. validate_weighted_loop rest voters (finsert (wv_voter item) referenced) tot'))"

definition validate_weighted ::
  "nat \<Rightarrow> weighted_voter list \<Rightarrow> node_id fset \<Rightarrow> quorum_plan_error + node_id fset" where
  "validate_weighted threshold weighted voters =
     (if threshold = 0 \<or> weighted = [] then Inl InvalidPredicate
      else try_r (validate_weighted_loop weighted voters {||} 0)
        (\<lambda>(referenced, tot).
           if threshold > tot then Inl InvalidPredicate else Inr referenced))"

text \<open>
  \<open>validate_node\<close> threads the mutable node counter: it returns the referenced voters and the counter.
\<close>

fun validate_node ::
  "quorum_predicate \<Rightarrow> node_id fset \<Rightarrow> nat \<Rightarrow> nat \<Rightarrow> quorum_plan_error + node_id fset \<times> nat"
and validate_children_loop ::
  "quorum_predicate list \<Rightarrow> node_id fset \<Rightarrow> nat \<Rightarrow> nat \<Rightarrow> node_id fset \<Rightarrow>
     quorum_plan_error + node_id fset \<times> nat"
where
  "validate_node p voters depth node_count =
     try_r (ok_or InvalidPredicate (checked_add u64_max node_count 1)) (\<lambda>node_count.
       if depth > MAXIMUM_PREDICATE_DEPTH \<or> node_count > MAXIMUM_PREDICATE_NODES
       then Inl InvalidPredicate
       else (case p of
         Voter v \<Rightarrow> if v |\<in>| voters then Inr ({|v|}, node_count) else Inl InvalidMember
       | AtLeast threshold children \<Rightarrow>
           if threshold = 0 \<or> threshold > length children then Inl InvalidPredicate
           else if children = [] then Inl InvalidPredicate
           else validate_children_loop children voters depth node_count {||}
       | All children \<Rightarrow>
           if children = [] then Inl InvalidPredicate
           else validate_children_loop children voters depth node_count {||}
       | WeightedAtLeast threshold weighted \<Rightarrow>
           try_r (validate_weighted threshold weighted voters) (\<lambda>r. Inr (r, node_count))))"
| "validate_children_loop [] voters depth node_count referenced = Inr (referenced, node_count)"
| "validate_children_loop (child # rest) voters depth node_count referenced =
     try_r (validate_node child voters (depth + 1) node_count) (\<lambda>(refs, node_count).
       if referenced |\<inter>| refs \<noteq> {||} then Inl InvalidPredicate
       else validate_children_loop rest voters depth node_count (referenced |\<union>| refs))"

definition validate_predicate ::
  "quorum_predicate \<Rightarrow> node_id fset \<Rightarrow> quorum_plan_error + node_id fset" where
  "validate_predicate p voters = try_r (validate_node p voters 1 0) (\<lambda>(refs, _). Inr refs)"

definition bit_acknowledged :: "voter_set \<Rightarrow> (node_id, nat) fmap \<Rightarrow> node_id \<Rightarrow> bool" where
  "bit_acknowledged acknowledged bits v =
     (case fmlookup bits v of None \<Rightarrow> False | Some b \<Rightarrow> contains_bit acknowledged b)"

fun weight_total :: "nat \<Rightarrow> weighted_voter list \<Rightarrow> nat option" where
  "weight_total tot [] = Some tot"
| "weight_total tot (w # ws) =
     (case checked_add u32_max tot (wv_weight w) of
        None \<Rightarrow> None | Some tot' \<Rightarrow> weight_total tot' ws)"

fun evaluate :: "quorum_predicate \<Rightarrow> voter_set \<Rightarrow> (node_id, nat) fmap \<Rightarrow> bool" where
  "evaluate (Voter v) acknowledged bits = bit_acknowledged acknowledged bits v"
| "evaluate (AtLeast threshold children) acknowledged bits =
     (length (filter (\<lambda>c. evaluate c acknowledged bits) children) \<ge> threshold)"
| "evaluate (WeightedAtLeast threshold weighted) acknowledged bits =
     (case weight_total 0
             (filter (\<lambda>w. bit_acknowledged acknowledged bits (wv_voter w)) weighted) of
        None \<Rightarrow> False | Some tot \<Rightarrow> tot \<ge> threshold)"
| "evaluate (All children) acknowledged bits =
     list_all (\<lambda>c. evaluate c acknowledged bits) children"

section \<open>Reference semantics\<close>

text \<open>A predicate over the exact set of acknowledging identities, with unbounded weights.\<close>

fun holds :: "quorum_predicate \<Rightarrow> node_id set \<Rightarrow> bool" where
  "holds (Voter v) S = (v \<in> S)"
| "holds (AtLeast threshold children) S =
     (threshold \<le> length (filter (\<lambda>c. holds c S) children))"
| "holds (WeightedAtLeast threshold weighted) S =
     (threshold \<le> sum_list (map wv_weight (filter (\<lambda>w. wv_voter w \<in> S) weighted)))"
| "holds (All children) S = list_all (\<lambda>c. holds c S) children"

text \<open>The voters a predicate refers to and its number of expression nodes.\<close>

fun references :: "quorum_predicate \<Rightarrow> node_id set" where
  "references (Voter v) = {v}"
| "references (AtLeast _ children) = (\<Union>c \<in> set children. references c)"
| "references (WeightedAtLeast _ weighted) = wv_voter ` set weighted"
| "references (All children) = (\<Union>c \<in> set children. references c)"

fun node_total :: "quorum_predicate \<Rightarrow> nat" where
  "node_total (Voter v) = 1"
| "node_total (AtLeast _ children) = 1 + sum_list (map node_total children)"
| "node_total (WeightedAtLeast _ weighted) = 1"
| "node_total (All children) = 1 + sum_list (map node_total children)"

fun tree_depth :: "quorum_predicate \<Rightarrow> nat" where
  "tree_depth (Voter v) = 1"
| "tree_depth (AtLeast _ children) = 1 + fold max (map tree_depth children) 0"
| "tree_depth (WeightedAtLeast _ weighted) = 1"
| "tree_depth (All children) = 1 + fold max (map tree_depth children) 0"

text \<open>The structural conditions that validation enforces on an expression.\<close>

fun disjoint_refs :: "quorum_predicate list \<Rightarrow> bool" where
  "disjoint_refs [] = True"
| "disjoint_refs (c # cs) =
     (references c \<inter> (\<Union>d \<in> set cs. references d) = {} \<and> disjoint_refs cs)"

fun well_formed :: "quorum_predicate \<Rightarrow> bool" where
  "well_formed (Voter v) = True"
| "well_formed (AtLeast threshold children) =
     (0 < threshold \<and> threshold \<le> length children \<and> disjoint_refs children \<and>
      list_all well_formed children)"
| "well_formed (WeightedAtLeast threshold weighted) =
     (0 < threshold \<and> weighted \<noteq> [] \<and> distinct (map wv_voter weighted) \<and>
      (\<forall>w \<in> set weighted. 0 < wv_weight w) \<and>
      threshold \<le> sum_list (map wv_weight weighted) \<and>
      sum_list (map wv_weight weighted) \<le> u32_max)"
| "well_formed (All children) =
     (children \<noteq> [] \<and> disjoint_refs children \<and> list_all well_formed children)"

section \<open>Lemmas on the reference semantics\<close>

declare validate_node.simps [simp del]

lemma length_filter_mono:
  "(\<And>x. x \<in> set xs \<Longrightarrow> P x \<Longrightarrow> Q x) \<Longrightarrow> length (filter P xs) \<le> length (filter Q xs)"
  by (induction xs) (auto simp: le_Suc_eq)

lemma sum_list_filter_mono:
  "(\<And>x. x \<in> set xs \<Longrightarrow> P x \<Longrightarrow> Q x) \<Longrightarrow>
     sum_list (map f (filter P xs)) \<le> sum_list (map f (filter Q xs) :: nat list)"
  by (induction xs) auto

lemma holds_mono: "holds p S \<Longrightarrow> S \<subseteq> T \<Longrightarrow> holds p T"
proof (induction p)
  case (AtLeast k cs)
  have "length (filter (\<lambda>c. holds c S) cs) \<le> length (filter (\<lambda>c. holds c T) cs)"
    using AtLeast by (intro length_filter_mono) auto
  with AtLeast show ?case by simp
next
  case (WeightedAtLeast k ws)
  have "sum_list (map wv_weight (filter (\<lambda>w. wv_voter w \<in> S) ws))
      \<le> sum_list (map wv_weight (filter (\<lambda>w. wv_voter w \<in> T) ws))"
    using WeightedAtLeast.prems(2) by (intro sum_list_filter_mono) auto
  with WeightedAtLeast show ?case by simp
qed (auto simp: list_all_iff)

lemma holds_cong: "S \<inter> references p = T \<inter> references p \<Longrightarrow> holds p S = holds p T"
proof (induction p)
  case (AtLeast k cs)
  have "S \<inter> references c = T \<inter> references c" if "c \<in> set cs" for c
    using AtLeast.prems that by auto
  then have "filter (\<lambda>c. holds c S) cs = filter (\<lambda>c. holds c T) cs"
    by (intro filter_cong) (auto simp: AtLeast.IH)
  then show ?case by simp
next
  case (WeightedAtLeast k ws)
  have "filter (\<lambda>w. wv_voter w \<in> S) ws = filter (\<lambda>w. wv_voter w \<in> T) ws"
    by (rule filter_cong) (use WeightedAtLeast in auto)
  then show ?case by simp
next
  case (All cs)
  have "S \<inter> references c = T \<inter> references c" if "c \<in> set cs" for c
    using All.prems that by auto
  then have "\<forall>c \<in> set cs. holds c S = holds c T"
    by (simp add: All.IH)
  then show ?case by (simp add: list_all_iff)
qed auto

lemma holds_restrict: "references p \<subseteq> V \<Longrightarrow> holds p (S \<inter> V) = holds p S"
  by (rule holds_cong) auto

lemma not_holds_empty: "well_formed p \<Longrightarrow> \<not> holds p {}"
proof (induction p)
  case (AtLeast k cs)
  then have "filter (\<lambda>c. holds c {}) cs = []"
    by (auto simp: filter_empty_conv list_all_iff)
  with AtLeast show ?case by (auto simp: list_all_iff)
next
  case (All cs)
  then show ?case by (cases cs) auto
qed auto

lemma holds_references: "well_formed p \<Longrightarrow> references p \<subseteq> S \<Longrightarrow> holds p S"
proof (induction p)
  case (AtLeast k cs)
  have "\<forall>c \<in> set cs. holds c S"
    using AtLeast by (auto simp: list_all_iff)
  then have "filter (\<lambda>c. holds c S) cs = cs"
    by simp
  with AtLeast show ?case by simp
next
  case (WeightedAtLeast k ws)
  have "filter (\<lambda>w. wv_voter w \<in> S) ws = ws"
    using WeightedAtLeast by (auto simp: filter_id_conv)
  with WeightedAtLeast show ?case by simp
qed (auto simp: list_all_iff)

lemma finite_references [simp]: "finite (references p)"
  by (induction p) auto

lemma references_nonempty: "well_formed p \<Longrightarrow> references p \<noteq> {}"
  using holds_references[of p "{}"] not_holds_empty[of p] by auto

section \<open>Validation\<close>

lemma validate_weighted_loop_Inr:
  "validate_weighted_loop ws voters refd tot = Inr (r, t) \<Longrightarrow>
     distinct (map wv_voter ws) \<and> wv_voter ` set ws \<inter> fset refd = {} \<and>
     (\<forall>w \<in> set ws. 0 < wv_weight w) \<and> wv_voter ` set ws \<subseteq> fset voters \<and>
     fset r = fset refd \<union> wv_voter ` set ws \<and>
     t = tot + sum_list (map wv_weight ws) \<and> (ws \<noteq> [] \<longrightarrow> t \<le> u32_max)"
proof (induction ws arbitrary: refd tot)
  case (Cons w ws)
  then have "wv_weight w \<noteq> 0" "wv_voter w |\<in>| voters" "wv_voter w |\<notin>| refd"
    "tot + wv_weight w \<le> u32_max"
    "validate_weighted_loop ws voters (finsert (wv_voter w) refd) (tot + wv_weight w) = Inr (r, t)"
    by (auto simp: result_simps split: if_splits)
  with Cons.IH[OF this(5)] show ?case by auto
qed auto

lemma validate_weighted_loop_ok:
  "\<lbrakk>distinct (map wv_voter ws); wv_voter ` set ws \<inter> fset refd = {};
    \<forall>w \<in> set ws. 0 < wv_weight w; wv_voter ` set ws \<subseteq> fset voters;
    tot + sum_list (map wv_weight ws) \<le> u32_max\<rbrakk> \<Longrightarrow>
   validate_weighted_loop ws voters refd tot =
     Inr (refd |\<union>| fset_of_list (map wv_voter ws), tot + sum_list (map wv_weight ws))"
proof (induction ws arbitrary: refd tot)
  case (Cons w ws)
  have "validate_weighted_loop ws voters (finsert (wv_voter w) refd) (tot + wv_weight w) =
     Inr (finsert (wv_voter w) refd |\<union>| fset_of_list (map wv_voter ws),
          tot + wv_weight w + sum_list (map wv_weight ws))"
    by (rule Cons.IH) (use Cons.prems in auto)
  with Cons.prems show ?case
    by (auto simp: checked_add_def add.assoc)
qed auto

lemma fold_max_le:
  "d + fold max (map f xs) (a::nat) \<le> m \<longleftrightarrow> d + a \<le> m \<and> (\<forall>x \<in> set xs. d + f x \<le> m)"
  by (induction xs arbitrary: a) (auto simp: max_def)

definition validation_facts :: "quorum_predicate \<Rightarrow> node_id fset \<Rightarrow> nat \<Rightarrow> nat \<Rightarrow> node_id fset \<Rightarrow> nat \<Rightarrow> bool" where
  "validation_facts p voters d n refs n' \<longleftrightarrow>
     well_formed p \<and> fset refs = references p \<and> references p \<subseteq> fset voters \<and>
     n' = n + node_total p \<and> n' \<le> MAXIMUM_PREDICATE_NODES \<and>
     d + tree_depth p \<le> Suc MAXIMUM_PREDICATE_DEPTH"

lemma validate_node_unfold:
  assumes "depth \<le> MAXIMUM_PREDICATE_DEPTH" "n + 1 \<le> MAXIMUM_PREDICATE_NODES"
  shows "validate_node p voters depth n = (case p of
         Voter v \<Rightarrow> if v |\<in>| voters then Inr ({|v|}, n + 1) else Inl InvalidMember
       | AtLeast threshold children \<Rightarrow>
           if threshold = 0 \<or> threshold > length children then Inl InvalidPredicate
           else if children = [] then Inl InvalidPredicate
           else validate_children_loop children voters depth (n + 1) {||}
       | All children \<Rightarrow>
           if children = [] then Inl InvalidPredicate
           else validate_children_loop children voters depth (n + 1) {||}
       | WeightedAtLeast threshold weighted \<Rightarrow>
           try_r (validate_weighted threshold weighted voters) (\<lambda>r. Inr (r, n + 1)))"
  using assms
  by (auto simp: validate_node.simps checked_add_def u64_max_def MAXIMUM_PREDICATE_NODES_def
      split: quorum_predicate.splits)

lemma validate_Inr:
  "validate_node p voters d n = Inr (refs, n') \<Longrightarrow> validation_facts p voters d n refs n'"
  "validate_children_loop cs voters d n refd = Inr (refs, n') \<Longrightarrow>
     list_all well_formed cs \<and> disjoint_refs cs \<and> (\<Union>c \<in> set cs. references c) \<inter> fset refd = {} \<and>
     fset refs = fset refd \<union> (\<Union>c \<in> set cs. references c) \<and>
     (\<Union>c \<in> set cs. references c) \<subseteq> fset voters \<and>
     n' = n + sum_list (map node_total cs) \<and> (cs \<noteq> [] \<longrightarrow> n' \<le> MAXIMUM_PREDICATE_NODES) \<and>
     (\<forall>c \<in> set cs. d + tree_depth c \<le> MAXIMUM_PREDICATE_DEPTH)"
proof (induction p voters d n and cs voters d n refd arbitrary: refs n' and refs n'
    rule: validate_node_validate_children_loop.induct)
  case (1 p voters depth n)
  note IH = "1.IH"
  from "1.prems" have bound: "depth \<le> MAXIMUM_PREDICATE_DEPTH" "n + 1 \<le> MAXIMUM_PREDICATE_NODES"
    by (auto simp: validate_node.simps result_simps split: if_splits)
  have n1: "ok_or InvalidPredicate (checked_add u64_max n 1) = Inr (n + 1)"
    using bound by (simp add: result_simps u64_max_def MAXIMUM_PREDICATE_NODES_def)
  note unf = validate_node_unfold[OF bound]
  show ?case
  proof (cases p)
    case (Voter v)
    with "1.prems" bound show ?thesis
      by (auto simp: unf validation_facts_def split: if_splits)
  next
    case (AtLeast k cs)
    with "1.prems" bound have k: "k \<noteq> 0" "k \<le> length cs" "cs \<noteq> []"
      and loop: "validate_children_loop cs voters depth (n + 1) {||} = Inr (refs, n')"
      by (auto simp: unf split: if_splits)
    from IH(1)[OF n1 _ AtLeast _ _ loop] bound k show ?thesis
      by (auto simp: validation_facts_def AtLeast fold_max_le)
  next
    case (WeightedAtLeast k ws)
    with "1.prems" bound obtain t where
      k: "k \<noteq> 0" "ws \<noteq> []" "k \<le> t" "n' = n + 1"
      and loop: "validate_weighted_loop ws voters {||} 0 = Inr (refs, t)"
      by (auto simp: unf validate_weighted_def result_simps split: if_splits)
    from validate_weighted_loop_Inr[OF loop] k bound show ?thesis
      by (auto simp: validation_facts_def WeightedAtLeast)
  next
    case (All cs)
    with "1.prems" bound have k: "cs \<noteq> []"
      and loop: "validate_children_loop cs voters depth (n + 1) {||} = Inr (refs, n')"
      by (auto simp: unf split: if_splits)
    from IH(2)[OF n1 _ All _ loop] bound k show ?thesis
      by (auto simp: validation_facts_def All fold_max_le)
  qed
next
  case (3 c rest voters depth n refd)
  then obtain rc nc where head: "validate_node c voters (depth + 1) n = Inr (rc, nc)"
    and disj: "refd |\<inter>| rc = {||}"
    and tl: "validate_children_loop rest voters depth nc (refd |\<union>| rc) = Inr (refs, n')"
    by (auto simp: result_simps split: if_splits)
  have hf: "validation_facts c voters (depth + 1) n rc nc"
    by (rule "3.IH"(1)[OF head])
  have "fset refd \<inter> fset rc = {}"
    using disj by (metis bot_fset.rep_eq inf_fset.rep_eq)
  with "3.IH"(2)[OF head refl _ tl] disj hf show ?case
    by (auto simp: validation_facts_def)
qed auto

lemma validate_complete:
  "\<lbrakk>well_formed p; references p \<subseteq> fset voters; n + node_total p \<le> MAXIMUM_PREDICATE_NODES;
    d + tree_depth p \<le> Suc MAXIMUM_PREDICATE_DEPTH\<rbrakk> \<Longrightarrow>
   \<exists>refs. validate_node p voters d n = Inr (refs, n + node_total p)"
  "\<lbrakk>list_all well_formed cs; disjoint_refs cs; (\<Union>c \<in> set cs. references c) \<inter> fset refd = {};
    (\<Union>c \<in> set cs. references c) \<subseteq> fset voters;
    n + sum_list (map node_total cs) \<le> MAXIMUM_PREDICATE_NODES;
    \<forall>c \<in> set cs. d + tree_depth c \<le> MAXIMUM_PREDICATE_DEPTH\<rbrakk> \<Longrightarrow>
   \<exists>refs. validate_children_loop cs voters d n refd = Inr (refs, n + sum_list (map node_total cs))"
proof (induction p voters d n and cs voters d n refd
    rule: validate_node_validate_children_loop.induct)
  case (1 p voters depth n)
  note IH = "1.IH"
  have "0 < node_total p" "0 < tree_depth p"
    by (cases p; simp)+
  with "1.prems" have bound: "depth \<le> MAXIMUM_PREDICATE_DEPTH" "n + 1 \<le> MAXIMUM_PREDICATE_NODES"
    by linarith+
  have n1: "ok_or InvalidPredicate (checked_add u64_max n 1) = Inr (n + 1)"
    using bound by (simp add: result_simps u64_max_def MAXIMUM_PREDICATE_NODES_def)
  note unf = validate_node_unfold[OF bound]
  show ?case
  proof (cases p)
    case (Voter v)
    with "1.prems" show ?thesis by (simp add: unf)
  next
    case (AtLeast k cs)
    then have "cs \<noteq> []" "k \<noteq> 0" "k \<le> length cs"
      using "1.prems" by auto
    with IH(1)[OF n1 _ AtLeast] bound "1.prems" AtLeast show ?thesis
      by (auto simp: unf fold_max_le)
  next
    case (WeightedAtLeast k ws)
    with "1.prems" validate_weighted_loop_ok[of ws "{||}" voters 0] show ?thesis
      by (auto simp: unf validate_weighted_def)
  next
    case (All cs)
    then have "cs \<noteq> []"
      using "1.prems" by auto
    with IH(2)[OF n1 _ All] bound "1.prems" All show ?thesis
      by (auto simp: unf fold_max_le)
  qed
next
  case (3 c rest voters depth n refd)
  have "\<exists>refs. validate_node c voters (depth + 1) n = Inr (refs, n + node_total c)"
    by (rule "3.IH"(1)) (use "3.prems" in auto)
  then obtain rc where head: "validate_node c voters (depth + 1) n = Inr (rc, n + node_total c)"
    by blast
  have refs: "fset rc = references c"
    using validate_Inr(1)[OF head] by (simp add: validation_facts_def)
  then have disj: "refd |\<inter>| rc = {||}"
    using "3.prems" by (metis Int_commute Union_disjoint bot_fset.rep_eq fset_inject
        image_eqI inf_fset.rep_eq list.set_intros(1))
  have "\<exists>refs. validate_children_loop rest voters depth (n + node_total c) (refd |\<union>| rc) =
          Inr (refs, n + node_total c + sum_list (map node_total rest))"
    by (rule "3.IH"(2)[OF head refl]) (use "3.prems" disj refs in auto)
  with head disj show ?case by (auto simp: add.assoc)
qed auto

section \<open>Bit-set evaluation\<close>

lemma bit_16_less: "bit (w :: 16 word) n \<Longrightarrow> n < 16"
  using bit_imp_le_length[of w n] by simp

lemma contains_bit_iff: "contains_bit a b \<longleftrightarrow> bit (voter_bits a) b"
proof -
  have "bit (voter_bits a AND push_bit b 1) m \<longleftrightarrow> m = b \<and> bit (voter_bits a) b" for m
    by (auto simp: bit_simps dest: bit_imp_le_length)
  then have "voter_bits a AND push_bit b 1 \<noteq> 0 \<longleftrightarrow> bit (voter_bits a) b"
    by (auto simp: bit_eq_iff dest: bit_16_less)
  then show ?thesis by (simp add: contains_bit_def)
qed

lemma vs_contains_iff: "vs_contains a r \<longleftrightarrow> (\<forall>b. bit (voter_bits r) b \<longrightarrow> bit (voter_bits a) b)"
  unfolding vs_contains_def by (auto simp: bit_eq_iff bit_and_iff dest: bit_16_less)

lemma vs_intersects_iff:
  "vs_intersects a b \<longleftrightarrow> (\<exists>i. bit (voter_bits a) i \<and> bit (voter_bits b) i)"
  unfolding vs_intersects_def by (auto simp: bit_eq_iff bit_and_iff dest: bit_16_less)

lemma bit_from_nodes_loop:
  "i + length vs \<le> 16 \<Longrightarrow>
   bit (from_nodes_loop i vs S acc) j \<longleftrightarrow>
     bit acc j \<or> (i \<le> j \<and> j < i + length vs \<and> vs ! (j - i) |\<in>| S)"
proof (induction vs arbitrary: i acc)
  case (Cons v vs)
  have i: "i < 16" "i \<le> u8_max"
    using Cons.prems by (auto simp: u8_max_def)
  have step: "bit (if v |\<in>| S \<and> i \<le> u8_max then acc OR push_bit i 1 else acc) j \<longleftrightarrow>
      bit acc j \<or> (j = i \<and> v |\<in>| S)"
    using i by (auto simp: bit_simps)
  have ih: "bit (from_nodes_loop i (v # vs) S acc) j \<longleftrightarrow>
      (bit acc j \<or> (j = i \<and> v |\<in>| S)) \<or> (Suc i \<le> j \<and> j < Suc i + length vs \<and> vs ! (j - Suc i) |\<in>| S)"
    using Cons.prems Cons.IH[of "Suc i"] step by simp
  have tl: "(v # vs) ! (j - i) = (if j = i then v else vs ! (j - Suc i))" if "i \<le> j"
    using that by (simp add: nth_Cons')
  show ?case
    unfolding ih using tl by (cases "j = i"; cases "i \<le> j") auto
qed auto

lemma bit_from_nodes:
  "length ordered \<le> 16 \<Longrightarrow>
   bit (voter_bits (from_nodes ordered S)) j \<longleftrightarrow> j < length ordered \<and> ordered ! j |\<in>| S"
  by (simp add: from_nodes_def bit_from_nodes_loop)

lemma in_to_nodes:
  assumes "length ordered \<le> 16"
  shows "v |\<in>| to_nodes a ordered \<longleftrightarrow> (\<exists>j < length ordered. v = ordered ! j \<and> bit (voter_bits a) j)"
proof -
  have "j \<le> u8_max" if "j < length ordered" for j
    using that assms by (simp add: u8_max_def)
  then show ?thesis
    by (auto simp: to_nodes_def fset_of_list.rep_eq contains_bit_iff image_iff in_set_enumerate_eq
        split_beta Bex_def)
qed

lemma weight_total_Some:
  "k + sum_list (map wv_weight ws) \<le> u32_max \<Longrightarrow>
   weight_total k ws = Some (k + sum_list (map wv_weight ws))"
  by (induction ws arbitrary: k) (auto simp: checked_add_def)

lemma sum_list_filter_le: "sum_list (map f (filter P xs)) \<le> (sum_list (map f xs) :: nat)"
  by (induction xs) auto

lemma evaluate_holds:
  "well_formed p \<Longrightarrow> evaluate p a bits = holds p {v. bit_acknowledged a bits v}"
proof (induction p)
  case (AtLeast k cs)
  have "filter (\<lambda>c. evaluate c a bits) cs =
      filter (\<lambda>c. holds c {v. bit_acknowledged a bits v}) cs"
    by (rule filter_cong) (use AtLeast in \<open>auto simp: list_all_iff\<close>)
  then show ?case by simp
next
  case (WeightedAtLeast k ws)
  let ?ws = "filter (\<lambda>w. bit_acknowledged a bits (wv_voter w)) ws"
  have "sum_list (map wv_weight ?ws) \<le> u32_max"
    using WeightedAtLeast sum_list_filter_le[of wv_weight _ ws] le_trans by fastforce
  then show ?case by (simp add: weight_total_Some)
qed (auto simp: list_all_iff)

section \<open>Size of a validated expression\<close>

lemma card_references_sum:
  "disjoint_refs cs \<Longrightarrow> card (\<Union>c \<in> set cs. references c) = sum_list (map (\<lambda>c. card (references c)) cs)"
  by (induction cs) (auto simp: card_Un_disjoint)

lemma tree_depth_pos: "0 < tree_depth p"
  by (cases p) auto

lemma children_total_bound:
  assumes cs: "cs \<noteq> []" "disjoint_refs cs" "list_all well_formed cs"
    and depth: "\<forall>c \<in> set cs. tree_depth c \<le> d"
    and IH: "\<And>c e. c \<in> set cs \<Longrightarrow> tree_depth c \<le> Suc e \<Longrightarrow>
               node_total c \<le> 1 + card (references c) * e"
  shows "sum_list (map node_total cs) \<le> card (\<Union>c \<in> set cs. references c) * d"
proof -
  have "0 < d"
    using cs(1) depth tree_depth_pos[of "hd cs"] by (metis hd_in_set less_le_trans)
  then obtain e where d: "d = Suc e"
    by (cases d) auto
  have "node_total c \<le> card (references c) * d" if "c \<in> set cs" for c
  proof -
    have "0 < card (references c)"
      using cs(3) that references_nonempty by (auto simp: list_all_iff card_gt_0_iff)
    moreover have "node_total c \<le> 1 + card (references c) * e"
      using IH depth that d by auto
    ultimately show ?thesis by (simp add: d)
  qed
  then have "sum_list (map node_total cs) \<le> sum_list (map (\<lambda>c. card (references c) * d) cs)"
    by (intro sum_list_mono)
  also have "\<dots> = card (\<Union>c \<in> set cs. references c) * d"
    using cs(2) by (simp add: card_references_sum sum_list_mult_const)
  finally show ?thesis .
qed

lemma node_total_bound:
  "well_formed p \<Longrightarrow> tree_depth p \<le> Suc d \<Longrightarrow> node_total p \<le> 1 + card (references p) * d"
proof (induction p arbitrary: d)
  case (AtLeast k cs)
  have "sum_list (map node_total cs) \<le> card (\<Union>c \<in> set cs. references c) * d"
    by (rule children_total_bound)
      (use AtLeast fold_max_le[of 1 tree_depth cs 0 "Suc d"] in \<open>auto simp: list_all_iff\<close>)
  then show ?case by simp
next
  case (All cs)
  have "sum_list (map node_total cs) \<le> card (\<Union>c \<in> set cs. references c) * d"
    by (rule children_total_bound)
      (use All fold_max_le[of 1 tree_depth cs 0 "Suc d"] in \<open>auto simp: list_all_iff\<close>)
  then show ?case by simp
qed auto

end
