(* ===== verification/Quorum_Compile.thy ===== *)
theory Quorum_Compile
  imports Quorum_Predicate
begin

text \<open>
  Quorum plans and their compilation: \<open>quorum/mod.rs\<close>, \<open>quorum/compile.rs\<close> and \<open>quorum/digest.rs\<close> of
  \<open>meshspan-consensus\<close>. SHA-256 is the parameter \<open>H\<close> of the definitions that hash.

  The lemmas show that the compiled minimal-quorum tables decide exactly the reference semantics of the
  source predicates, that the compiled cut sets are exactly the blocking removals, and that every pair of
  families the safety argument needs intersects. The locale \<open>quorum_provider\<close> states that contract for the
  rest of the development.
\<close>

unbundle bit_operations_syntax

section \<open>Plans (mod.rs)\<close>

definition MAXIMUM_VOTERS :: nat where "MAXIMUM_VOTERS = 9"
definition MAXIMUM_LEARNERS :: nat where "MAXIMUM_LEARNERS = 256"

record quorum_plan_spec =
  spec_plan_id :: quorum_plan_id
  spec_format_version :: nat
  spec_membership_epoch :: nat
  spec_voters :: "node_id fset"
  spec_learners :: "node_id fset"
  spec_eligible_leaders :: "node_id fset"
  spec_election :: quorum_predicate
  spec_commit :: quorum_predicate
  spec_read :: quorum_predicate

datatype quorum_family = Election | Commit | Read

record family_proof =
  minimal_quorums :: "voter_set list"
  minimal_cut_sets :: "voter_set list"

record compiled_quorum_plan =
  plan_spec :: quorum_plan_spec
  ordered_voters :: "node_id list"
  plan_election :: family_proof
  plan_commit :: family_proof
  plan_read :: family_proof
  plan_proof_digest :: bytes

definition plan_members :: "compiled_quorum_plan \<Rightarrow> node_id fset" where
  "plan_members plan = spec_voters (plan_spec plan) |\<union>| spec_learners (plan_spec plan)"

fun plan_family :: "compiled_quorum_plan \<Rightarrow> quorum_family \<Rightarrow> family_proof" where
  "plan_family plan Election = plan_election plan"
| "plan_family plan Commit = plan_commit plan"
| "plan_family plan Read = plan_read plan"

fun spec_predicate :: "quorum_plan_spec \<Rightarrow> quorum_family \<Rightarrow> quorum_predicate" where
  "spec_predicate spec Election = spec_election spec"
| "spec_predicate spec Commit = spec_commit spec"
| "spec_predicate spec Read = spec_read spec"

definition family_satisfies :: "family_proof \<Rightarrow> voter_set \<Rightarrow> bool" where
  "family_satisfies family acks = list_ex (\<lambda>required. vs_contains acks required) (minimal_quorums family)"

definition plan_satisfies ::
  "compiled_quorum_plan \<Rightarrow> quorum_family \<Rightarrow> node_id fset \<Rightarrow> bool" where
  "plan_satisfies plan family acks =
     family_satisfies (plan_family plan family) (from_nodes (ordered_voters plan) acks)"

definition validate_membership ::
  "node_id fset \<Rightarrow> node_id fset \<Rightarrow> quorum_plan_error + unit" where
  "validate_membership voters learners =
     (if voters = {||} \<or> fcard voters > MAXIMUM_VOTERS \<or> fcard learners > MAXIMUM_LEARNERS
        \<or> voters |\<inter>| learners \<noteq> {||}
      then Inl InvalidPlan else Inr ())"

definition flat_plan ::
  "quorum_plan_id \<Rightarrow> nat \<Rightarrow> node_id fset \<Rightarrow> node_id fset \<Rightarrow> quorum_plan_error + quorum_plan_spec" where
  "flat_plan plan_id epoch voters learners =
     try_r (validate_membership voters learners) (\<lambda>_.
       let count = fcard voters;
           election_threshold = count div 2 + 1;
           children = map Voter (btree_iter voters)
       in try_r (ok_or InvalidPlan
              (case checked_sub count election_threshold of
                 None \<Rightarrow> None | Some v \<Rightarrow> checked_add u64_max v 1)) (\<lambda>write_threshold.
          try_r (ok_or InvalidPlan (try_narrow u8_max election_threshold)) (\<lambda>et.
          try_r (ok_or InvalidPlan (try_narrow u8_max write_threshold)) (\<lambda>wt.
          Inr \<lparr>spec_plan_id = plan_id, spec_format_version = 1, spec_membership_epoch = epoch,
               spec_voters = voters, spec_learners = learners, spec_eligible_leaders = voters,
               spec_election = AtLeast et children, spec_commit = AtLeast wt children,
               spec_read = AtLeast wt children\<rparr>))))"

section \<open>Canonical digest input (digest.rs)\<close>

definition digest_unsigned :: "nat \<Rightarrow> bytes" where
  "digest_unsigned v = be_bytes 8 v"

definition digest_length :: "nat \<Rightarrow> bytes" where
  "digest_length n = digest_unsigned (min n u64_max)"

definition digest_bytes :: "bytes \<Rightarrow> bytes" where
  "digest_bytes v = digest_length (length v) @ v"

definition digest_identifiers :: "node_id list \<Rightarrow> bytes" where
  "digest_identifiers vs = digest_length (length vs) @ concat (map node_bytes vs)"

definition digest_voter_set :: "voter_set \<Rightarrow> bytes" where
  "digest_voter_set a = be_bytes 2 (unat (voter_bits a))"

definition digest_family :: "family_proof \<Rightarrow> bytes" where
  "digest_family family =
     digest_length (length (minimal_quorums family)) @
     concat (map digest_voter_set (minimal_quorums family)) @
     digest_length (length (minimal_cut_sets family)) @
     concat (map digest_voter_set (minimal_cut_sets family))"

definition composite_bytes :: "byte \<Rightarrow> nat \<Rightarrow> bytes list \<Rightarrow> bytes" where
  "composite_bytes tag threshold encoded_children =
     (let encoded = sort encoded_children
      in [tag] @ be_bytes 8 threshold @ be_bytes 8 (min (length encoded) u64_max) @
         concat (map (\<lambda>c. be_bytes 8 (min (length c) u64_max) @ c) encoded))"

definition weighted_bytes :: "nat \<Rightarrow> weighted_voter list \<Rightarrow> bytes" where
  "weighted_bytes threshold weighted =
     (let ordered = sort_key wv_voter weighted
      in [3] @ be_bytes 4 threshold @ be_bytes 8 (min (length ordered) u64_max) @
         concat (map (\<lambda>w. node_bytes (wv_voter w) @ be_bytes 2 (wv_weight w)) ordered))"

fun predicate_bytes :: "quorum_predicate \<Rightarrow> bytes" where
  "predicate_bytes (Voter v) = [1] @ node_bytes v"
| "predicate_bytes (AtLeast threshold children) =
     composite_bytes 2 threshold (map predicate_bytes children)"
| "predicate_bytes (WeightedAtLeast threshold weighted) = weighted_bytes threshold weighted"
| "predicate_bytes (All children) =
     composite_bytes 4 (min (length children) u64_max) (map predicate_bytes children)"

definition plan_digest_input ::
  "quorum_plan_spec \<Rightarrow> node_id list \<Rightarrow> family_proof \<Rightarrow> family_proof \<Rightarrow> family_proof \<Rightarrow> bytes" where
  "plan_digest_input spec ordered election commit read =
     digest_bytes (ascii ''meshspan.consensus.quorum-plan.v1'') @
     digest_bytes (plan_id_bytes (spec_plan_id spec)) @
     digest_unsigned (spec_format_version spec) @
     digest_unsigned (spec_membership_epoch spec) @
     digest_identifiers ordered @
     digest_identifiers (btree_iter (spec_learners spec)) @
     digest_identifiers (btree_iter (spec_eligible_leaders spec)) @
     digest_bytes (predicate_bytes (spec_election spec)) @
     digest_bytes (predicate_bytes (spec_commit spec)) @
     digest_bytes (predicate_bytes (spec_read spec)) @
     digest_family election @ digest_family commit @ digest_family read"

section \<open>Compilation (compile.rs)\<close>

definition validate_header :: "quorum_plan_spec \<Rightarrow> quorum_plan_error + unit" where
  "validate_header spec =
     try_r (validate_membership (spec_voters spec) (spec_learners spec)) (\<lambda>_.
       if spec_format_version spec = 0 \<or> spec_membership_epoch spec = 0
          \<or> spec_eligible_leaders spec = {||}
          \<or> \<not> spec_eligible_leaders spec |\<subseteq>| spec_voters spec
       then Inl InvalidPlan else Inr ())"

definition reduce_minimal :: "voter_set list \<Rightarrow> voter_set list" where
  "reduce_minimal sets =
     filter (\<lambda>candidate. \<not> list_ex (\<lambda>other. other \<noteq> candidate \<and> vs_contains candidate other) sets) sets"

definition checked_shl_one :: "nat \<Rightarrow> 16 word option" where
  "checked_shl_one n = (if n < 16 then Some (push_bit n 1) else None)"

definition voter_sets_below :: "16 word \<Rightarrow> voter_set list" where
  "voter_sets_below set_count = map (\<lambda>k. VoterSet (word_of_nat k)) [1..<unat set_count]"

definition compile_family ::
  "quorum_predicate \<Rightarrow> (node_id, nat) fmap \<Rightarrow> nat \<Rightarrow> quorum_plan_error + family_proof" where
  "compile_family predicate bits voter_count =
     try_r (ok_or InvalidPlan (checked_shl_one voter_count)) (\<lambda>set_count.
       let satisfying = filter (\<lambda>a. evaluate predicate a bits) (voter_sets_below set_count)
       in if satisfying = [] then Inl NoQuorum
          else let quorums = reduce_minimal satisfying;
                   full = set_count - 1;
                   blocking = filter (\<lambda>removed. \<not> list_ex (\<lambda>quorum.
                     vs_contains (VoterSet (full AND NOT (voter_bits removed))) quorum) quorums)
                     (voter_sets_below set_count)
               in Inr \<lparr>minimal_quorums = quorums, minimal_cut_sets = reduce_minimal blocking\<rparr>)"

definition intersects_all :: "voter_set list \<Rightarrow> voter_set list \<Rightarrow> bool" where
  "intersects_all left right = list_all (\<lambda>a. list_all (\<lambda>b. vs_intersects a b) right) left"

definition prove_intersections ::
  "family_proof \<Rightarrow> family_proof \<Rightarrow> family_proof \<Rightarrow> quorum_plan_error + unit" where
  "prove_intersections election commit read =
     (if intersects_all (minimal_quorums election) (minimal_quorums election)
         \<and> intersects_all (minimal_quorums election) (minimal_quorums commit)
         \<and> intersects_all (minimal_quorums election) (minimal_quorums read)
      then Inr () else Inl UnsafeIntersection)"

definition voter_bit_map :: "node_id list \<Rightarrow> quorum_plan_error + (node_id, nat) fmap" where
  "voter_bit_map ordered =
     try_r (try_map (\<lambda>(index, v). try_r (ok_or InvalidPlan (try_narrow u8_max index)) (\<lambda>b. Inr (v, b)))
             (enumerate 0 ordered))
       (\<lambda>pairs. Inr (fmap_of_list pairs))"

definition compile_plan ::
  "(bytes \<Rightarrow> bytes) \<Rightarrow> quorum_plan_spec \<Rightarrow> quorum_plan_error + compiled_quorum_plan" where
  "compile_plan H spec =
     try_r (validate_header spec) (\<lambda>_.
     let ordered = btree_iter (spec_voters spec) in
     try_r (voter_bit_map ordered) (\<lambda>bits.
     try_r (validate_predicate (spec_election spec) (spec_voters spec)) (\<lambda>_.
     try_r (validate_predicate (spec_commit spec) (spec_voters spec)) (\<lambda>_.
     try_r (validate_predicate (spec_read spec) (spec_voters spec)) (\<lambda>_.
     try_r (compile_family (spec_election spec) bits (length ordered)) (\<lambda>election.
     try_r (compile_family (spec_commit spec) bits (length ordered)) (\<lambda>commit.
     try_r (compile_family (spec_read spec) bits (length ordered)) (\<lambda>read.
     try_r (prove_intersections election commit read) (\<lambda>_.
     Inr \<lparr>plan_spec = spec, ordered_voters = ordered, plan_election = election,
          plan_commit = commit, plan_read = read,
          plan_proof_digest = H (plan_digest_input spec ordered election commit read)\<rparr>)))))))))"

unbundle bit_operations_syntax

section \<open>Voter sets as subsets of the ordered voters\<close>

lemma voter_set_eqI: "(\<And>b. bit (voter_bits x) b = bit (voter_bits y) b) \<Longrightarrow> x = y"
  by (simp add: bit_eqI voter_set.expand)

lemma unat_less_power_iff:
  assumes "n \<le> 16"
  shows "unat (w :: 16 word) < 2 ^ n \<longleftrightarrow> (\<forall>b. bit w b \<longrightarrow> b < n)"
proof -
  have "unat w < 2 ^ n \<longleftrightarrow> take_bit n (unat w) = unat w"
    by (simp add: take_bit_nat_eq_self_iff)
  also have "\<dots> \<longleftrightarrow> take_bit n w = w"
    by (metis unsigned_take_bit_eq unsigned_word_eqI)
  also have "\<dots> \<longleftrightarrow> (\<forall>b. bit w b \<longrightarrow> b < n)"
    by (auto simp: bit_eq_iff bit_take_bit_iff dest: bit_16_less)
  finally show ?thesis .
qed

lemma set_voter_sets_below:
  assumes "n < 16"
  shows "x \<in> set (voter_sets_below (push_bit n 1)) \<longleftrightarrow>
    x \<noteq> VoterSet 0 \<and> (\<forall>b. bit (voter_bits x) b \<longrightarrow> b < n)"
proof -
  have "(2 :: nat) ^ n < 2 ^ 16"
    using assms by (intro power_strict_increasing) auto
  then have "unat (word_of_nat (2 ^ n) :: 16 word) = 2 ^ n"
    by (simp only: unat_of_nat) simp
  then have pow: "unat (2 ^ n :: 16 word) = 2 ^ n"
    by simp
  have "x \<in> set (voter_sets_below (push_bit n 1)) \<longleftrightarrow>
      0 < unat (voter_bits x) \<and> unat (voter_bits x) < 2 ^ n"
  proof
    assume "x \<in> set (voter_sets_below (push_bit n 1))"
    then obtain k where k: "x = VoterSet (word_of_nat k)" "1 \<le> k" "k < 2 ^ n"
      by (auto simp: voter_sets_below_def pow)
    moreover have "(2 :: nat) ^ n \<le> 2 ^ 16"
      using assms by (intro power_increasing) auto
    ultimately have "unat (word_of_nat k :: 16 word) = k"
      by (simp add: unat_of_nat)
    with k show "0 < unat (voter_bits x) \<and> unat (voter_bits x) < 2 ^ n"
      by simp
  next
    assume "0 < unat (voter_bits x) \<and> unat (voter_bits x) < 2 ^ n"
    then show "x \<in> set (voter_sets_below (push_bit n 1))"
      by (auto simp: voter_sets_below_def pow image_iff intro!: bexI[of _ "unat (voter_bits x)"]
          simp del: unat_gt_0)
  qed
  moreover have "0 < unat (voter_bits x) \<longleftrightarrow> x \<noteq> VoterSet 0"
    by (cases x) (simp add: unat_gt_0)
  ultimately show ?thesis
    using unat_less_power_iff[of n "voter_bits x"] assms by simp
qed

lemma vs_contains_refl [simp]: "vs_contains x x"
  by (simp add: vs_contains_iff)

lemma vs_contains_trans: "vs_contains x y \<Longrightarrow> vs_contains y z \<Longrightarrow> vs_contains x z"
  by (simp add: vs_contains_iff)

lemma vs_contains_antisym: "vs_contains x y \<Longrightarrow> vs_contains y x \<Longrightarrow> x = y"
  by (rule voter_set_eqI) (auto simp: vs_contains_iff)

definition vs_card :: "voter_set \<Rightarrow> nat" where
  "vs_card x = card {b. bit (voter_bits x) b}"

lemma vs_card_less: "vs_contains x y \<Longrightarrow> x \<noteq> y \<Longrightarrow> vs_card y < vs_card x"
proof -
  assume xy: "vs_contains x y" "x \<noteq> y"
  have "finite {b. bit (voter_bits x) b}"
    by (rule finite_subset[of _ "{..<16}"]) (auto dest: bit_16_less)
  moreover have "{b. bit (voter_bits y) b} \<subset> {b. bit (voter_bits x) b}"
    using xy vs_contains_antisym[of x y] by (auto simp: vs_contains_iff)
  ultimately show ?thesis
    by (simp add: vs_card_def psubset_card_mono)
qed

lemma reduce_minimal_exists:
  "x \<in> set xs \<Longrightarrow> \<exists>m \<in> set (reduce_minimal xs). vs_contains x m"
proof (induction "vs_card x" arbitrary: x rule: less_induct)
  case less
  show ?case
  proof (cases "x \<in> set (reduce_minimal xs)")
    case True
    then show ?thesis by (intro bexI[of _ x]) auto
  next
    case False
    with less.prems obtain y where y: "y \<in> set xs" "y \<noteq> x" "vs_contains x y"
      by (auto simp: reduce_minimal_def list_ex_iff)
    then have "vs_card y < vs_card x"
      using vs_card_less by auto
    from less.hyps[OF this y(1)] show ?thesis
      using y(3) vs_contains_trans by blast
  qed
qed

lemma reduce_minimal_subset: "set (reduce_minimal xs) \<subseteq> set xs"
  by (auto simp: reduce_minimal_def)

lemma reduce_minimal_minimal:
  "m \<in> set (reduce_minimal xs) \<Longrightarrow> x \<in> set xs \<Longrightarrow> vs_contains m x \<Longrightarrow> x = m"
  by (auto simp: reduce_minimal_def list_ex_iff)

section \<open>A compiled family decides its predicate\<close>

lemma try_map_Inr: "(\<And>x. x \<in> set xs \<Longrightarrow> f x = Inr (g x)) \<Longrightarrow> try_map f xs = Inr (map g xs)"
  by (induction xs) auto

lemma voter_bit_map_ok:
  assumes "length ordered \<le> 16"
  shows "voter_bit_map ordered = Inr (fmap_of_list (map (\<lambda>(i, v). (v, i)) (enumerate 0 ordered)))"
proof -
  have "try_map (\<lambda>(index, v). try_r (ok_or InvalidPlan (try_narrow u8_max index)) (\<lambda>b. Inr (v, b)))
      (enumerate 0 ordered) = Inr (map (\<lambda>(i, v). (v, i)) (enumerate 0 ordered))"
    using assms
    by (intro try_map_Inr) (auto simp: in_set_enumerate_eq try_narrow_def u8_max_def)
  then show ?thesis by (simp add: voter_bit_map_def)
qed

lemma voter_bit_map_lookup:
  assumes "length ordered \<le> 16" "distinct ordered" "voter_bit_map ordered = Inr bits"
  shows "fmlookup bits v = Some j \<longleftrightarrow> j < length ordered \<and> ordered ! j = v"
proof -
  have bits: "bits = fmap_of_list (map (\<lambda>(i, v). (v, i)) (enumerate 0 ordered))"
    using assms voter_bit_map_ok by simp
  have "map fst (map (\<lambda>(i, v). (v, i)) (enumerate 0 ordered)) = ordered"
    by (simp add: comp_def split_beta)
  then have "distinct (map fst (map (\<lambda>(i, v). (v, i)) (enumerate 0 ordered)))"
    using assms(2) by simp
  then have "fmlookup bits v = Some j \<longleftrightarrow> (v, j) \<in> set (map (\<lambda>(i, v). (v, i)) (enumerate 0 ordered))"
    unfolding bits fmlookup_of_list by (rule map_of_eq_Some_iff)
  also have "\<dots> \<longleftrightarrow> j < length ordered \<and> ordered ! j = v"
    by (auto simp: image_iff in_set_enumerate_eq split_beta
        intro!: bexI[of _ "(j, ordered ! j)"])
  finally show ?thesis .
qed

lemma bit_acknowledged_iff:
  assumes "length ordered \<le> 16" "distinct ordered" "voter_bit_map ordered = Inr bits"
  shows "{v. bit_acknowledged a bits v} = fset (to_nodes a ordered)"
proof -
  have "bit_acknowledged a bits v \<longleftrightarrow> v |\<in>| to_nodes a ordered" for v
  proof -
    have "bit_acknowledged a bits v \<longleftrightarrow> (\<exists>j. fmlookup bits v = Some j \<and> bit (voter_bits a) j)"
      by (auto simp: bit_acknowledged_def contains_bit_iff split: option.splits)
    also have "\<dots> \<longleftrightarrow> v |\<in>| to_nodes a ordered"
      using voter_bit_map_lookup[OF assms] in_to_nodes[OF assms(1)] by auto
    finally show ?thesis .
  qed
  then show ?thesis by auto
qed

lemma to_nodes_from_nodes:
  "length ordered \<le> 16 \<Longrightarrow> fset (to_nodes (from_nodes ordered S) ordered) = fset S \<inter> set ordered"
  by (auto simp: in_to_nodes bit_from_nodes in_set_conv_nth)

lemma vs_contains_to_nodes:
  assumes "length ordered \<le> 16" "distinct ordered" "\<forall>b. bit (voter_bits y) b \<longrightarrow> b < length ordered"
  shows "vs_contains x y \<longleftrightarrow> fset (to_nodes y ordered) \<subseteq> fset (to_nodes x ordered)"
proof
  assume "vs_contains x y"
  then show "fset (to_nodes y ordered) \<subseteq> fset (to_nodes x ordered)"
    using assms by (auto simp: in_to_nodes vs_contains_iff) blast
next
  assume sub: "fset (to_nodes y ordered) \<subseteq> fset (to_nodes x ordered)"
  show "vs_contains x y"
    unfolding vs_contains_iff
  proof (intro allI impI)
    fix b assume b: "bit (voter_bits y) b"
    with assms have "ordered ! b |\<in>| to_nodes y ordered"
      by (auto simp: in_to_nodes)
    with sub have "ordered ! b |\<in>| to_nodes x ordered" by auto
    with assms b show "bit (voter_bits x) b"
      by (auto simp: in_to_nodes nth_eq_iff_index_eq)
  qed
qed

unbundle bit_operations_syntax

lemma to_nodes_mono:
  "length ordered \<le> 16 \<Longrightarrow> vs_contains x y \<Longrightarrow> fset (to_nodes y ordered) \<subseteq> fset (to_nodes x ordered)"
  by (auto simp: in_to_nodes vs_contains_iff) blast

text \<open>Facts about one compiled family under the canonical voter order.\<close>

lemma compile_family_Inr:
  assumes "compile_family p bits n = Inr family" and n: "n < 16"
  shows "minimal_quorums family =
           reduce_minimal (filter (\<lambda>a. evaluate p a bits) (voter_sets_below (push_bit n 1)))"
    and "minimal_cut_sets family =
           reduce_minimal (filter (\<lambda>removed. \<not> list_ex (\<lambda>quorum.
             vs_contains (VoterSet ((push_bit n 1 - 1) AND NOT (voter_bits removed))) quorum)
               (minimal_quorums family)) (voter_sets_below (push_bit n 1)))"
    and "\<exists>a \<in> set (voter_sets_below (push_bit n 1)). evaluate p a bits"
  using assms
  by (auto simp: compile_family_def checked_shl_one_def Let_def filter_empty_conv split: if_splits)

lemma compile_family_ok:
  assumes "a \<in> set (voter_sets_below (push_bit n 1))" "evaluate p a bits" "n < 16"
  shows "\<exists>family. compile_family p bits n = Inr family"
  using assms by (auto simp: compile_family_def checked_shl_one_def Let_def filter_empty_conv)

text \<open>The hypotheses every compiled family is built under.\<close>

definition canonical_order :: "node_id list \<Rightarrow> (node_id, nat) fmap \<Rightarrow> bool" where
  "canonical_order ordered bits \<longleftrightarrow>
     length ordered < 16 \<and> distinct ordered \<and> voter_bit_map ordered = Inr bits"

lemma evaluate_to_nodes:
  assumes "canonical_order ordered bits" "well_formed p"
  shows "evaluate p a bits = holds p (fset (to_nodes a ordered))"
  using assms bit_acknowledged_iff[of ordered bits a]
  by (simp add: canonical_order_def evaluate_holds)

lemma from_nodes_below:
  assumes "length ordered < 16" "fset S \<inter> set ordered \<noteq> {}"
  shows "from_nodes ordered S \<in> set (voter_sets_below (push_bit (length ordered) 1))"
proof -
  obtain j where "j < length ordered" "ordered ! j |\<in>| S"
    using assms(2) by (auto simp: in_set_conv_nth)
  then have "bit (voter_bits (from_nodes ordered S)) j"
    using assms(1) by (simp add: bit_from_nodes)
  then have "from_nodes ordered S \<noteq> VoterSet 0"
    by auto
  then show ?thesis
    using assms(1) by (simp only: set_voter_sets_below) (simp add: bit_from_nodes)
qed

lemma family_satisfies_holds:
  assumes c: "compile_family p bits (length ordered) = Inr family"
    and canon: "canonical_order ordered bits" and wf: "well_formed p"
    and refs: "references p \<subseteq> set ordered"
  shows "family_satisfies family (from_nodes ordered S) \<longleftrightarrow> holds p (fset S)"
proof -
  have len: "length ordered < 16" "distinct ordered"
    using canon by (auto simp: canonical_order_def)
  let ?below = "voter_sets_below (push_bit (length ordered) 1)"
  let ?sat = "filter (\<lambda>a. evaluate p a bits) ?below"
  have quorums: "minimal_quorums family = reduce_minimal ?sat"
    using compile_family_Inr[OF c len(1)] by simp
  have S: "evaluate p (from_nodes ordered S) bits = holds p (fset S)"
    using evaluate_to_nodes[OF canon wf] len refs
    by (simp add: to_nodes_from_nodes holds_restrict)
  show ?thesis
  proof
    assume "family_satisfies family (from_nodes ordered S)"
    then obtain m where m: "m \<in> set ?sat" "vs_contains (from_nodes ordered S) m"
      using reduce_minimal_subset[of ?sat] by (auto simp: family_satisfies_def quorums list_ex_iff)
    then have "fset (to_nodes m ordered) \<subseteq> fset (to_nodes (from_nodes ordered S) ordered)"
      using len to_nodes_mono by auto
    moreover have "holds p (fset (to_nodes m ordered))"
      using m evaluate_to_nodes[OF canon wf] by simp
    ultimately show "holds p (fset S)"
      using S evaluate_to_nodes[OF canon wf] holds_mono by blast
  next
    assume h: "holds p (fset S)"
    have "fset S \<inter> set ordered \<noteq> {}"
      using h refs not_holds_empty[OF wf] holds_restrict[of p "set ordered" "fset S"] by auto
    then have "from_nodes ordered S \<in> set ?sat"
      using from_nodes_below len h S by simp
    from reduce_minimal_exists[OF this] show "family_satisfies family (from_nodes ordered S)"
      by (auto simp: family_satisfies_def quorums list_ex_iff)
  qed
qed

lemma minimal_quorum_holds:
  assumes c: "compile_family p bits (length ordered) = Inr family"
    and canon: "canonical_order ordered bits" and wf: "well_formed p"
    and q: "q \<in> set (minimal_quorums family)"
  shows "holds p (fset (to_nodes q ordered))" and "\<forall>b. bit (voter_bits q) b \<longrightarrow> b < length ordered"
proof -
  have len: "length ordered < 16"
    using canon by (auto simp: canonical_order_def)
  have "q \<in> set (filter (\<lambda>a. evaluate p a bits) (voter_sets_below (push_bit (length ordered) 1)))"
    using q compile_family_Inr(1)[OF c len] reduce_minimal_subset by fastforce
  then show "holds p (fset (to_nodes q ordered))" "\<forall>b. bit (voter_bits q) b \<longrightarrow> b < length ordered"
    using evaluate_to_nodes[OF canon wf] set_voter_sets_below[OF len] by auto
qed

lemma minimal_quorum_below:
  assumes c: "compile_family p bits (length ordered) = Inr family"
    and canon: "canonical_order ordered bits" and wf: "well_formed p"
    and refs: "references p \<subseteq> set ordered" and h: "holds p (fset S)"
  shows "\<exists>q \<in> set (minimal_quorums family). fset (to_nodes q ordered) \<subseteq> fset S"
proof -
  have len: "length ordered \<le> 16"
    using canon by (auto simp: canonical_order_def)
  obtain q where q: "q \<in> set (minimal_quorums family)" "vs_contains (from_nodes ordered S) q"
    using h family_satisfies_holds[OF c canon wf refs]
    by (auto simp: family_satisfies_def list_ex_iff)
  then have "fset (to_nodes q ordered) \<subseteq> fset S"
    using len by (auto simp: in_to_nodes vs_contains_iff bit_from_nodes)
  with q show ?thesis by auto
qed

section \<open>The blocking removals\<close>

lemma available_to_nodes:
  assumes "length ordered < 16" "distinct ordered"
  shows "fset (to_nodes (VoterSet ((push_bit (length ordered) 1 - 1) AND NOT (voter_bits removed))) ordered) =
    set ordered - fset (to_nodes removed ordered)"
proof -
  have m: "(push_bit (length ordered) 1 - 1 :: 16 word) = mask (length ordered)"
    by (simp add: mask_eq_decr_exp)
  have "bit ((push_bit (length ordered) 1 - 1 :: 16 word) AND NOT (voter_bits removed)) j \<longleftrightarrow>
      \<not> bit (voter_bits removed) j" if "j < length ordered" for j
    unfolding m using that assms by (simp add: bit_simps)
  then show ?thesis
    using assms by (auto simp: in_to_nodes in_set_conv_nth nth_eq_iff_index_eq) blast
qed

lemma family_cut_sets:
  assumes c: "compile_family p bits (length ordered) = Inr family"
    and canon: "canonical_order ordered bits" and wf: "well_formed p"
    and refs: "references p \<subseteq> set ordered"
  shows "(\<exists>cut \<in> set (minimal_cut_sets family). fset (to_nodes cut ordered) \<subseteq> fset R) \<longleftrightarrow>
    \<not> holds p (set ordered - fset R)"
proof -
  have len: "length ordered < 16" "distinct ordered"
    using canon by (auto simp: canonical_order_def)
  let ?below = "voter_sets_below (push_bit (length ordered) 1)"
  let ?avail = "\<lambda>removed. VoterSet ((push_bit (length ordered) 1 - 1) AND NOT (voter_bits removed))"
  let ?block = "filter (\<lambda>removed. \<not> list_ex (\<lambda>q. vs_contains (?avail removed) q) (minimal_quorums family)) ?below"
  have cuts: "minimal_cut_sets family = reduce_minimal ?block"
    using compile_family_Inr(2)[OF c len(1)] by simp
  have block: "removed \<in> set ?block \<longleftrightarrow>
      removed \<in> set ?below \<and> \<not> holds p (set ordered - fset (to_nodes removed ordered))" for removed
  proof -
    have "list_ex (\<lambda>q. vs_contains (?avail removed) q) (minimal_quorums family) \<longleftrightarrow>
        holds p (set ordered - fset (to_nodes removed ordered))"
    proof
      assume "list_ex (\<lambda>q. vs_contains (?avail removed) q) (minimal_quorums family)"
      then obtain q where q: "q \<in> set (minimal_quorums family)" "vs_contains (?avail removed) q"
        by (auto simp: list_ex_iff)
      then have "fset (to_nodes q ordered) \<subseteq> set ordered - fset (to_nodes removed ordered)"
        using vs_contains_to_nodes[of ordered q "?avail removed"] minimal_quorum_holds(2)[OF c canon wf]
          available_to_nodes[OF len] len by simp
      then show "holds p (set ordered - fset (to_nodes removed ordered))"
        using minimal_quorum_holds(1)[OF c canon wf q(1)] holds_mono by blast
    next
      assume h: "holds p (set ordered - fset (to_nodes removed ordered))"
      let ?A = "fset_of_list ordered |-| to_nodes removed ordered"
      have A: "fset ?A = set ordered - fset (to_nodes removed ordered)"
        by (simp add: fset_of_list.rep_eq)
      obtain q where q: "q \<in> set (minimal_quorums family)" "fset (to_nodes q ordered) \<subseteq> fset ?A"
        using minimal_quorum_below[OF c canon wf refs, of ?A] h A by auto
      then have "vs_contains (?avail removed) q"
        using vs_contains_to_nodes[of ordered q "?avail removed"] minimal_quorum_holds(2)[OF c canon wf]
          available_to_nodes[OF len] len A by simp
      with q show "list_ex (\<lambda>q. vs_contains (?avail removed) q) (minimal_quorums family)"
        by (auto simp: list_ex_iff)
    qed
    then show ?thesis by auto
  qed
  show ?thesis
  proof
    assume "\<exists>cut \<in> set (minimal_cut_sets family). fset (to_nodes cut ordered) \<subseteq> fset R"
    then obtain cut where cut: "cut \<in> set ?block" "fset (to_nodes cut ordered) \<subseteq> fset R"
      using cuts reduce_minimal_subset by fastforce
    then have "\<not> holds p (set ordered - fset (to_nodes cut ordered))"
      using block by blast
    moreover have "set ordered - fset R \<subseteq> set ordered - fset (to_nodes cut ordered)"
      using cut(2) by auto
    ultimately show "\<not> holds p (set ordered - fset R)"
      using holds_mono by blast
  next
    assume nh: "\<not> holds p (set ordered - fset R)"
    have "fset R \<inter> set ordered \<noteq> {}"
    proof
      assume "fset R \<inter> set ordered = {}"
      then have "set ordered - fset R = set ordered" by auto
      with nh show False
        using holds_references[OF wf refs] by simp
    qed
    moreover have "set ordered - fset (to_nodes (from_nodes ordered R) ordered) = set ordered - fset R"
      using len by (auto simp: to_nodes_from_nodes)
    ultimately have "from_nodes ordered R \<in> set ?block"
      using block from_nodes_below[OF len(1)] nh by simp
    from reduce_minimal_exists[OF this] obtain cut where
      cut: "cut \<in> set (minimal_cut_sets family)" "vs_contains (from_nodes ordered R) cut"
      using cuts by auto
    then have "fset (to_nodes cut ordered) \<subseteq> fset R"
      using len by (auto simp: in_to_nodes vs_contains_iff bit_from_nodes)
    with cut show "\<exists>cut \<in> set (minimal_cut_sets family). fset (to_nodes cut ordered) \<subseteq> fset R"
      by auto
  qed
qed

section \<open>Compiled plans\<close>

text \<open>A plan value is valid when it is what compilation returns for its own source.\<close>

definition valid_plan :: "(bytes \<Rightarrow> bytes) \<Rightarrow> compiled_quorum_plan \<Rightarrow> bool" where
  "valid_plan H plan \<longleftrightarrow> compile_plan H (plan_spec plan) = Inr plan"

text \<open>What validation of one predicate of a plan establishes.\<close>

definition predicate_ok :: "node_id fset \<Rightarrow> quorum_predicate \<Rightarrow> bool" where
  "predicate_ok voters p \<longleftrightarrow>
     well_formed p \<and> references p \<subseteq> fset voters \<and>
     node_total p \<le> MAXIMUM_PREDICATE_NODES \<and> tree_depth p \<le> MAXIMUM_PREDICATE_DEPTH"

definition header_ok :: "quorum_plan_spec \<Rightarrow> bool" where
  "header_ok spec \<longleftrightarrow>
     spec_voters spec \<noteq> {||} \<and> fcard (spec_voters spec) \<le> MAXIMUM_VOTERS \<and>
     fcard (spec_learners spec) \<le> MAXIMUM_LEARNERS \<and>
     spec_voters spec |\<inter>| spec_learners spec = {||} \<and>
     spec_format_version spec \<noteq> 0 \<and> spec_membership_epoch spec \<noteq> 0 \<and>
     spec_eligible_leaders spec \<noteq> {||} \<and> spec_eligible_leaders spec |\<subseteq>| spec_voters spec"

text \<open>The semantic intersection the safety argument needs, over all sets of acknowledging nodes.\<close>

definition families_intersect :: "quorum_plan_spec \<Rightarrow> bool" where
  "families_intersect spec \<longleftrightarrow>
     (\<forall>f A B. holds (spec_election spec) A \<and> holds (spec_predicate spec f) B \<longrightarrow> A \<inter> B \<noteq> {})"

lemma validate_header_Inr: "validate_header spec = Inr u \<longleftrightarrow> header_ok spec"
  by (auto simp: validate_header_def validate_membership_def header_ok_def result_simps)

lemma validate_predicate_Inr:
  "(\<exists>refs. validate_predicate p voters = Inr refs) \<longleftrightarrow> predicate_ok voters p"
proof
  assume "\<exists>refs. validate_predicate p voters = Inr refs"
  then obtain refs n where "validate_node p voters 1 0 = Inr (refs, n)"
    by (auto simp: validate_predicate_def result_simps)
  from validate_Inr(1)[OF this] show "predicate_ok voters p"
    by (simp add: validation_facts_def predicate_ok_def)
next
  assume "predicate_ok voters p"
  then have "\<exists>refs. validate_node p voters 1 0 = Inr (refs, 0 + node_total p)"
    by (intro validate_complete(1)) (auto simp: predicate_ok_def)
  then show "\<exists>refs. validate_predicate p voters = Inr refs"
    by (auto simp: validate_predicate_def)
qed

lemma header_canonical:
  assumes "header_ok spec"
  shows "\<exists>bits. canonical_order (btree_iter (spec_voters spec)) bits"
    and "length (btree_iter (spec_voters spec)) < 16"
  using assms voter_bit_map_ok[of "btree_iter (spec_voters spec)"]
  by (auto simp: canonical_order_def header_ok_def MAXIMUM_VOTERS_def)

lemma compile_plan_Inr:
  assumes "compile_plan H spec = Inr plan"
  obtains bits where
    "header_ok spec" "canonical_order (btree_iter (spec_voters spec)) bits"
    "\<And>f. predicate_ok (spec_voters spec) (spec_predicate spec f)"
    "\<And>f. compile_family (spec_predicate spec f) bits (length (btree_iter (spec_voters spec))) =
           Inr (plan_family plan f)"
    "prove_intersections (plan_election plan) (plan_commit plan) (plan_read plan) = Inr ()"
    "plan_spec plan = spec" "ordered_voters plan = btree_iter (spec_voters spec)"
    "plan_proof_digest plan = H (plan_digest_input spec (btree_iter (spec_voters spec))
       (plan_election plan) (plan_commit plan) (plan_read plan))"
proof -
  from assms obtain bits where *:
    "header_ok spec" "voter_bit_map (btree_iter (spec_voters spec)) = Inr bits"
    "predicate_ok (spec_voters spec) (spec_election spec)"
    "predicate_ok (spec_voters spec) (spec_commit spec)"
    "predicate_ok (spec_voters spec) (spec_read spec)"
    "compile_family (spec_election spec) bits (length (btree_iter (spec_voters spec))) = Inr (plan_election plan)"
    "compile_family (spec_commit spec) bits (length (btree_iter (spec_voters spec))) = Inr (plan_commit plan)"
    "compile_family (spec_read spec) bits (length (btree_iter (spec_voters spec))) = Inr (plan_read plan)"
    "prove_intersections (plan_election plan) (plan_commit plan) (plan_read plan) = Inr ()"
    "plan_spec plan = spec" "ordered_voters plan = btree_iter (spec_voters spec)"
    "plan_proof_digest plan = H (plan_digest_input spec (btree_iter (spec_voters spec))
       (plan_election plan) (plan_commit plan) (plan_read plan))"
    unfolding compile_plan_def Let_def
    by (clarsimp simp: result_simps validate_header_Inr) (metis validate_predicate_Inr)
  have pf: "P Election \<Longrightarrow> P Commit \<Longrightarrow> P Read \<Longrightarrow> P f" for P f
    by (cases f) auto
  show thesis
  proof (rule that[of bits])
    show "canonical_order (btree_iter (spec_voters spec)) bits"
      using * header_canonical(2)[of spec] by (auto simp: canonical_order_def)
    show "predicate_ok (spec_voters spec) (spec_predicate spec f)" for f
      by (rule pf) (use * in auto)
    show "compile_family (spec_predicate spec f) bits (length (btree_iter (spec_voters spec))) =
           Inr (plan_family plan f)" for f
      by (rule pf) (use * in auto)
  qed (use * in auto)
qed

lemma compile_plan_valid: "compile_plan H spec = Inr plan \<Longrightarrow> valid_plan H plan \<and> plan_spec plan = spec"
  using compile_plan_Inr[of H spec plan] by (auto simp: valid_plan_def)

lemma compiled_satisfies_holds:
  assumes "compile_plan H spec = Inr plan"
  shows "plan_satisfies plan f S \<longleftrightarrow> holds (spec_predicate spec f) (fset S)"
proof -
  obtain bits where *: "canonical_order (btree_iter (spec_voters spec)) bits"
    "\<And>f. predicate_ok (spec_voters spec) (spec_predicate spec f)"
    "\<And>f. compile_family (spec_predicate spec f) bits (length (btree_iter (spec_voters spec))) =
           Inr (plan_family plan f)" "ordered_voters plan = btree_iter (spec_voters spec)"
    using compile_plan_Inr[OF assms] by metis
  show ?thesis
    unfolding plan_satisfies_def *(4)
    by (rule family_satisfies_holds[OF *(3) *(1)]) (use *(2) in \<open>auto simp: predicate_ok_def\<close>)
qed

lemma intersects_all_families:
  assumes canon: "canonical_order ordered bits"
    and fe: "compile_family pe bits (length ordered) = Inr fe" "well_formed pe" "references pe \<subseteq> set ordered"
    and ff: "compile_family pf bits (length ordered) = Inr ff" "well_formed pf" "references pf \<subseteq> set ordered"
  shows "intersects_all (minimal_quorums fe) (minimal_quorums ff) \<longleftrightarrow>
    (\<forall>A B. holds pe A \<and> holds pf B \<longrightarrow> A \<inter> B \<noteq> {})"
proof
  have len: "length ordered \<le> 16"
    using canon by (auto simp: canonical_order_def)
  {
    assume all: "intersects_all (minimal_quorums fe) (minimal_quorums ff)"
    show "\<forall>A B. holds pe A \<and> holds pf B \<longrightarrow> A \<inter> B \<noteq> {}"
    proof (intro allI impI)
      fix A B
      assume AB: "holds pe A \<and> holds pf B"
      let ?A = "ffilter (\<lambda>v. v \<in> A) (fset_of_list ordered)"
      let ?B = "ffilter (\<lambda>v. v \<in> B) (fset_of_list ordered)"
      have eq: "fset ?A = A \<inter> set ordered" "fset ?B = B \<inter> set ordered"
        by (auto simp: fset_of_list.rep_eq)
      obtain a b where ab: "a \<in> set (minimal_quorums fe)" "fset (to_nodes a ordered) \<subseteq> fset ?A"
        "b \<in> set (minimal_quorums ff)" "fset (to_nodes b ordered) \<subseteq> fset ?B"
        using minimal_quorum_below[OF fe(1) canon fe(2,3), of ?A]
          minimal_quorum_below[OF ff(1) canon ff(2,3), of ?B] AB eq holds_restrict fe(3) ff(3) by metis
      then have "vs_intersects a b"
        using all by (auto simp: intersects_all_def list_all_iff)
      then obtain i where "bit (voter_bits a) i" "bit (voter_bits b) i"
        by (auto simp: vs_intersects_iff)
      moreover have "i < length ordered"
        using minimal_quorum_holds(2)[OF fe(1) canon fe(2) ab(1)] calculation by auto
      ultimately have "ordered ! i |\<in>| to_nodes a ordered" "ordered ! i |\<in>| to_nodes b ordered"
        using len by (auto simp: in_to_nodes)
      with ab eq show "A \<inter> B \<noteq> {}" by auto
    qed
  }
  {
    assume all: "\<forall>A B. holds pe A \<and> holds pf B \<longrightarrow> A \<inter> B \<noteq> {}"
    show "intersects_all (minimal_quorums fe) (minimal_quorums ff)"
      unfolding intersects_all_def list_all_iff
    proof (intro ballI)
      fix a b assume ab: "a \<in> set (minimal_quorums fe)" "b \<in> set (minimal_quorums ff)"
      then have "fset (to_nodes a ordered) \<inter> fset (to_nodes b ordered) \<noteq> {}"
        using all minimal_quorum_holds(1)[OF fe(1) canon fe(2)]
          minimal_quorum_holds(1)[OF ff(1) canon ff(2)] by blast
      then show "vs_intersects a b"
        using len canon
        by (auto simp: vs_intersects_iff in_to_nodes canonical_order_def nth_eq_iff_index_eq)
    qed
  }
qed

lemma prove_intersections_iff:
  assumes canon: "canonical_order (btree_iter (spec_voters spec)) bits"
    and ok: "\<And>f. predicate_ok (spec_voters spec) (spec_predicate spec f)"
    and fam: "\<And>f. compile_family (spec_predicate spec f) bits (length (btree_iter (spec_voters spec))) =
           Inr (fam f)"
  shows "prove_intersections (fam Election) (fam Commit) (fam Read) = Inr u \<longleftrightarrow> families_intersect spec"
proof -
  have "intersects_all (minimal_quorums (fam Election)) (minimal_quorums (fam f)) \<longleftrightarrow>
      (\<forall>A B. holds (spec_election spec) A \<and> holds (spec_predicate spec f) B \<longrightarrow> A \<inter> B \<noteq> {})" for f
    using intersects_all_families[OF canon fam[of Election] _ _ fam[of f]] ok[of Election] ok[of f]
    by (simp add: predicate_ok_def)
  note all = this[of Election] this[of Commit] this[of Read]
  have "(\<forall>f. P f) \<longleftrightarrow> P Election \<and> P Commit \<and> P Read" for P :: "quorum_family \<Rightarrow> bool"
    by (metis quorum_family.exhaust)
  then show ?thesis
    unfolding prove_intersections_def families_intersect_def using all by auto
qed

lemma compiled_families_intersect:
  assumes "compile_plan H spec = Inr plan"
  shows "families_intersect spec"
proof -
  obtain bits where *: "canonical_order (btree_iter (spec_voters spec)) bits"
    "\<And>f. predicate_ok (spec_voters spec) (spec_predicate spec f)"
    "\<And>f. compile_family (spec_predicate spec f) bits (length (btree_iter (spec_voters spec))) =
           Inr (plan_family plan f)"
    "prove_intersections (plan_election plan) (plan_commit plan) (plan_read plan) = Inr ()"
    using compile_plan_Inr[OF assms] by metis
  show ?thesis
    using prove_intersections_iff[OF *(1-3)] *(4) by simp
qed

lemma compile_plan_complete:
  assumes hdr: "header_ok spec" and ok: "\<And>f. predicate_ok (spec_voters spec) (spec_predicate spec f)"
    and int: "families_intersect spec"
  shows "\<exists>plan. compile_plan H spec = Inr plan"
proof -
  let ?o = "btree_iter (spec_voters spec)"
  obtain bits where canon: "canonical_order ?o bits"
    using header_canonical[OF hdr] by blast
  have len: "length ?o < 16" and bits: "voter_bit_map ?o = Inr bits"
    using canon by (auto simp: canonical_order_def)
  have nonempty: "fset (spec_voters spec) \<noteq> {}"
    using hdr by (metis bot_fset.rep_eq fset_inject header_ok_def)
  have "\<exists>fam. compile_family (spec_predicate spec f) bits (length ?o) = Inr fam" for f
  proof (rule compile_family_ok[OF _ _ len])
    have "holds (spec_predicate spec f) (fset (spec_voters spec))"
      using ok[of f] holds_references by (auto simp: predicate_ok_def)
    then show "evaluate (spec_predicate spec f) (from_nodes ?o (spec_voters spec)) bits"
      using evaluate_to_nodes[OF canon] ok[of f] len
      by (simp add: predicate_ok_def to_nodes_from_nodes)
    show "from_nodes ?o (spec_voters spec) \<in> set (voter_sets_below (push_bit (length ?o) 1))"
      by (rule from_nodes_below[OF len]) (use nonempty in simp)
  qed
  then obtain fam where fam: "\<And>f. compile_family (spec_predicate spec f) bits (length ?o) = Inr (fam f)"
    by metis
  have "prove_intersections (fam Election) (fam Commit) (fam Read) = Inr ()"
    using prove_intersections_iff[OF canon ok fam] int by simp
  moreover have "\<forall>f. \<exists>r. validate_predicate (spec_predicate spec f) (spec_voters spec) = Inr r"
    using ok validate_predicate_Inr by blast
  then obtain r where r: "\<And>f. validate_predicate (spec_predicate spec f) (spec_voters spec) = Inr (r f)"
    by metis
  ultimately show ?thesis
    using hdr bits fam[of Election] fam[of Commit] fam[of Read] r[of Election] r[of Commit] r[of Read]
      validate_header_Inr[of spec "()"]
    by (simp add: compile_plan_def Let_def)
qed

section \<open>The contract of a quorum provider\<close>

text \<open>
  What the replicated log relies on: upward-closed families over the provider's voters, in which every
  election quorum meets every election, commit and read quorum. Compiled stable plans provide it here;
  joint plans provide it in the theory of transitions.
\<close>

locale quorum_provider =
  fixes valid :: "'p \<Rightarrow> bool"
    and sat :: "'p \<Rightarrow> quorum_family \<Rightarrow> node_id fset \<Rightarrow> bool"
    and electors :: "'p \<Rightarrow> node_id fset"
  assumes sat_mono: "valid p \<Longrightarrow> sat p f A \<Longrightarrow> A |\<subseteq>| B \<Longrightarrow> sat p f B"
    and sat_electors: "valid p \<Longrightarrow> sat p f (A |\<inter>| electors p) = sat p f A"
    and election_meets: "valid p \<Longrightarrow> sat p Election A \<Longrightarrow> sat p f B \<Longrightarrow> A |\<inter>| B \<noteq> {||}"
    and full_quorum: "valid p \<Longrightarrow> sat p f (electors p)"
begin

lemma shared_elector:
  assumes "valid p" "sat p Election A" "sat p f B"
  shows "\<exists>v. v |\<in>| A \<and> v |\<in>| B \<and> v |\<in>| electors p"
proof -
  have "(A |\<inter>| electors p) |\<inter>| (B |\<inter>| electors p) \<noteq> {||}"
    by (rule election_meets[OF assms(1)]) (use assms sat_electors in auto)
  then obtain v where "v |\<in>| (A |\<inter>| electors p) |\<inter>| (B |\<inter>| electors p)"
    by (meson all_not_fin_conv)
  then show ?thesis by auto
qed

lemma sat_cong:
  assumes "valid p" "A |\<inter>| electors p = B |\<inter>| electors p"
  shows "sat p f A = sat p f B"
  using sat_electors[OF assms(1), of f A] sat_electors[OF assms(1), of f B] assms(2) by simp

lemma quorum_nonempty:
  assumes "valid p" "sat p f A"
  shows "A \<noteq> {||}"
  using shared_elector[OF assms(1) full_quorum[OF assms(1)] assms(2)] by auto

text \<open>One vote per node makes the winner of an election unique.\<close>

lemma unique_winner:
  assumes "valid p" "sat p Election A" "sat p Election B"
    and "\<And>v. v |\<in>| A \<Longrightarrow> vote v = Some a" "\<And>v. v |\<in>| B \<Longrightarrow> vote v = Some b"
  shows "a = b"
  using shared_elector[OF assms(1-3)] assms(4,5) by fastforce

end

lemma valid_plan_holds:
  "valid_plan H plan \<Longrightarrow> plan_satisfies plan f S \<longleftrightarrow> holds (spec_predicate (plan_spec plan) f) (fset S)"
  by (simp add: valid_plan_def compiled_satisfies_holds)

lemma valid_plan_predicate_ok:
  assumes "valid_plan H plan"
  shows "predicate_ok (spec_voters (plan_spec plan)) (spec_predicate (plan_spec plan) f)"
  using compile_plan_Inr[of H "plan_spec plan" plan] assms by (metis valid_plan_def)

lemma valid_plan_header_ok: "valid_plan H plan \<Longrightarrow> header_ok (plan_spec plan)"
  using compile_plan_Inr[of H "plan_spec plan" plan] by (metis valid_plan_def)

lemma valid_plan_ordered: "valid_plan H plan \<Longrightarrow> ordered_voters plan = btree_iter (spec_voters (plan_spec plan))"
  using compile_plan_Inr[of H "plan_spec plan" plan] by (metis valid_plan_def)

interpretation stable: quorum_provider "valid_plan H" plan_satisfies "\<lambda>plan. spec_voters (plan_spec plan)"
  for H
proof (unfold_locales, goal_cases)
  case (1 p f A B)
  then show ?case
    using holds_mono by (auto simp: valid_plan_holds less_eq_fset.rep_eq)
next
  case (2 p f A)
  then have "references (spec_predicate (plan_spec p) f) \<subseteq> fset (spec_voters (plan_spec p))"
    using valid_plan_predicate_ok predicate_ok_def by blast
  with 2 show ?case
    by (simp add: valid_plan_holds holds_restrict)
next
  case (3 p A f B)
  then have "families_intersect (plan_spec p)"
    using compiled_families_intersect by (auto simp: valid_plan_def)
  with 3 have "fset A \<inter> fset B \<noteq> {}"
    by (auto simp: families_intersect_def valid_plan_holds)
  then show ?case
    by (metis bot_fset.rep_eq inf_fset.rep_eq)
next
  case (4 p f)
  then show ?case
    using valid_plan_predicate_ok holds_references by (auto simp: valid_plan_holds predicate_ok_def)
qed

section \<open>Flat plans\<close>

lemma holds_flat:
  "distinct vs \<Longrightarrow> holds (AtLeast k (map Voter vs)) S \<longleftrightarrow> k \<le> card (S \<inter> set vs)"
proof -
  assume "distinct vs"
  have "length (filter (\<lambda>c. holds c S) (map Voter vs)) = length (filter (\<lambda>v. v \<in> S) vs)"
    by (simp add: filter_map comp_def)
  also have "\<dots> = card (set (filter (\<lambda>v. v \<in> S) vs))"
    using \<open>distinct vs\<close> by (intro distinct_card[symmetric]) simp
  also have "set (filter (\<lambda>v. v \<in> S) vs) = S \<inter> set vs"
    by auto
  finally show ?thesis by simp
qed

lemma disjoint_refs_voters: "distinct vs \<Longrightarrow> disjoint_refs (map Voter vs)"
  by (induction vs) auto

lemma predicate_ok_flat:
  assumes "0 < k" "k \<le> fcard V" "fcard V \<le> MAXIMUM_VOTERS"
  shows "predicate_ok V (AtLeast k (map Voter (btree_iter V)))"
proof -
  have "sum_list (map node_total (map Voter (btree_iter V))) = fcard V"
    by (simp add: comp_def sum_list_triv)
  moreover have "fold max (map tree_depth (map Voter (btree_iter V))) 0 \<le> 1"
    using fold_max_le[of 0 tree_depth "map Voter (btree_iter V)" 0 1] by simp
  ultimately show ?thesis
    using assms by (auto simp: predicate_ok_def disjoint_refs_voters list_all_iff
        MAXIMUM_PREDICATE_NODES_def MAXIMUM_PREDICATE_DEPTH_def MAXIMUM_VOTERS_def)
qed

text \<open>The thresholds of a flat plan over \<open>n\<close> voters.\<close>

definition election_majority :: "nat \<Rightarrow> nat" where "election_majority n = n div 2 + 1"
definition flat_write_threshold :: "nat \<Rightarrow> nat" where "flat_write_threshold n = n - election_majority n + 1"

lemma flat_thresholds:
  assumes "0 < n"
  shows "0 < election_majority n" "election_majority n \<le> n" "0 < flat_write_threshold n"
    "flat_write_threshold n \<le> n" "n < election_majority n + flat_write_threshold n"
    "n < election_majority n + election_majority n"
  using assms by (auto simp: election_majority_def flat_write_threshold_def)

lemma membership_size:
  assumes "validate_membership voters learners = Inr ()"
  shows "0 < fcard voters" "fcard voters \<le> MAXIMUM_VOTERS"
  using assms by (auto simp: validate_membership_def MAXIMUM_VOTERS_def split: if_splits simp flip: neq0_conv)

lemma flat_plan_Inr:
  assumes "validate_membership voters learners = Inr ()"
  shows "flat_plan plan_id epoch voters learners = Inr
    \<lparr>spec_plan_id = plan_id, spec_format_version = 1, spec_membership_epoch = epoch,
     spec_voters = voters, spec_learners = learners, spec_eligible_leaders = voters,
     spec_election = AtLeast (election_majority (fcard voters)) (map Voter (btree_iter voters)),
     spec_commit = AtLeast (flat_write_threshold (fcard voters)) (map Voter (btree_iter voters)),
     spec_read = AtLeast (flat_write_threshold (fcard voters)) (map Voter (btree_iter voters))\<rparr>"
proof -
  let ?n = "fcard voters"
  note size = membership_size[OF assms] and t = flat_thresholds[OF membership_size(1)[OF assms]]
  have le: "election_majority ?n \<le> u8_max" "flat_write_threshold ?n \<le> u8_max"
    "flat_write_threshold ?n \<le> u64_max"
    using t size by (auto simp: u8_max_def u64_max_def MAXIMUM_VOTERS_def)
  then show ?thesis
    using assms t(2)
    by (simp add: flat_plan_def Let_def try_narrow_def checked_add_def checked_sub_def
        election_majority_def flat_write_threshold_def)
qed

lemma flat_plan_InrD:
  "flat_plan plan_id epoch voters learners = Inr spec \<Longrightarrow> validate_membership voters learners = Inr ()"
  by (auto simp: flat_plan_def result_simps)

lemma quorum_sizes_meet:
  assumes "finite V" "card V < card (A \<inter> V) + card (B \<inter> V)"
  shows "A \<inter> B \<noteq> {}"
proof
  assume "A \<inter> B = {}"
  then have "card (A \<inter> V) + card (B \<inter> V) = card ((A \<inter> V) \<union> (B \<inter> V))"
    using assms(1) by (subst card_Un_disjoint) auto
  also have "\<dots> \<le> card V"
    using assms(1) by (intro card_mono) auto
  finally show False using assms(2) by simp
qed

lemma flat_plan_compiles:
  assumes flat: "flat_plan plan_id epoch voters learners = Inr spec" and epoch: "epoch \<noteq> 0"
  shows "\<exists>plan. compile_plan H spec = Inr plan"
proof -
  have m: "validate_membership voters learners = Inr ()"
    by (rule flat_plan_InrD[OF flat])
  let ?n = "fcard voters"
  note n = membership_size[OF m]
  note t = flat_thresholds[OF n(1)]
  have spec: "spec = \<lparr>spec_plan_id = plan_id, spec_format_version = 1, spec_membership_epoch = epoch,
     spec_voters = voters, spec_learners = learners, spec_eligible_leaders = voters,
     spec_election = AtLeast (election_majority ?n) (map Voter (btree_iter voters)),
     spec_commit = AtLeast (flat_write_threshold ?n) (map Voter (btree_iter voters)),
     spec_read = AtLeast (flat_write_threshold ?n) (map Voter (btree_iter voters))\<rparr>"
    using flat flat_plan_Inr[OF m] by simp
  show ?thesis
  proof (rule compile_plan_complete)
    show "header_ok spec"
      using m epoch by (auto simp: header_ok_def spec validate_membership_def split: if_splits)
    show "predicate_ok (spec_voters spec) (spec_predicate spec f)" for f
      using predicate_ok_flat[OF t(1,2) n(2)] predicate_ok_flat[OF t(3,4) n(2)]
      by (cases f) (auto simp: spec)
    have "A \<inter> B \<noteq> {}" if "election_majority ?n \<le> card (A \<inter> fset voters)"
      "flat_write_threshold ?n \<le> card (B \<inter> fset voters) \<or> election_majority ?n \<le> card (B \<inter> fset voters)" for A B
      by (rule quorum_sizes_meet[of "fset voters"])
        (use that t(5,6) in \<open>auto simp: fcard.rep_eq[symmetric]\<close>)
    then have "A \<inter> B \<noteq> {}"
      if "holds (spec_election spec) A" "holds (spec_predicate spec f) B" for f A B
      using that by (cases f) (auto simp: spec holds_flat simp del: holds.simps)
    then show "families_intersect spec"
      unfolding families_intersect_def by blast
  qed
qed

end
