(* ===== verification/Quorum_Transition.thy ===== *)
theory Quorum_Transition
  imports Quorum_Compile
begin

text \<open>
  Joint membership phases: \<open>quorum/transition.rs\<close>, the joint plan of \<open>membership.rs\<close> and the active phase of
  \<open>plan_record.rs\<close> of \<open>meshspan-consensus\<close>.

  The lemmas show that the cross-family checks of \<open>prove_joint_transition\<close> hold for every pair of compiled
  plans, so that a transition is refused exactly when its epoch does not advance; that the minimal joint sets
  it inspects decide the joint predicate; and that an active phase, stable or joint, is a quorum provider.
\<close>

section \<open>Joint transition proof (transition.rs)\<close>

record joint_transition_proof =
  jt_old_epoch :: nat
  jt_new_epoch :: nat
  jt_proof_digest :: bytes

definition nodes_intersect_all :: "node_id fset list \<Rightarrow> node_id fset list \<Rightarrow> bool" where
  "nodes_intersect_all left right = list_all (\<lambda>a. list_all (\<lambda>b. a |\<inter>| b \<noteq> {||}) right) left"

definition compose_joint :: "node_id fset list \<Rightarrow> node_id fset list \<Rightarrow> node_id fset list" where
  "compose_joint old new =
     (let candidates = concat (map (\<lambda>old_set. map (\<lambda>new_set. old_set |\<union>| new_set) new) old)
      in filter (\<lambda>candidate.
           \<not> list_ex (\<lambda>other. other \<noteq> candidate \<and> other |\<subseteq>| candidate) candidates) candidates)"

definition node_sets :: "compiled_quorum_plan \<Rightarrow> quorum_family \<Rightarrow> node_id fset list" where
  "node_sets plan family =
     map (\<lambda>q. to_nodes q (ordered_voters plan)) (minimal_quorums (plan_family plan family))"

definition prove_joint_transition ::
  "(bytes \<Rightarrow> bytes) \<Rightarrow> compiled_quorum_plan \<Rightarrow> compiled_quorum_plan \<Rightarrow>
     quorum_plan_error + joint_transition_proof" where
  "prove_joint_transition H old new =
     (if spec_membership_epoch (plan_spec new) \<le> spec_membership_epoch (plan_spec old)
      then Inl UnsafeTransition
      else let old_election = node_sets old Election;
               old_commit = node_sets old Commit;
               new_election = node_sets new Election;
               new_commit = node_sets new Commit;
               joint_election = compose_joint old_election new_election;
               joint_commit = compose_joint old_commit new_commit;
               joint_read = compose_joint (node_sets old Read) (node_sets new Read);
               safe = nodes_intersect_all old_election joint_commit
                 \<and> nodes_intersect_all joint_election old_commit
                 \<and> nodes_intersect_all joint_election joint_election
                 \<and> nodes_intersect_all joint_election joint_commit
                 \<and> nodes_intersect_all joint_read joint_election
                 \<and> nodes_intersect_all joint_election new_commit
                 \<and> nodes_intersect_all new_election joint_commit
           in if \<not> safe then Inl UnsafeTransition
              else Inr \<lparr>jt_old_epoch = spec_membership_epoch (plan_spec old),
                        jt_new_epoch = spec_membership_epoch (plan_spec new),
                        jt_proof_digest = H (ascii ''meshspan.consensus.joint-transition.v1'' @
                          plan_proof_digest old @ plan_proof_digest new @
                          be_bytes 8 (spec_membership_epoch (plan_spec old)) @
                          be_bytes 8 (spec_membership_epoch (plan_spec new)) @
                          replicate 5 1)\<rparr>)"

section \<open>Joint plans (membership.rs)\<close>

datatype membership_change_error = InvalidTarget | NoCaughtUpLearner | InvalidTransition

record joint_quorum_plan =
  joint_old :: compiled_quorum_plan
  joint_new :: compiled_quorum_plan
  joint_proof :: joint_transition_proof
  joint_digest :: bytes

definition joint_plan_new ::
  "(bytes \<Rightarrow> bytes) \<Rightarrow> compiled_quorum_plan \<Rightarrow> compiled_quorum_plan \<Rightarrow>
     membership_change_error + joint_quorum_plan" where
  "joint_plan_new H old new =
     (if spec_membership_epoch (plan_spec new) \<noteq>
           saturating_add u64_max (spec_membership_epoch (plan_spec old)) 1
      then Inl InvalidTransition
      else try_r (map_err (\<lambda>_. InvalidTransition) (prove_joint_transition H old new)) (\<lambda>proof'.
        Inr \<lparr>joint_old = old, joint_new = new, joint_proof = proof',
             joint_digest = H (ascii ''meshspan.consensus.active-joint-plan.v1'' @
               plan_proof_digest old @ plan_proof_digest new @ jt_proof_digest proof')\<rparr>))"

definition joint_satisfies ::
  "joint_quorum_plan \<Rightarrow> quorum_family \<Rightarrow> node_id fset \<Rightarrow> bool" where
  "joint_satisfies joint family acks =
     (plan_satisfies (joint_old joint) family acks \<and> plan_satisfies (joint_new joint) family acks)"

definition joint_members :: "joint_quorum_plan \<Rightarrow> node_id fset" where
  "joint_members joint = plan_members (joint_old joint) |\<union>| plan_members (joint_new joint)"

definition joint_eligible_leaders :: "joint_quorum_plan \<Rightarrow> node_id fset" where
  "joint_eligible_leaders joint =
     spec_eligible_leaders (plan_spec (joint_old joint)) |\<inter>|
     spec_eligible_leaders (plan_spec (joint_new joint))"

definition joint_membership_epoch :: "joint_quorum_plan \<Rightarrow> nat" where
  "joint_membership_epoch joint = jt_new_epoch (joint_proof joint)"

section \<open>Active phases (plan_record.rs)\<close>

datatype active_quorum_plan =
    Stable compiled_quorum_plan
  | Joint joint_quorum_plan

fun active_membership_epoch :: "active_quorum_plan \<Rightarrow> nat" where
  "active_membership_epoch (Stable plan) = spec_membership_epoch (plan_spec plan)"
| "active_membership_epoch (Joint joint) = joint_membership_epoch joint"

fun active_proof_digest :: "active_quorum_plan \<Rightarrow> bytes" where
  "active_proof_digest (Stable plan) = plan_proof_digest plan"
| "active_proof_digest (Joint joint) = joint_digest joint"

fun active_members :: "active_quorum_plan \<Rightarrow> node_id fset" where
  "active_members (Stable plan) = spec_voters (plan_spec plan) |\<union>| spec_learners (plan_spec plan)"
| "active_members (Joint joint) = joint_members joint"

fun active_voters :: "active_quorum_plan \<Rightarrow> node_id fset" where
  "active_voters (Stable plan) = spec_voters (plan_spec plan)"
| "active_voters (Joint joint) =
     spec_voters (plan_spec (joint_old joint)) |\<union>| spec_voters (plan_spec (joint_new joint))"

fun active_satisfies :: "active_quorum_plan \<Rightarrow> quorum_family \<Rightarrow> node_id fset \<Rightarrow> bool" where
  "active_satisfies (Stable plan) family acks = plan_satisfies plan family acks"
| "active_satisfies (Joint joint) family acks = joint_satisfies joint family acks"

fun active_eligible_leaders :: "active_quorum_plan \<Rightarrow> node_id fset" where
  "active_eligible_leaders (Stable plan) = spec_eligible_leaders (plan_spec plan)"
| "active_eligible_leaders (Joint joint) = joint_eligible_leaders joint"

fun recovery_configuration_plan :: "active_quorum_plan \<Rightarrow> compiled_quorum_plan" where
  "recovery_configuration_plan (Stable plan) = plan"
| "recovery_configuration_plan (Joint joint) = joint_old joint"

section \<open>Lemmas\<close>

definition valid_joint :: "(bytes \<Rightarrow> bytes) \<Rightarrow> joint_quorum_plan \<Rightarrow> bool" where
  "valid_joint H joint \<longleftrightarrow>
     valid_plan H (joint_old joint) \<and> valid_plan H (joint_new joint) \<and>
     joint_plan_new H (joint_old joint) (joint_new joint) = Inr joint"

fun valid_active :: "(bytes \<Rightarrow> bytes) \<Rightarrow> active_quorum_plan \<Rightarrow> bool" where
  "valid_active H (Stable plan) = valid_plan H plan"
| "valid_active H (Joint joint) = valid_joint H joint"

lemma valid_plan_canonical:
  assumes "valid_plan H plan"
  obtains bits where "canonical_order (ordered_voters plan) bits"
    "\<And>f. compile_family (spec_predicate (plan_spec plan) f) bits (length (ordered_voters plan)) =
           Inr (plan_family plan f)"
  using compile_plan_Inr[of H "plan_spec plan" plan] assms unfolding valid_plan_def by metis

lemma node_sets_holds:
  assumes v: "valid_plan H plan" and q: "q \<in> set (node_sets plan f)"
  shows "plan_satisfies plan f q"
proof -
  obtain bits where c: "canonical_order (ordered_voters plan) bits"
    "compile_family (spec_predicate (plan_spec plan) f) bits (length (ordered_voters plan)) =
           Inr (plan_family plan f)"
    using valid_plan_canonical[OF v] by metis
  obtain a where "a \<in> set (minimal_quorums (plan_family plan f))" "q = to_nodes a (ordered_voters plan)"
    using q by (auto simp: node_sets_def)
  then show ?thesis
    using minimal_quorum_holds(1)[OF c(2,1)] valid_plan_predicate_ok[OF v]
    by (simp add: valid_plan_holds[OF v] predicate_ok_def)
qed

lemma node_sets_below:
  assumes v: "valid_plan H plan" and s: "plan_satisfies plan f A"
  shows "\<exists>q \<in> set (node_sets plan f). q |\<subseteq>| A"
proof -
  obtain bits where c: "canonical_order (ordered_voters plan) bits"
    "compile_family (spec_predicate (plan_spec plan) f) bits (length (ordered_voters plan)) =
           Inr (plan_family plan f)"
    using valid_plan_canonical[OF v] by metis
  have "references (spec_predicate (plan_spec plan) f) \<subseteq> set (ordered_voters plan)"
    using valid_plan_predicate_ok[OF v, of f] valid_plan_ordered[OF v] by (simp add: predicate_ok_def)
  then obtain a where "a \<in> set (minimal_quorums (plan_family plan f))"
    "fset (to_nodes a (ordered_voters plan)) \<subseteq> fset A"
    using minimal_quorum_below[OF c(2,1), of A] valid_plan_predicate_ok[OF v, of f] s
    by (auto simp: valid_plan_holds[OF v] predicate_ok_def)
  then show ?thesis
    by (auto simp: node_sets_def less_eq_fset.rep_eq)
qed

lemma fset_minimal_exists:
  "x \<in> set xs \<Longrightarrow>
   \<exists>m \<in> set (filter (\<lambda>c. \<not> list_ex (\<lambda>y. y \<noteq> c \<and> y |\<subseteq>| c) xs) xs). m |\<subseteq>| (x :: 'a fset)"
proof (induction "fcard x" arbitrary: x rule: less_induct)
  case less
  show ?case
  proof (cases "list_ex (\<lambda>y. y \<noteq> x \<and> y |\<subseteq>| x) xs")
    case False
    with less.prems show ?thesis by (intro bexI[of _ x]) auto
  next
    case True
    then obtain y where y: "y \<in> set xs" "y \<noteq> x" "y |\<subseteq>| x"
      by (auto simp: list_ex_iff)
    then have "fcard y < fcard x"
      by (intro pfsubset_fcard_mono) (simp add: less_le)
    from less.hyps[OF this y(1)] obtain m where
      "m \<in> set (filter (\<lambda>c. \<not> list_ex (\<lambda>y. y \<noteq> c \<and> y |\<subseteq>| c) xs) xs)" "m |\<subseteq>| y"
      by blast
    with y(3) show ?thesis
      using order_trans by blast
  qed
qed

lemma compose_joint_element:
  "c \<in> set (compose_joint old new) \<Longrightarrow> \<exists>a \<in> set old. \<exists>b \<in> set new. c = a |\<union>| b"
  by (auto simp: compose_joint_def Let_def)

lemma compose_joint_below:
  assumes "a \<in> set old" "b \<in> set new"
  shows "\<exists>m \<in> set (compose_joint old new). m |\<subseteq>| a |\<union>| b"
  unfolding compose_joint_def Let_def by (rule fset_minimal_exists) (use assms in auto)

lemma joint_sets_decide:
  assumes v: "valid_plan H old" "valid_plan H new"
  shows "(\<exists>m \<in> set (compose_joint (node_sets old f) (node_sets new f)). m |\<subseteq>| A) \<longleftrightarrow>
    plan_satisfies old f A \<and> plan_satisfies new f A"
proof
  assume "\<exists>m \<in> set (compose_joint (node_sets old f) (node_sets new f)). m |\<subseteq>| A"
  then obtain a b where "a \<in> set (node_sets old f)" "b \<in> set (node_sets new f)" "a |\<union>| b |\<subseteq>| A"
    using compose_joint_element by blast
  then show "plan_satisfies old f A \<and> plan_satisfies new f A"
    using node_sets_holds v stable.sat_mono by blast
next
  assume "plan_satisfies old f A \<and> plan_satisfies new f A"
  then obtain a b where "a \<in> set (node_sets old f)" "a |\<subseteq>| A" "b \<in> set (node_sets new f)" "b |\<subseteq>| A"
    using node_sets_below v by blast
  then show "\<exists>m \<in> set (compose_joint (node_sets old f) (node_sets new f)). m |\<subseteq>| A"
    using compose_joint_below by (meson order_trans sup_least)
qed

lemma joint_set_satisfies:
  assumes "valid_plan H old" "valid_plan H new"
    and "m \<in> set (compose_joint (node_sets old f) (node_sets new f))"
  shows "plan_satisfies old f m" and "plan_satisfies new f m"
  using joint_sets_decide[OF assms(1,2), of f m] assms(3) by blast+

lemma nodes_intersect_allI:
  "(\<And>a b. a \<in> set xs \<Longrightarrow> b \<in> set ys \<Longrightarrow> a |\<inter>| b \<noteq> {||}) \<Longrightarrow> nodes_intersect_all xs ys"
  by (auto simp: nodes_intersect_all_def list_all_iff)

lemma prove_joint_transition_iff:
  assumes v: "valid_plan H old" "valid_plan H new"
  shows "(\<exists>proof'. prove_joint_transition H old new = Inr proof') \<longleftrightarrow>
    spec_membership_epoch (plan_spec old) < spec_membership_epoch (plan_spec new)"
proof -
  let ?j = "\<lambda>f. compose_joint (node_sets old f) (node_sets new f)"
  have J: "plan_satisfies old f m" "plan_satisfies new f m" if "m \<in> set (?j f)" for f m
    using joint_set_satisfies[OF v that] by auto
  have N: "plan_satisfies old f m" if "m \<in> set (node_sets old f)" for f m
    using node_sets_holds[OF v(1) that] .
  have M: "plan_satisfies new f m" if "m \<in> set (node_sets new f)" for f m
    using node_sets_holds[OF v(2) that] .
  note meets = stable.election_meets[OF v(1)] stable.election_meets[OF v(2)]
  have "nodes_intersect_all (node_sets old Election) (?j Commit)"
    by (rule nodes_intersect_allI) (use N J meets in blast)
  moreover have "nodes_intersect_all (?j Election) (node_sets old Commit)"
    by (rule nodes_intersect_allI) (use N J meets in blast)
  moreover have "nodes_intersect_all (?j Election) (?j Election)"
    by (rule nodes_intersect_allI) (use J meets in blast)
  moreover have "nodes_intersect_all (?j Election) (?j Commit)"
    by (rule nodes_intersect_allI) (use J meets in blast)
  moreover have "nodes_intersect_all (?j Read) (?j Election)"
    by (rule nodes_intersect_allI) (use J meets in \<open>metis inf_commute\<close>)
  moreover have "nodes_intersect_all (?j Election) (node_sets new Commit)"
    by (rule nodes_intersect_allI) (use M J meets in blast)
  moreover have "nodes_intersect_all (node_sets new Election) (?j Commit)"
    by (rule nodes_intersect_allI) (use M J meets in blast)
  ultimately show ?thesis
    by (auto simp: prove_joint_transition_def Let_def)
qed

lemma prove_joint_transition_epochs:
  "prove_joint_transition H old new = Inr p \<Longrightarrow>
     jt_old_epoch p = spec_membership_epoch (plan_spec old) \<and>
     jt_new_epoch p = spec_membership_epoch (plan_spec new)"
  by (auto simp: prove_joint_transition_def Let_def split: if_splits)

lemma joint_plan_new_Inr:
  assumes "joint_plan_new H old new = Inr joint"
  shows "joint_old joint = old" "joint_new joint = new"
    "joint_membership_epoch joint = spec_membership_epoch (plan_spec new)"
    "spec_membership_epoch (plan_spec new) = Suc (spec_membership_epoch (plan_spec old))"
proof -
  show 1: "joint_old joint = old" "joint_new joint = new"
    "joint_membership_epoch joint = spec_membership_epoch (plan_spec new)"
    using assms prove_joint_transition_epochs
    by (auto simp: joint_plan_new_def joint_membership_epoch_def result_simps split: if_splits)
  have "spec_membership_epoch (plan_spec old) < spec_membership_epoch (plan_spec new)"
    using assms by (auto simp: joint_plan_new_def prove_joint_transition_def result_simps split: if_splits)
  then show "spec_membership_epoch (plan_spec new) = Suc (spec_membership_epoch (plan_spec old))"
    using assms by (auto simp: joint_plan_new_def saturating_add_def split: if_splits)
qed

lemma joint_plan_new_ok:
  assumes v: "valid_plan H old" "valid_plan H new"
    and e: "spec_membership_epoch (plan_spec new) = Suc (spec_membership_epoch (plan_spec old))"
    and b: "spec_membership_epoch (plan_spec new) \<le> u64_max"
  shows "\<exists>joint. joint_plan_new H old new = Inr joint"
proof -
  obtain p where "prove_joint_transition H old new = Inr p"
    using prove_joint_transition_iff[OF v] e by auto
  then show ?thesis
    using e b by (auto simp: joint_plan_new_def saturating_add_def)
qed

lemma joint_plan_new_valid:
  "valid_plan H old \<Longrightarrow> valid_plan H new \<Longrightarrow> joint_plan_new H old new = Inr joint \<Longrightarrow> valid_joint H joint"
  using joint_plan_new_Inr by (auto simp: valid_joint_def)

text \<open>
  A joint plan is a quorum provider over the union of the voters, and so is every active phase. Its quorums
  also meet the quorums of both stable plans, which is what lets the phases follow one another.
\<close>

interpretation joint: quorum_provider "valid_joint H" joint_satisfies
  "\<lambda>joint. spec_voters (plan_spec (joint_old joint)) |\<union>| spec_voters (plan_spec (joint_new joint))"
  for H
proof (unfold_locales, goal_cases)
  case (1 p f A B)
  then show ?case
    using stable.sat_mono by (auto simp: joint_satisfies_def valid_joint_def)
next
  case (2 p f A)
  let ?V = "spec_voters (plan_spec (joint_old p))" and ?W = "spec_voters (plan_spec (joint_new p))"
  have "plan_satisfies (joint_old p) f (A |\<inter>| (?V |\<union>| ?W)) = plan_satisfies (joint_old p) f A"
    by (rule stable.sat_cong[of H]) (use 2 in \<open>auto simp: valid_joint_def\<close>)
  moreover have "plan_satisfies (joint_new p) f (A |\<inter>| (?V |\<union>| ?W)) = plan_satisfies (joint_new p) f A"
    by (rule stable.sat_cong[of H]) (use 2 in \<open>auto simp: valid_joint_def\<close>)
  ultimately show ?case by (simp add: joint_satisfies_def)
next
  case (3 p A f B)
  then show ?case
    using stable.election_meets by (auto simp: joint_satisfies_def valid_joint_def)
next
  case (4 p f)
  then show ?case
    using stable.full_quorum stable.sat_mono
    by (auto simp: joint_satisfies_def valid_joint_def) (meson sup_ge1 sup_ge2)+
qed

interpretation active: quorum_provider "valid_active H" active_satisfies active_voters
  for H
proof (unfold_locales, goal_cases)
  case (1 p f A B)
  then show ?case
    using stable.sat_mono joint.sat_mono by (cases p) auto
next
  case (2 p f A)
  then show ?case
    using stable.sat_electors joint.sat_electors by (cases p) auto
next
  case (3 p A f B)
  then show ?case
    using stable.election_meets joint.election_meets by (cases p) auto
next
  case (4 p f)
  then show ?case
    using stable.full_quorum joint.full_quorum by (cases p) auto
qed

end
