(* ===== verification/Quorum_Properties.thy ===== *)
theory Quorum_Properties
  imports Quorum_Transition
begin

text \<open>
  The correctness properties of the quorum layer: what compilation accepts and what a compiled plan decides,
  the exact cut sets, the flat plans of automatic membership, and the safety of joint phases.
\<close>

section \<open>A concrete plan\<close>

text \<open>Two voters: both elect, either commits, the second one reads.\<close>

definition pair_spec :: "nat \<Rightarrow> quorum_plan_spec" where
  "pair_spec epoch = \<lparr>spec_plan_id = QuorumPlanId [9], spec_format_version = 1,
     spec_membership_epoch = epoch, spec_voters = {|NodeId [1], NodeId [2]|}, spec_learners = {||},
     spec_eligible_leaders = {|NodeId [1]|},
     spec_election = quorum_predicate.All [Voter (NodeId [1]), Voter (NodeId [2])],
     spec_commit = AtLeast 1 [Voter (NodeId [1]), Voter (NodeId [2])],
     spec_read = Voter (NodeId [2])\<rparr>"

definition pair_plan :: "nat \<Rightarrow> compiled_quorum_plan" where
  "pair_plan epoch = projr (compile_plan (\<lambda>_. []) (pair_spec epoch))"

lemma is_ok_projr: "is_ok r \<longleftrightarrow> r = Inr (projr r)"
  by (cases r) (auto simp: is_ok_def)

lemma pair_compiles:
  "compile_plan (\<lambda>_. []) (pair_spec 7) = Inr (pair_plan 7)"
  "compile_plan (\<lambda>_. []) (pair_spec 8) = Inr (pair_plan 8)"
  unfolding pair_plan_def is_ok_projr[symmetric] by code_simp+

lemma pair_valid: "valid_plan (\<lambda>_. []) (pair_plan 7)" "valid_plan (\<lambda>_. []) (pair_plan 8)"
  using pair_compiles compile_plan_valid by blast+

lemma pair_plan_spec: "plan_spec (pair_plan 7) = pair_spec 7" "plan_spec (pair_plan 8) = pair_spec 8"
  using pair_compiles compile_plan_valid by blast+

section \<open>Compilation\<close>

text \<open>
  C20. Compilation succeeds exactly when the header is well formed, every predicate is well formed and in
  bounds over the voters, and every set of nodes satisfying the election predicate meets every set
  satisfying the election, commit or read predicate. Enumerating the voter subsets and comparing minimal
  quorums is thus equivalent to the intersection property over all sets of nodes.
\<close>

theorem compile_plan_exact:
  "(\<exists>plan. compile_plan H spec = Inr plan) \<longleftrightarrow>
     header_ok spec \<and> (\<forall>f. predicate_ok (spec_voters spec) (spec_predicate spec f)) \<and>
     families_intersect spec"
  by (metis compile_plan_Inr compile_plan_complete compiled_families_intersect)

text \<open>
  C21. A compiled plan decides every family exactly as the tree predicate of its source does on the set of
  acknowledging nodes, although it compares voter bit sets against minimal quorums; nodes that are not
  voters never count.
\<close>

theorem compiled_plan_decides_predicate:
  assumes "compile_plan H spec = Inr plan"
  shows "plan_satisfies plan f acks \<longleftrightarrow> holds (spec_predicate spec f) (fset acks \<inter> fset (spec_voters spec))"
proof -
  have "references (spec_predicate spec f) \<subseteq> fset (spec_voters spec)"
    using compile_plan_Inr[OF assms] by (metis predicate_ok_def)
  then have "holds (spec_predicate spec f) (fset acks \<inter> fset (spec_voters spec)) =
      holds (spec_predicate spec f) (fset acks)"
    by (intro holds_cong) auto
  then show ?thesis
    using compiled_satisfies_holds[OF assms] by simp
qed

theorem compiled_plan_decides_predicate_witness:
  "plan_satisfies (pair_plan 7) Commit {|NodeId [2], NodeId [7]|}"
  using compiled_plan_decides_predicate[OF pair_compiles(1), of Commit "{|NodeId [2], NodeId [7]|}"]
  by (simp add: pair_spec_def)

text \<open>
  C22. In a compiled plan any election quorum shares a voter with any election, commit or read quorum, and
  adding acknowledgements never loses a quorum.
\<close>

theorem compiled_quorums_share_voter:
  assumes "compile_plan H spec = Inr plan" and "plan_satisfies plan Election A" and "plan_satisfies plan f B"
    and "A |\<subseteq>| A'" and "B |\<subseteq>| B'"
  shows "(\<exists>v. v |\<in>| A \<and> v |\<in>| B \<and> v |\<in>| spec_voters spec) \<and>
    plan_satisfies plan Election A' \<and> plan_satisfies plan f B'"
  using assms compile_plan_valid[OF assms(1)] stable.shared_elector[of H plan A f B]
    stable.sat_mono[of H plan _ _ A'] stable.sat_mono[of H plan _ _ B'] by metis

theorem compiled_quorums_share_voter_witness:
  "plan_satisfies (pair_plan 7) Election {|NodeId [1], NodeId [2]|} \<and>
   (\<exists>v. v |\<in>| {|NodeId [1], NodeId [2]|} \<and> v |\<in>| {|NodeId [2]|} \<and> v |\<in>| spec_voters (pair_spec 7))"
proof -
  have "plan_satisfies (pair_plan 7) Election {|NodeId [1], NodeId [2]|}"
    "plan_satisfies (pair_plan 7) Commit {|NodeId [2]|}"
    by (simp_all add: valid_plan_holds[OF pair_valid(1)] pair_plan_spec pair_spec_def)
  then show ?thesis
    using compiled_quorums_share_voter[OF pair_compiles(1) _ _ order_refl order_refl] by blast
qed

text \<open>
  C23. The minimal cut sets of a compiled family are exact: a set of failed voters contains one of them if and
  only if the remaining voters can no longer satisfy the family.
\<close>

theorem compiled_cut_sets_exact:
  assumes "compile_plan H spec = Inr plan" and "failed |\<subseteq>| spec_voters spec"
  shows "(\<exists>cut \<in> set (minimal_cut_sets (plan_family plan f)). to_nodes cut (ordered_voters plan) |\<subseteq>| failed) \<longleftrightarrow>
    \<not> plan_satisfies plan f (spec_voters spec |-| failed)"
proof -
  obtain bits where *: "canonical_order (btree_iter (spec_voters spec)) bits"
    "\<And>f. predicate_ok (spec_voters spec) (spec_predicate spec f)"
    "\<And>f. compile_family (spec_predicate spec f) bits (length (btree_iter (spec_voters spec))) =
           Inr (plan_family plan f)" "ordered_voters plan = btree_iter (spec_voters spec)"
    using compile_plan_Inr[OF assms(1)] by metis
  show ?thesis
    using family_cut_sets[OF *(3) *(1), of f failed] *(2)[of f] compiled_satisfies_holds[OF assms(1)]
    by (simp add: *(4) predicate_ok_def less_eq_fset.rep_eq)
qed

theorem compiled_cut_sets_exact_witness:
  "\<exists>cut \<in> set (minimal_cut_sets (plan_family (pair_plan 7) Election)).
     to_nodes cut (ordered_voters (pair_plan 7)) |\<subseteq>| {|NodeId [2]|}"
  using compiled_cut_sets_exact[OF pair_compiles(1), of "{|NodeId [2]|}" Election]
    valid_plan_holds[OF pair_valid(1), of Election]
  by (simp add: pair_plan_spec pair_spec_def)

text \<open>
  C24. For every membership that validates (one to nine voters, at most 256 learners, disjoint) and every
  non-zero epoch the flat plan exists and compiles; its election quorums are the strict majorities of the
  voters and its commit and read quorums are the halves, rounded up, and above.
\<close>

theorem flat_plan_compiles_to_majorities:
  assumes "validate_membership voters learners = Inr ()" and "epoch \<noteq> 0"
  shows "\<exists>spec plan. flat_plan plan_id epoch voters learners = Inr spec \<and> compile_plan H spec = Inr plan \<and>
    (\<forall>acks. plan_satisfies plan Election acks \<longleftrightarrow> fcard voters < 2 * fcard (acks |\<inter>| voters)) \<and>
    (\<forall>acks. plan_satisfies plan Commit acks \<longleftrightarrow> fcard voters \<le> 2 * fcard (acks |\<inter>| voters)) \<and>
    (\<forall>acks. plan_satisfies plan Read acks \<longleftrightarrow> fcard voters \<le> 2 * fcard (acks |\<inter>| voters))"
proof -
  note flat = flat_plan_Inr[OF assms(1), of plan_id epoch]
  note n = membership_size[OF assms(1)]
  obtain plan where plan: "compile_plan H (projr (flat_plan plan_id epoch voters learners)) = Inr plan"
    using flat_plan_compiles[OF flat assms(2)] flat by auto
  have "election_majority (fcard voters) \<le> k \<longleftrightarrow> fcard voters < 2 * k"
    "flat_write_threshold (fcard voters) \<le> k \<longleftrightarrow> fcard voters \<le> 2 * k" for k
    using n by (auto simp: election_majority_def flat_write_threshold_def)
  then show ?thesis
    using plan flat compiled_satisfies_holds[OF plan]
    by (auto simp: holds_flat fcard.rep_eq inf_fset.rep_eq simp del: holds.simps)
qed

theorem flat_plan_compiles_to_majorities_witness:
  "\<exists>plan. plan_satisfies plan Election {|NodeId [1], NodeId [2]|} \<and>
     \<not> plan_satisfies plan Election {|NodeId [2]|} \<and> \<not> plan_satisfies plan Commit {|NodeId [3]|}"
proof -
  have "validate_membership {|NodeId [1], NodeId [2], NodeId [3]|} {|NodeId [4]|} = Inr ()"
    by code_simp
  from flat_plan_compiles_to_majorities[OF this, of 1 "QuorumPlanId [9]" "\<lambda>_. []"] obtain plan where
    "\<forall>acks. plan_satisfies plan Election acks \<longleftrightarrow>
       fcard {|NodeId [1], NodeId [2], NodeId [3]|} < 2 * fcard (acks |\<inter>| {|NodeId [1], NodeId [2], NodeId [3]|})"
    "\<forall>acks. plan_satisfies plan Commit acks \<longleftrightarrow>
       fcard {|NodeId [1], NodeId [2], NodeId [3]|} \<le> 2 * fcard (acks |\<inter>| {|NodeId [1], NodeId [2], NodeId [3]|})"
    by auto
  moreover have "fcard {|NodeId [1], NodeId [2], NodeId [3]|} = 3"
    "fcard ({|NodeId [1], NodeId [2]|} |\<inter>| {|NodeId [1], NodeId [2], NodeId [3]|}) = 2"
    "fcard ({|NodeId [2]|} |\<inter>| {|NodeId [1], NodeId [2], NodeId [3]|}) = 1"
    "fcard ({|NodeId [3]|} |\<inter>| {|NodeId [1], NodeId [2], NodeId [3]|}) = 1"
    by code_simp+
  ultimately show ?thesis by (intro exI[of _ plan]) simp
qed

section \<open>Joint phases\<close>

text \<open>
  C25. Between two compiled plans a joint transition is refused exactly when the epoch does not advance: the
  seven cross-family intersection checks always succeed, because each joint set contains a quorum of both
  plans.
\<close>

theorem joint_transition_exact:
  assumes "compile_plan H old_spec = Inr old" and "compile_plan H new_spec = Inr new"
  shows "(\<exists>evidence. prove_joint_transition H old new = Inr evidence) \<longleftrightarrow>
    spec_membership_epoch old_spec < spec_membership_epoch new_spec"
  using prove_joint_transition_iff compile_plan_valid[OF assms(1)] compile_plan_valid[OF assms(2)] by metis

theorem joint_transition_exact_witness:
  "\<exists>evidence. prove_joint_transition (\<lambda>_. []) (pair_plan 7) (pair_plan 8) = Inr evidence"
  using joint_transition_exact[OF pair_compiles] by (simp add: pair_spec_def)

text \<open>
  C26. Every phase of a membership change is safe against the one before and the one after it: with a joint
  plan built from two compiled plans, an election quorum of the old plan, of the joint plan or of the new
  plan meets every commit and read quorum of the joint plan, and an election quorum of the joint plan meets
  every commit and read quorum of the old and of the new plan.
\<close>

theorem joint_phase_safe:
  assumes "compile_plan H old_spec = Inr old" and "compile_plan H new_spec = Inr new"
    and "joint_plan_new H old new = Inr joint"
    and "electing \<in> {Stable old, Joint joint, Stable new}"
    and "deciding \<in> {Stable old, Joint joint, Stable new}"
    and "electing = Joint joint \<or> deciding = Joint joint"
    and "active_satisfies electing Election A" and "active_satisfies deciding f B"
  shows "A |\<inter>| B \<noteq> {||}"
proof -
  note v = compile_plan_valid[OF assms(1), THEN conjunct1] compile_plan_valid[OF assms(2), THEN conjunct1]
  note j = joint_plan_new_Inr(1,2)[OF assms(3)]
  have "plan_satisfies old Election A \<and> plan_satisfies old f B \<or>
      plan_satisfies new Election A \<and> plan_satisfies new f B"
    using assms(4-8) j by (auto simp: joint_satisfies_def)
  then show ?thesis
    using stable.election_meets v by blast
qed

theorem joint_phase_safe_witness:
  "\<exists>joint. joint_plan_new (\<lambda>_. []) (pair_plan 7) (pair_plan 8) = Inr joint \<and>
     (\<forall>B. active_satisfies (Joint joint) Commit B \<longrightarrow> {|NodeId [1], NodeId [2]|} |\<inter>| B \<noteq> {||})"
proof -
  obtain joint where j: "joint_plan_new (\<lambda>_. []) (pair_plan 7) (pair_plan 8) = Inr joint"
    using joint_plan_new_ok[OF pair_valid] by (auto simp: pair_plan_spec pair_spec_def u64_max_def)
  have "active_satisfies (Stable (pair_plan 7)) Election {|NodeId [1], NodeId [2]|}"
    by (simp add: valid_plan_holds[OF pair_valid(1)] pair_plan_spec pair_spec_def)
  then show ?thesis
    using j joint_phase_safe[OF pair_compiles j, of "Stable (pair_plan 7)" "Joint joint"] by blast
qed

end
