(* ===== verification/Core_Types.thy ===== *)
theory Core_Types
  imports Quorum_Transition
begin

text \<open>
  The typed inputs, messages, durable mutations and effects of the consensus core (\<open>core/types.rs\<close>) and the
  framing budget of replication (\<open>core/replication_budget.rs\<close>).

  The lemmas characterise the entries that validate and the batches that the message validators accept:
  contiguous indices, bounded sizes and terms.
\<close>

section \<open>Positions and entries\<close>

definition MAXIMUM_LOG_ENTRY_BYTES :: nat where "MAXIMUM_LOG_ENTRY_BYTES = 16 * 1024 * 1024"
definition MAXIMUM_APPEND_ENTRIES :: nat where "MAXIMUM_APPEND_ENTRIES = 64"
definition MAXIMUM_APPEND_COMMAND_BYTES :: nat where "MAXIMUM_APPEND_COMMAND_BYTES = 16 * 1024 * 1024"
definition TERM_CONFIRMATION_VERSION :: nat where "TERM_CONFIRMATION_VERSION = u16_max"
definition TERM_CONFIRMATION_BYTES :: bytes where "TERM_CONFIRMATION_BYTES = ascii ''MSCT'' @ [1]"
definition ZERO_DIGEST :: bytes where "ZERO_DIGEST = replicate 32 0"

datatype core_error =
    InvalidConfiguration | InvalidInput | StaleMember | PersistencePending | StalePersistence
  | NotLeader | Exhausted

record log_position =
  pos_term :: nat
  pos_index :: nat

definition GENESIS :: log_position where "GENESIS = \<lparr>pos_term = 0, pos_index = 0\<rparr>"

definition position_valid :: "log_position \<Rightarrow> bool" where
  "position_valid p = ((pos_index p = 0) = (pos_term p = 0))"

text \<open>The derived order: by term, then by index.\<close>

definition position_le :: "log_position \<Rightarrow> log_position \<Rightarrow> bool" where
  "position_le a b = (pos_term a < pos_term b \<or> pos_term a = pos_term b \<and> pos_index a \<le> pos_index b)"

record log_entry =
  le_position :: log_position
  le_operation_id :: operation_id
  le_command_version :: nat
  le_command :: bytes
  le_command_digest :: bytes

abbreviation entry_term :: "log_entry \<Rightarrow> nat" where "entry_term e \<equiv> pos_term (le_position e)"
abbreviation entry_index :: "log_entry \<Rightarrow> nat" where "entry_index e \<equiv> pos_index (le_position e)"

definition command_digest :: "(bytes \<Rightarrow> bytes) \<Rightarrow> nat \<Rightarrow> bytes \<Rightarrow> bytes" where
  "command_digest H version command =
     H (ascii ''meshspan.consensus.command.v1'' @ be_bytes 2 version @
        be_bytes 8 (case try_narrow u64_max (length command) of None \<Rightarrow> u64_max | Some n \<Rightarrow> n) @ command)"

definition from_shared_command ::
  "(bytes \<Rightarrow> bytes) \<Rightarrow> log_position \<Rightarrow> operation_id \<Rightarrow> nat \<Rightarrow> bytes \<Rightarrow> core_error + log_entry" where
  "from_shared_command H position operation version command =
     (if \<not> position_valid position \<or> position = GENESIS \<or> version = 0
         \<or> (version = TERM_CONFIRMATION_VERSION \<and> command \<noteq> TERM_CONFIRMATION_BYTES)
         \<or> length command > MAXIMUM_LOG_ENTRY_BYTES
      then Inl InvalidInput
      else Inr \<lparr>le_position = position, le_operation_id = operation, le_command_version = version,
                le_command = command, le_command_digest = command_digest H version command\<rparr>)"

definition log_entry_new ::
  "(bytes \<Rightarrow> bytes) \<Rightarrow> log_position \<Rightarrow> operation_id \<Rightarrow> nat \<Rightarrow> bytes \<Rightarrow> core_error + log_entry" where
  "log_entry_new H position operation version command =
     (if length command > MAXIMUM_LOG_ENTRY_BYTES then Inl InvalidInput
      else from_shared_command H position operation version command)"

definition entry_validate :: "(bytes \<Rightarrow> bytes) \<Rightarrow> log_entry \<Rightarrow> core_error + unit" where
  "entry_validate H e =
     (if \<not> position_valid (le_position e) \<or> le_position e = GENESIS \<or> le_command_version e = 0
         \<or> (le_command_version e = TERM_CONFIRMATION_VERSION \<and> le_command e \<noteq> TERM_CONFIRMATION_BYTES)
         \<or> length (le_command e) > MAXIMUM_LOG_ENTRY_BYTES
         \<or> le_command_digest e \<noteq> command_digest H (le_command_version e) (le_command e)
      then Inl InvalidInput else Inr ())"

definition entry_digest :: "(bytes \<Rightarrow> bytes) \<Rightarrow> log_entry \<Rightarrow> bytes" where
  "entry_digest H e =
     H (ascii ''meshspan.consensus.log-entry.v1'' @ be_bytes 8 (entry_term e) @ be_bytes 8 (entry_index e) @
        operation_bytes (le_operation_id e) @ be_bytes 2 (le_command_version e) @ le_command_digest e)"

definition is_term_confirmation :: "log_entry \<Rightarrow> bool" where
  "is_term_confirmation e =
     (le_command_version e = TERM_CONFIRMATION_VERSION \<and> le_command e = TERM_CONFIRMATION_BYTES)"

section \<open>Correlation identities and roles\<close>

datatype persistence_id = PersistenceId (persistence_number: nat)
datatype proposal_id = ProposalId (proposal_number: nat)
datatype read_barrier_id = ReadBarrierId (barrier_number: nat)
datatype append_probe_id = AppendProbeId (probe_number: nat)

instantiation read_barrier_id :: linorder
begin
definition less_eq_read_barrier_id :: "read_barrier_id \<Rightarrow> read_barrier_id \<Rightarrow> bool" where
  "less_eq_read_barrier_id a b = (barrier_number a \<le> barrier_number b)"
definition less_read_barrier_id :: "read_barrier_id \<Rightarrow> read_barrier_id \<Rightarrow> bool" where
  "less_read_barrier_id a b = (barrier_number a < barrier_number b)"
instance
  by standard (auto simp: less_eq_read_barrier_id_def less_read_barrier_id_def read_barrier_id.expand)
end

instantiation append_probe_id :: linorder
begin
definition less_eq_append_probe_id :: "append_probe_id \<Rightarrow> append_probe_id \<Rightarrow> bool" where
  "less_eq_append_probe_id a b = (probe_number a \<le> probe_number b)"
definition less_append_probe_id :: "append_probe_id \<Rightarrow> append_probe_id \<Rightarrow> bool" where
  "less_append_probe_id a b = (probe_number a < probe_number b)"
instance
  by standard (auto simp: less_eq_append_probe_id_def less_append_probe_id_def append_probe_id.expand)
end

datatype role = Follower | Candidate | Leader

section \<open>Members and configuration\<close>

datatype member_incarnations = MemberIncarnations (incarnation_values: "(node_id, nat) fmap")

definition incarnation :: "member_incarnations \<Rightarrow> node_id \<Rightarrow> nat option" where
  "incarnation m node = fmlookup (incarnation_values m) node"

definition incarnations_for_members ::
  "(node_id, nat) fmap \<Rightarrow> node_id fset \<Rightarrow> core_error + member_incarnations" where
  "incarnations_for_members values expected =
     (if fmdom values \<noteq> expected \<or> fBex (fmran values) (\<lambda>v. v = 0) then Inl InvalidConfiguration
      else Inr (MemberIncarnations values))"

definition incarnations_new ::
  "(node_id, nat) fmap \<Rightarrow> compiled_quorum_plan \<Rightarrow> core_error + member_incarnations" where
  "incarnations_new values plan =
     incarnations_for_members values (spec_voters (plan_spec plan) |\<union>| spec_learners (plan_spec plan))"

definition matches_members :: "member_incarnations \<Rightarrow> node_id fset \<Rightarrow> bool" where
  "matches_members m members =
     (fmdom (incarnation_values m) = members \<and> fBall (fmran (incarnation_values m)) (\<lambda>v. v > 0))"

definition preserves_incarnations :: "member_incarnations \<Rightarrow> member_incarnations \<Rightarrow> node_id fset \<Rightarrow> bool" where
  "preserves_incarnations m previous incumbents =
     fBall incumbents (\<lambda>node. incarnation m node = incarnation previous node)"

record core_config =
  cfg_partition_id :: partition_id
  cfg_local_node_id :: node_id
  cfg_local_incarnation :: nat
  cfg_plan :: compiled_quorum_plan
  cfg_member_incarnations :: member_incarnations

record durable_core_state =
  dur_current_term :: nat
  dur_voted_for :: "node_id option"
  dur_log :: "log_entry list"
  dur_applied_index :: nat

definition durable_default :: durable_core_state where
  "durable_default = \<lparr>dur_current_term = 0, dur_voted_for = None, dur_log = [], dur_applied_index = 0\<rparr>"

section \<open>Messages\<close>

record vote_request =
  vreq_term :: nat
  vreq_candidate :: node_id
  vreq_candidate_incarnation :: nat
  vreq_last_log :: log_position
  vreq_membership_epoch :: nat
  vreq_plan_digest :: bytes

record vote_response =
  vres_term :: nat
  vres_granted :: bool
  vres_membership_epoch :: nat
  vres_plan_digest :: bytes

record append_request =
  areq_probe_id :: append_probe_id
  areq_term :: nat
  areq_leader :: node_id
  areq_leader_incarnation :: nat
  areq_previous :: log_position
  areq_previous_digest :: bytes
  areq_entries :: "log_entry list"
  areq_leader_commit_index :: nat
  areq_read_barrier_id :: "read_barrier_id option"
  areq_membership_epoch :: nat
  areq_plan_digest :: bytes

record append_response =
  ares_probe_id :: "append_probe_id option"
  ares_matched_digest :: bytes
  ares_term :: nat
  ares_accepted :: bool
  ares_matched_index :: nat
  ares_next_index_hint :: nat
  ares_read_barrier_id :: "read_barrier_id option"
  ares_membership_epoch :: nat
  ares_plan_digest :: bytes

record committed_prefix =
  pre_previous :: log_position
  pre_previous_digest :: bytes
  pre_entries :: "log_entry list"
  pre_committed_index :: nat
  pre_membership_epoch :: nat
  pre_plan_digest :: bytes

datatype core_message =
    VoteRequest vote_request
  | VoteResponse vote_response
  | AppendRequest append_request
  | AppendResponse append_response
  | CommittedPrefix committed_prefix

datatype core_input =
    ElectionTimeout
  | Heartbeat
  | Message node_id nat core_message
  | Persisted persistence_id
  | Propose proposal_id operation_id nat bytes
  | BeginReadBarrier read_barrier_id
  | CancelReadBarrier read_barrier_id
  | ConfirmTerm proposal_id operation_id
  | ActivateJointPlan joint_quorum_plan member_incarnations log_position
  | ActivateStablePlan compiled_quorum_plan member_incarnations log_position
  | AppliedThrough nat

section \<open>Durable mutations and effects\<close>

record durable_quorum_plan =
  dqp_active_plan :: active_quorum_plan
  dqp_activated_position :: log_position

record durable_mutation =
  mut_vote_state :: "(nat \<times> node_id option) option"
  mut_truncate_from :: "nat option"
  mut_append :: "log_entry list"
  mut_membership_epoch :: "nat option"
  mut_quorum_plan :: "durable_quorum_plan option"

datatype core_effect =
    Persist persistence_id durable_mutation
  | Send node_id core_message
  | RoleChanged role nat
  | ProposalAppended proposal_id log_position
  | CommitReady "log_entry list"
  | ReadBarrierReady read_barrier_id nat
  | Rejected core_error

section \<open>Validation of replicated batches\<close>

definition validate_replication_bytes :: "log_entry list \<Rightarrow> core_error + unit" where
  "validate_replication_bytes entries =
     try_r (try_fold (\<lambda>remaining e. ok_or InvalidInput (checked_sub remaining (length (le_command e))))
       MAXIMUM_APPEND_COMMAND_BYTES entries) (\<lambda>_. Inr ())"

fun validate_append_loop :: "(bytes \<Rightarrow> bytes) \<Rightarrow> nat \<Rightarrow> nat \<Rightarrow> log_entry list \<Rightarrow> core_error + unit" where
  "validate_append_loop H t expected [] = Inr ()"
| "validate_append_loop H t expected (e # es) =
     try_r (entry_validate H e) (\<lambda>_.
       if entry_index e \<noteq> expected \<or> entry_term e > t then Inl InvalidInput
       else try_r (ok_or Exhausted (checked_add u64_max expected 1)) (\<lambda>expected'.
         validate_append_loop H t expected' es))"

definition validate_append_entries :: "(bytes \<Rightarrow> bytes) \<Rightarrow> append_request \<Rightarrow> core_error + unit" where
  "validate_append_entries H request =
     (if areq_term request = 0 \<or> probe_number (areq_probe_id request) = 0
         \<or> \<not> position_valid (areq_previous request)
         \<or> length (areq_entries request) > MAXIMUM_APPEND_ENTRIES
         \<or> (case areq_read_barrier_id request of None \<Rightarrow> False | Some b \<Rightarrow> barrier_number b = 0)
         \<or> (areq_previous request = GENESIS \<and> areq_previous_digest request \<noteq> ZERO_DIGEST)
      then Inl InvalidInput
      else try_r (validate_replication_bytes (areq_entries request)) (\<lambda>_.
        try_r (ok_or Exhausted (checked_add u64_max (pos_index (areq_previous request)) 1)) (\<lambda>expected.
          validate_append_loop H (areq_term request) expected (areq_entries request))))"

fun validate_prefix_loop ::
  "(bytes \<Rightarrow> bytes) \<Rightarrow> nat \<Rightarrow> nat \<Rightarrow> log_entry list \<Rightarrow> core_error + nat" where
  "validate_prefix_loop H index t [] = Inr index"
| "validate_prefix_loop H index t (e # es) =
     try_r (entry_validate H e) (\<lambda>_.
     try_r (ok_or Exhausted (checked_add u64_max index 1)) (\<lambda>index'.
       if entry_index e \<noteq> index' \<or> entry_term e < t then Inl InvalidInput
       else validate_prefix_loop H index' (entry_term e) es))"

definition validate_committed_prefix :: "(bytes \<Rightarrow> bytes) \<Rightarrow> committed_prefix \<Rightarrow> core_error + unit" where
  "validate_committed_prefix H prefix =
     (if \<not> position_valid (pre_previous prefix)
         \<or> length (pre_entries prefix) > MAXIMUM_APPEND_ENTRIES
         \<or> pre_membership_epoch prefix = 0 \<or> pre_committed_index prefix = 0
         \<or> (pre_previous prefix = GENESIS \<and> pre_previous_digest prefix \<noteq> ZERO_DIGEST)
      then Inl InvalidInput
      else try_r (validate_replication_bytes (pre_entries prefix)) (\<lambda>_.
        try_r (validate_prefix_loop H (pos_index (pre_previous prefix)) (pos_term (pre_previous prefix))
          (pre_entries prefix)) (\<lambda>index.
          if index \<noteq> pre_committed_index prefix then Inl InvalidInput else Inr ())))"

section \<open>Replication budget (replication_budget.rs)\<close>

record replication_batch_budget =
  budget_max_bytes :: nat
  budget_entry_overhead :: nat

definition budget_new :: "nat \<Rightarrow> nat \<Rightarrow> core_error + replication_batch_budget" where
  "budget_new max_bytes overhead =
     (if max_bytes \<le> overhead then Inl InvalidConfiguration
      else Inr \<lparr>budget_max_bytes = max_bytes, budget_entry_overhead = overhead\<rparr>)"

definition permits_command :: "replication_batch_budget \<Rightarrow> nat \<Rightarrow> bool" where
  "permits_command b command_bytes =
     (command_bytes \<le> MAXIMUM_APPEND_COMMAND_BYTES \<and>
      (case checked_add u64_max command_bytes (budget_entry_overhead b) of
         None \<Rightarrow> False | Some framed \<Rightarrow> framed \<le> budget_max_bytes b))"

definition budget_default :: replication_batch_budget where
  "budget_default = \<lparr>budget_max_bytes = MAXIMUM_APPEND_COMMAND_BYTES, budget_entry_overhead = 0\<rparr>"

end
