(* ===== verification/Membership.thy ===== *)
theory Membership
  imports Core_Types
begin

text \<open>
  Automatic membership planning (\<open>membership.rs\<close>): removal of one member, admission of one learner and
  promotion of one caught-up learner, each through a joint phase over flat plans.

  The lemmas characterise exactly when each planner succeeds and what its joint phase contains.
\<close>

section \<open>Planners\<close>

record catch_up_evidence =
  ev_node_id :: node_id
  ev_incarnation :: nat
  ev_committed_position :: log_position
  ev_committed_entry_digest :: bytes
  ev_promotion_eligible :: bool

record planned_promotion =
  promoted_node_id :: node_id
  promotion_joint_plan :: joint_quorum_plan

record planned_learner_admission =
  admitted_node_id :: node_id
  admission_joint_plan :: joint_quorum_plan
  admission_member_incarnations :: member_incarnations

record planned_member_removal =
  removed_node_id :: node_id
  removal_joint_plan :: joint_quorum_plan

text \<open>The successor flat plan at the next epoch, as all three planners build it.\<close>

definition next_flat_plan ::
  "(bytes \<Rightarrow> bytes) \<Rightarrow> compiled_quorum_plan \<Rightarrow> quorum_plan_id \<Rightarrow> node_id fset \<Rightarrow> node_id fset \<Rightarrow>
     membership_change_error + compiled_quorum_plan" where
  "next_flat_plan H old new_plan_id voters learners =
     try_r (ok_or InvalidTransition (checked_add u64_max (spec_membership_epoch (plan_spec old)) 1)) (\<lambda>epoch.
     try_r (map_err (\<lambda>_. InvalidTransition) (flat_plan new_plan_id epoch voters learners)) (\<lambda>spec.
       map_err (\<lambda>_. InvalidTransition) (compile_plan H spec)))"

definition plan_flat_member_removal ::
  "(bytes \<Rightarrow> bytes) \<Rightarrow> compiled_quorum_plan \<Rightarrow> member_incarnations \<Rightarrow> node_id \<Rightarrow> nat \<Rightarrow> quorum_plan_id \<Rightarrow>
     membership_change_error + planned_member_removal" where
  "plan_flat_member_removal H old accepted node inc new_plan_id =
     (if inc = 0 \<or> \<not> matches_members accepted (plan_members old) \<or> incarnation accepted node \<noteq> Some inc
      then Inl InvalidTarget
      else let was_voter = node |\<in>| spec_voters (plan_spec old);
               voters = spec_voters (plan_spec old) |-| {|node|};
               was_learner = \<not> was_voter \<and> node |\<in>| spec_learners (plan_spec old);
               learners = (if was_voter then spec_learners (plan_spec old)
                           else spec_learners (plan_spec old) |-| {|node|})
           in if \<not> (was_voter \<or> was_learner) \<or> voters = {||} then Inl InvalidTarget
              else try_r (next_flat_plan H old new_plan_id voters learners) (\<lambda>new.
                try_r (joint_plan_new H old new) (\<lambda>joint.
                  Inr \<lparr>removed_node_id = node, removal_joint_plan = joint\<rparr>)))"

definition plan_next_flat_learner_admission ::
  "(bytes \<Rightarrow> bytes) \<Rightarrow> compiled_quorum_plan \<Rightarrow> member_incarnations \<Rightarrow> (node_id, nat) fmap \<Rightarrow> quorum_plan_id \<Rightarrow>
     membership_change_error + planned_learner_admission option" where
  "plan_next_flat_learner_admission H old accepted candidates new_plan_id =
     (if \<not> matches_members accepted (plan_members old)
         \<or> list_ex (\<lambda>(node, inc). inc = 0 \<or> node |\<in>| plan_members old) (btree_items candidates)
      then Inl InvalidTarget
      else case first_key_value candidates of
          None \<Rightarrow> Inr None
        | Some (node, inc) \<Rightarrow>
            try_r (next_flat_plan H old new_plan_id (spec_voters (plan_spec old))
                (finsert node (spec_learners (plan_spec old)))) (\<lambda>new.
            try_r (map_err (\<lambda>_. InvalidTarget)
                (incarnations_new (fmupd node inc (incarnation_values accepted)) new)) (\<lambda>member_incs.
            try_r (joint_plan_new H old new) (\<lambda>joint.
              Inr (Some \<lparr>admitted_node_id = node, admission_joint_plan = joint,
                         admission_member_incarnations = member_incs\<rparr>)))))"

text \<open>The evidence test of one learner.\<close>

definition caught_up ::
  "member_incarnations \<Rightarrow> (node_id, catch_up_evidence) fmap \<Rightarrow> log_position \<Rightarrow> bytes \<Rightarrow> node_id \<Rightarrow> bool" where
  "caught_up accepted evidence position digest node =
     (case fmlookup evidence node of
        None \<Rightarrow> False
      | Some c \<Rightarrow> ev_node_id c = node \<and> ev_promotion_eligible c \<and> ev_incarnation c \<noteq> 0
          \<and> incarnation accepted node = Some (ev_incarnation c)
          \<and> ev_committed_position c = position \<and> ev_committed_entry_digest c = digest)"

definition plan_next_flat_promotion ::
  "(bytes \<Rightarrow> bytes) \<Rightarrow> compiled_quorum_plan \<Rightarrow> member_incarnations \<Rightarrow> (node_id, catch_up_evidence) fmap \<Rightarrow>
     log_position \<Rightarrow> bytes \<Rightarrow> nat \<Rightarrow> quorum_plan_id \<Rightarrow> membership_change_error + planned_promotion option" where
  "plan_next_flat_promotion H old accepted evidence position digest desired_voters new_plan_id =
     (let current_voters = fcard (spec_voters (plan_spec old))
      in if desired_voters < current_voters \<or> desired_voters > 9 \<or> pos_index position = 0
         then Inl InvalidTarget
         else if current_voters = desired_voters then Inr None
         else try_r (ok_or NoCaughtUpLearner
             (List.find (caught_up accepted evidence position digest)
               (btree_iter (spec_learners (plan_spec old))))) (\<lambda>node.
           try_r (next_flat_plan H old new_plan_id (finsert node (spec_voters (plan_spec old)))
               (spec_learners (plan_spec old) |-| {|node|})) (\<lambda>new.
           try_r (joint_plan_new H old new) (\<lambda>joint.
             Inr (Some \<lparr>promoted_node_id = node, promotion_joint_plan = joint\<rparr>)))))"

definition recommended_voter_count :: "nat \<Rightarrow> nat" where
  "recommended_voter_count n =
     (if n = 0 then 0 else if n = 1 then 1 else if n = 2 then 2
      else let bounded = (if n > 9 then 9 else n)
           in if bounded mod 2 = 0 then bounded - 1 else bounded)"

section \<open>Lemmas\<close>

text \<open>The successor plan exists for every valid membership while an epoch is left.\<close>

lemma next_flat_plan_ok:
  assumes m: "validate_membership voters learners = Inr ()"
    and e: "spec_membership_epoch (plan_spec old) < u64_max"
  shows "\<exists>new. next_flat_plan H old new_plan_id voters learners = Inr new"
proof -
  note flat = flat_plan_Inr[OF m, of new_plan_id "Suc (spec_membership_epoch (plan_spec old))"]
  obtain new where "compile_plan H (projr (flat_plan new_plan_id (Suc (spec_membership_epoch (plan_spec old))) voters learners)) = Inr new"
    using flat_plan_compiles[OF flat] flat by auto
  then show ?thesis
    using e flat by (simp add: next_flat_plan_def checked_add_def)
qed

lemma next_flat_plan_Inr:
  assumes "next_flat_plan H old new_plan_id voters learners = Inr new"
  shows "valid_plan H new" "spec_voters (plan_spec new) = voters" "spec_learners (plan_spec new) = learners"
    "spec_eligible_leaders (plan_spec new) = voters" "spec_plan_id (plan_spec new) = new_plan_id"
    "spec_membership_epoch (plan_spec new) = Suc (spec_membership_epoch (plan_spec old))"
    "spec_membership_epoch (plan_spec old) < u64_max" "validate_membership voters learners = Inr ()"
proof -
  obtain spec where s: "flat_plan new_plan_id (Suc (spec_membership_epoch (plan_spec old))) voters learners = Inr spec"
    "compile_plan H spec = Inr new" "spec_membership_epoch (plan_spec old) < u64_max"
    using assms by (auto simp: next_flat_plan_def result_simps)
  note m = flat_plan_InrD[OF s(1)]
  show "spec_membership_epoch (plan_spec old) < u64_max" "validate_membership voters learners = Inr ()"
    by (rule s(3), rule m)
  show "valid_plan H new" using compile_plan_valid[OF s(2)] by simp
  have spec: "plan_spec new = projr (flat_plan new_plan_id (Suc (spec_membership_epoch (plan_spec old))) voters learners)"
    using compile_plan_valid[OF s(2)] s(1) by simp
  show "spec_voters (plan_spec new) = voters" "spec_learners (plan_spec new) = learners"
    "spec_eligible_leaders (plan_spec new) = voters" "spec_plan_id (plan_spec new) = new_plan_id"
    "spec_membership_epoch (plan_spec new) = Suc (spec_membership_epoch (plan_spec old))"
    unfolding spec flat_plan_Inr[OF m] by simp_all
qed

text \<open>From a valid plan a planner fails only where its own conditions say so.\<close>

lemma next_joint_ok:
  assumes "valid_plan H old" "validate_membership voters learners = Inr ()"
    "spec_membership_epoch (plan_spec old) < u64_max"
  obtains new joint where "next_flat_plan H old new_plan_id voters learners = Inr new"
    "joint_plan_new H old new = Inr joint"
proof -
  obtain new where new: "next_flat_plan H old new_plan_id voters learners = Inr new"
    using next_flat_plan_ok assms by blast
  then obtain joint where "joint_plan_new H old new = Inr joint"
    using joint_plan_new_ok[OF assms(1) next_flat_plan_Inr(1)[OF new] next_flat_plan_Inr(6)[OF new]]
      next_flat_plan_Inr(6)[OF new] assms(3) by auto
  with new show thesis by (rule that)
qed

lemma validate_membership_Inr:
  "validate_membership voters learners = Inr () \<longleftrightarrow>
     voters \<noteq> {||} \<and> fcard voters \<le> MAXIMUM_VOTERS \<and> fcard learners \<le> MAXIMUM_LEARNERS \<and>
     voters |\<inter>| learners = {||}"
  by (auto simp: validate_membership_def)

lemma fcard_fminus_le: "fcard (A |-| B) \<le> fcard A"
  by (rule fcard_mono) auto

lemma header_membership: "header_ok spec \<Longrightarrow> validate_membership (spec_voters spec) (spec_learners spec) = Inr ()"
  by (simp add: header_ok_def validate_membership_Inr)

lemma valid_plan_membership:
  "valid_plan H plan \<Longrightarrow> validate_membership (spec_voters (plan_spec plan)) (spec_learners (plan_spec plan)) = Inr ()"
  by (rule header_membership[OF valid_plan_header_ok])

subsection \<open>Removal\<close>

lemma removal_membership:
  assumes "valid_plan H old" "spec_voters (plan_spec old) |-| {|node|} \<noteq> {||}"
  shows "validate_membership (spec_voters (plan_spec old) |-| {|node|}) (spec_learners (plan_spec old) |-| {|node|}) = Inr ()"
    and "node |\<in>| spec_voters (plan_spec old) \<Longrightarrow> spec_learners (plan_spec old) |-| {|node|} = spec_learners (plan_spec old)"
  using valid_plan_membership[OF assms(1)] assms(2)
    fcard_fminus_le[of "spec_voters (plan_spec old)" "{|node|}"]
    fcard_fminus_le[of "spec_learners (plan_spec old)" "{|node|}"]
  by (auto simp: validate_membership_Inr)

definition removal_target :: "compiled_quorum_plan \<Rightarrow> member_incarnations \<Rightarrow> node_id \<Rightarrow> nat \<Rightarrow> bool" where
  "removal_target old accepted node inc \<longleftrightarrow>
     inc \<noteq> 0 \<and> matches_members accepted (plan_members old) \<and> incarnation accepted node = Some inc \<and>
     node |\<in>| plan_members old \<and> spec_voters (plan_spec old) \<noteq> {|node|}"

lemma fminus_singleton_empty: "A |-| {|x|} = {||} \<longleftrightarrow> A = {||} \<or> A = {|x|}"
  by auto

lemma plan_removal_cases:
  assumes v: "valid_plan H old"
  shows "plan_flat_member_removal H old accepted node inc new_plan_id =
    (if \<not> removal_target old accepted node inc then Inl InvalidTarget
     else try_r (next_flat_plan H old new_plan_id (spec_voters (plan_spec old) |-| {|node|})
                 (spec_learners (plan_spec old) |-| {|node|})) (\<lambda>new.
       try_r (joint_plan_new H old new) (\<lambda>joint. Inr \<lparr>removed_node_id = node, removal_joint_plan = joint\<rparr>)))"
proof -
  have "spec_voters (plan_spec old) \<noteq> {||}"
    using valid_plan_membership[OF v] by (simp add: validate_membership_Inr)
  moreover have "spec_voters (plan_spec old) |-| {|node|} \<noteq> {||} \<Longrightarrow> node |\<in>| spec_voters (plan_spec old) \<Longrightarrow>
      spec_learners (plan_spec old) |-| {|node|} = spec_learners (plan_spec old)"
    using removal_membership(2)[OF v] by blast
  ultimately show ?thesis
    by (auto simp: plan_flat_member_removal_def removal_target_def Let_def fminus_singleton_empty plan_members_def)
qed

lemma plan_removal_ok:
  assumes v: "valid_plan H old"
  shows "(\<exists>planned. plan_flat_member_removal H old accepted node inc new_plan_id = Inr planned) \<longleftrightarrow>
    removal_target old accepted node inc \<and> spec_membership_epoch (plan_spec old) < u64_max"
proof
  assume r: "removal_target old accepted node inc \<and> spec_membership_epoch (plan_spec old) < u64_max"
  have "spec_voters (plan_spec old) |-| {|node|} \<noteq> {||}"
    using r valid_plan_membership[OF v] by (auto simp: removal_target_def fminus_singleton_empty validate_membership_Inr)
  from next_joint_ok[OF v removal_membership(1)[OF v this]] r obtain new joint where
    "next_flat_plan H old new_plan_id (spec_voters (plan_spec old) |-| {|node|})
       (spec_learners (plan_spec old) |-| {|node|}) = Inr new" "joint_plan_new H old new = Inr joint"
    by blast
  then show "\<exists>planned. plan_flat_member_removal H old accepted node inc new_plan_id = Inr planned"
    using r by (simp add: plan_removal_cases[OF v])
next
  assume "\<exists>planned. plan_flat_member_removal H old accepted node inc new_plan_id = Inr planned"
  then show "removal_target old accepted node inc \<and> spec_membership_epoch (plan_spec old) < u64_max"
    using next_flat_plan_Inr(7) by (fastforce simp: plan_removal_cases[OF v] result_simps split: if_splits)
qed

lemma plan_removal_Inr:
  assumes v: "valid_plan H old"
    and p: "plan_flat_member_removal H old accepted node inc new_plan_id = Inr planned"
  shows "removed_node_id planned = node" "valid_joint H (removal_joint_plan planned)"
    "joint_old (removal_joint_plan planned) = old"
    "spec_voters (plan_spec (joint_new (removal_joint_plan planned))) = spec_voters (plan_spec old) |-| {|node|}"
    "spec_learners (plan_spec (joint_new (removal_joint_plan planned))) = spec_learners (plan_spec old) |-| {|node|}"
proof -
  obtain new joint where *: "next_flat_plan H old new_plan_id (spec_voters (plan_spec old) |-| {|node|})
       (spec_learners (plan_spec old) |-| {|node|}) = Inr new" "joint_plan_new H old new = Inr joint"
    "planned = \<lparr>removed_node_id = node, removal_joint_plan = joint\<rparr>"
    using p by (auto simp: plan_removal_cases[OF v] result_simps split: if_splits)
  show "removed_node_id planned = node" "valid_joint H (removal_joint_plan planned)"
    "joint_old (removal_joint_plan planned) = old"
    "spec_voters (plan_spec (joint_new (removal_joint_plan planned))) = spec_voters (plan_spec old) |-| {|node|}"
    "spec_learners (plan_spec (joint_new (removal_joint_plan planned))) = spec_learners (plan_spec old) |-| {|node|}"
    using *(3) joint_plan_new_valid[OF v next_flat_plan_Inr(1)[OF *(1)] *(2)] joint_plan_new_Inr(1,2)[OF *(2)]
      next_flat_plan_Inr(2,3)[OF *(1)] by simp_all
qed

subsection \<open>Admission\<close>

lemma first_key_value_None: "first_key_value m = None \<longleftrightarrow> m = fmempty"
proof
  assume "first_key_value m = None"
  then have "btree_iter (fmdom m) = []"
    by (auto simp: first_key_value_def btree_items_def split: list.splits)
  then have "fmdom m = {||}"
    by (metis fset_of_list_btree_iter fset_of_list_simps(1))
  then show "m = fmempty"
    by (simp add: fmap_ext fmdom_notD)
qed (simp add: first_key_value_def btree_items_def btree_iter_def sorted_list_of_fset.rep_eq)

lemma first_key_value_Some:
  assumes "first_key_value m = Some (k, v)"
  shows "fmlookup m k = Some v" "\<And>k'. k' |\<in>| fmdom m \<Longrightarrow> k \<le> k'"
proof -
  obtain ks where ks: "btree_iter (fmdom m) = k # ks" "v = the (fmlookup m k)"
    using assms by (auto simp: first_key_value_def btree_items_def split: list.splits)
  have dom: "k |\<in>| fmdom m"
    by (metis ks(1) list.set_intros(1) set_btree_iter)
  then show "fmlookup m k = Some v"
    using ks(2) by (metis fmlookup_dom_iff option.sel)
  fix k' assume "k' |\<in>| fmdom m"
  then have "k' \<in> set (k # ks)"
    using ks(1) by (metis set_btree_iter)
  moreover have "sorted (k # ks)"
    using ks(1) by (metis sorted_btree_iter)
  ultimately show "k \<le> k'" by auto
qed

lemma list_ex_btree_items: "list_ex P (btree_items m) \<longleftrightarrow> (\<exists>k v. fmlookup m k = Some v \<and> P (k, v))"
proof -
  have "list_ex P (btree_items m) \<longleftrightarrow> (\<exists>k. k |\<in>| fmdom m \<and> P (k, the (fmlookup m k)))"
    by (auto simp: list_ex_iff btree_items_def)
  also have "\<dots> \<longleftrightarrow> (\<exists>k v. fmlookup m k = Some v \<and> P (k, v))"
    by (metis fmlookup_dom_iff option.sel)
  finally show ?thesis .
qed

definition candidates_ok :: "compiled_quorum_plan \<Rightarrow> member_incarnations \<Rightarrow> (node_id, nat) fmap \<Rightarrow> bool" where
  "candidates_ok old accepted candidates \<longleftrightarrow>
     matches_members accepted (plan_members old) \<and>
     (\<forall>node inc. fmlookup candidates node = Some inc \<longrightarrow> inc \<noteq> 0 \<and> node |\<notin>| plan_members old)"

lemma fBall_fmran: "fBall (fmran m) P \<longleftrightarrow> (\<forall>k v. fmlookup m k = Some v \<longrightarrow> P v)"
  by (metis fmlookup_ran_iff)

lemma admission_incarnations:
  assumes "matches_members accepted (plan_members old)" "inc \<noteq> 0"
    and "spec_voters (plan_spec new) |\<union>| spec_learners (plan_spec new) = finsert node (plan_members old)"
  shows "incarnations_new (fmupd node inc (incarnation_values accepted)) new =
    Inr (MemberIncarnations (fmupd node inc (incarnation_values accepted)))"
proof -
  have "\<not> fBex (fmran (fmupd node inc (incarnation_values accepted))) (\<lambda>v. v = 0)"
    using assms(1,2) by (auto simp: matches_members_def fBall_fmran fmlookup_ran_iff split: if_splits)
  then show ?thesis
    using assms by (simp add: incarnations_new_def incarnations_for_members_def matches_members_def)
qed

lemma plan_admission_cases:
  assumes v: "valid_plan H old"
  shows "plan_next_flat_learner_admission H old accepted candidates new_plan_id =
    (if \<not> candidates_ok old accepted candidates then Inl InvalidTarget
     else case first_key_value candidates of
       None \<Rightarrow> Inr None
     | Some (node, inc) \<Rightarrow>
         try_r (next_flat_plan H old new_plan_id (spec_voters (plan_spec old))
                 (finsert node (spec_learners (plan_spec old)))) (\<lambda>new.
         try_r (joint_plan_new H old new) (\<lambda>joint.
           Inr (Some \<lparr>admitted_node_id = node, admission_joint_plan = joint,
             admission_member_incarnations =
               MemberIncarnations (fmupd node inc (incarnation_values accepted))\<rparr>))))"
proof -
  have guard: "\<not> matches_members accepted (plan_members old) \<or>
      list_ex (\<lambda>(node, inc). inc = 0 \<or> node |\<in>| plan_members old) (btree_items candidates) \<longleftrightarrow>
      \<not> candidates_ok old accepted candidates"
    by (auto simp: candidates_ok_def list_ex_btree_items)
  have inc: "map_err g (incarnations_new (fmupd node inc (incarnation_values accepted)) new) =
      Inr (MemberIncarnations (fmupd node inc (incarnation_values accepted)))"
    if "candidates_ok old accepted candidates" "first_key_value candidates = Some (node, inc)"
      "next_flat_plan H old new_plan_id (spec_voters (plan_spec old))
        (finsert node (spec_learners (plan_spec old))) = Inr new" for node inc new and g :: "core_error \<Rightarrow> membership_change_error"
  proof -
    have "incarnations_new (fmupd node inc (incarnation_values accepted)) new =
        Inr (MemberIncarnations (fmupd node inc (incarnation_values accepted)))"
      by (rule admission_incarnations[of _ old])
        (use that first_key_value_Some(1)[OF that(2)] next_flat_plan_Inr(2,3)[OF that(3)] in
          \<open>auto simp: candidates_ok_def plan_members_def\<close>)
    then show ?thesis by simp
  qed
  show ?thesis
    unfolding plan_next_flat_learner_admission_def guard
    by (auto split: option.splits intro!: try_r_cong simp: inc)
qed

lemma admission_membership:
  assumes "valid_plan H old" "node |\<notin>| plan_members old" "fcard (spec_learners (plan_spec old)) < MAXIMUM_LEARNERS"
  shows "validate_membership (spec_voters (plan_spec old)) (finsert node (spec_learners (plan_spec old))) = Inr ()"
  using valid_plan_membership[OF assms(1)] assms(2,3)
  by (auto simp: validate_membership_Inr plan_members_def fcard_finsert_if)

lemma plan_admission_None:
  assumes "valid_plan H old" "candidates_ok old accepted candidates"
  shows "plan_next_flat_learner_admission H old accepted candidates new_plan_id = Inr None \<longleftrightarrow> candidates = fmempty"
  using assms(2) first_key_value_None[of candidates]
  by (auto simp: plan_admission_cases[OF assms(1)] result_simps split: option.splits)

lemma plan_admission_ok:
  assumes v: "valid_plan H old" and c: "candidates_ok old accepted candidates" and ne: "candidates \<noteq> fmempty"
  shows "(\<exists>planned. plan_next_flat_learner_admission H old accepted candidates new_plan_id = Inr (Some planned)) \<longleftrightarrow>
    fcard (spec_learners (plan_spec old)) < MAXIMUM_LEARNERS \<and> spec_membership_epoch (plan_spec old) < u64_max"
proof -
  obtain node inc where f: "first_key_value candidates = Some (node, inc)"
    using first_key_value_None[of candidates] ne by (metis not_None_eq surj_pair)
  have new: "node |\<notin>| plan_members old"
    using c first_key_value_Some(1)[OF f] by (auto simp: candidates_ok_def)
  show ?thesis
  proof
    assume b: "fcard (spec_learners (plan_spec old)) < MAXIMUM_LEARNERS \<and> spec_membership_epoch (plan_spec old) < u64_max"
    from next_joint_ok[OF v admission_membership[OF v new]] b obtain new joint where
      "next_flat_plan H old new_plan_id (spec_voters (plan_spec old)) (finsert node (spec_learners (plan_spec old))) = Inr new"
      "joint_plan_new H old new = Inr joint"
      by blast
    then show "\<exists>planned. plan_next_flat_learner_admission H old accepted candidates new_plan_id = Inr (Some planned)"
      using c f by (simp add: plan_admission_cases[OF v])
  next
    assume "\<exists>planned. plan_next_flat_learner_admission H old accepted candidates new_plan_id = Inr (Some planned)"
    then obtain new where n: "next_flat_plan H old new_plan_id (spec_voters (plan_spec old))
        (finsert node (spec_learners (plan_spec old))) = Inr new"
      using c f by (auto simp: plan_admission_cases[OF v] result_simps)
    have "node |\<notin>| spec_learners (plan_spec old)"
      using new by (simp add: plan_members_def)
    then show "fcard (spec_learners (plan_spec old)) < MAXIMUM_LEARNERS \<and> spec_membership_epoch (plan_spec old) < u64_max"
      using next_flat_plan_Inr(7,8)[OF n] by (auto simp: validate_membership_Inr fcard_finsert_if)
  qed
qed

lemma plan_admission_Inr:
  assumes v: "valid_plan H old"
    and p: "plan_next_flat_learner_admission H old accepted candidates new_plan_id = Inr (Some planned)"
  shows "candidates_ok old accepted candidates"
    "\<exists>inc. fmlookup candidates (admitted_node_id planned) = Some inc \<and>
       admission_member_incarnations planned =
         MemberIncarnations (fmupd (admitted_node_id planned) inc (incarnation_values accepted))"
    "\<And>node. node |\<in>| fmdom candidates \<Longrightarrow> admitted_node_id planned \<le> node"
    "valid_joint H (admission_joint_plan planned)" "joint_old (admission_joint_plan planned) = old"
    "spec_voters (plan_spec (joint_new (admission_joint_plan planned))) = spec_voters (plan_spec old)"
    "spec_learners (plan_spec (joint_new (admission_joint_plan planned))) =
       finsert (admitted_node_id planned) (spec_learners (plan_spec old))"
proof -
  obtain node inc new joint where *: "candidates_ok old accepted candidates"
    "first_key_value candidates = Some (node, inc)"
    "next_flat_plan H old new_plan_id (spec_voters (plan_spec old)) (finsert node (spec_learners (plan_spec old))) = Inr new"
    "joint_plan_new H old new = Inr joint"
    "planned = \<lparr>admitted_node_id = node, admission_joint_plan = joint, admission_member_incarnations =
       MemberIncarnations (fmupd node inc (incarnation_values accepted))\<rparr>"
    using p by (auto simp: plan_admission_cases[OF v] result_simps split: if_splits option.splits)
  show "candidates_ok old accepted candidates" by (rule *(1))
  show "\<exists>inc. fmlookup candidates (admitted_node_id planned) = Some inc \<and>
       admission_member_incarnations planned =
         MemberIncarnations (fmupd (admitted_node_id planned) inc (incarnation_values accepted))"
    using *(5) first_key_value_Some(1)[OF *(2)] by simp
  show "admitted_node_id planned \<le> n" if "n |\<in>| fmdom candidates" for n
    using *(5) first_key_value_Some(2)[OF *(2) that] by simp
  show "valid_joint H (admission_joint_plan planned)" "joint_old (admission_joint_plan planned) = old"
    "spec_voters (plan_spec (joint_new (admission_joint_plan planned))) = spec_voters (plan_spec old)"
    "spec_learners (plan_spec (joint_new (admission_joint_plan planned))) =
       finsert (admitted_node_id planned) (spec_learners (plan_spec old))"
    using *(5) joint_plan_new_valid[OF v next_flat_plan_Inr(1)[OF *(3)] *(4)] joint_plan_new_Inr(1,2)[OF *(4)]
      next_flat_plan_Inr(2,3)[OF *(3)] by simp_all
qed

subsection \<open>Promotion\<close>

lemma find_sorted_Some:
  assumes "List.find P (btree_iter s) = Some x"
  shows "P x" "x |\<in>| s" "\<And>y. y |\<in>| s \<Longrightarrow> P y \<Longrightarrow> x \<le> y"
proof -
  obtain i where i: "i < length (btree_iter s)" "P (btree_iter s ! i)" "x = btree_iter s ! i"
    "\<forall>j<i. \<not> P (btree_iter s ! j)"
    using assms by (auto simp: find_Some_iff)
  show "P x" using i by simp
  show "x |\<in>| s" using i by (metis nth_mem set_btree_iter)
  fix y assume y: "y |\<in>| s" "P y"
  then have "y \<in> set (btree_iter s)" by simp
  then obtain j where j: "j < length (btree_iter s)" "btree_iter s ! j = y"
    by (metis in_set_conv_nth)
  have "i \<le> j" using i(4) j y(2) by (meson linorder_not_less)
  then show "x \<le> y"
    using i(3) j by (metis sorted_btree_iter sorted_nth_mono)
qed

lemma find_sorted_None: "List.find P (btree_iter s) = None \<longleftrightarrow> (\<forall>x. x |\<in>| s \<longrightarrow> \<not> P x)"
  by (auto simp: find_None_iff)

definition promotion_target :: "compiled_quorum_plan \<Rightarrow> log_position \<Rightarrow> nat \<Rightarrow> bool" where
  "promotion_target old position desired \<longleftrightarrow>
     fcard (spec_voters (plan_spec old)) \<le> desired \<and> desired \<le> MAXIMUM_VOTERS \<and> pos_index position \<noteq> 0"

lemma promotion_membership:
  assumes "valid_plan H old" "node |\<in>| spec_learners (plan_spec old)"
    "fcard (spec_voters (plan_spec old)) < MAXIMUM_VOTERS"
  shows "validate_membership (finsert node (spec_voters (plan_spec old)))
    (spec_learners (plan_spec old) |-| {|node|}) = Inr ()"
  using valid_plan_membership[OF assms(1)] assms(2,3)
    fcard_fminus_le[of "spec_learners (plan_spec old)" "{|node|}"]
  by (auto simp: validate_membership_Inr fcard_finsert_if)

lemma plan_promotion_cases:
  "plan_next_flat_promotion H old accepted evidence position digest desired new_plan_id =
    (if \<not> promotion_target old position desired then Inl InvalidTarget
     else if fcard (spec_voters (plan_spec old)) = desired then Inr None
     else case List.find (caught_up accepted evidence position digest) (btree_iter (spec_learners (plan_spec old))) of
       None \<Rightarrow> Inl NoCaughtUpLearner
     | Some node \<Rightarrow>
         try_r (next_flat_plan H old new_plan_id (finsert node (spec_voters (plan_spec old)))
                 (spec_learners (plan_spec old) |-| {|node|})) (\<lambda>new.
         try_r (joint_plan_new H old new) (\<lambda>joint.
           Inr (Some \<lparr>promoted_node_id = node, promotion_joint_plan = joint\<rparr>))))"
  by (auto simp: plan_next_flat_promotion_def promotion_target_def Let_def MAXIMUM_VOTERS_def split: option.splits)

lemma plan_promotion_ok:
  assumes v: "valid_plan H old" and t: "promotion_target old position desired"
    "fcard (spec_voters (plan_spec old)) \<noteq> desired" and e: "spec_membership_epoch (plan_spec old) < u64_max"
  shows "(\<exists>planned. plan_next_flat_promotion H old accepted evidence position digest desired new_plan_id =
       Inr (Some planned)) \<longleftrightarrow>
    (\<exists>node. node |\<in>| spec_learners (plan_spec old) \<and> caught_up accepted evidence position digest node)"
proof (cases "List.find (caught_up accepted evidence position digest) (btree_iter (spec_learners (plan_spec old)))")
  case None
  have "\<not> caught_up accepted evidence position digest x" if "x |\<in>| spec_learners (plan_spec old)" for x
    using None that unfolding find_sorted_None by blast
  then show ?thesis
    using t by (auto simp: plan_promotion_cases None)
next
  case (Some node)
  note f = find_sorted_Some[OF Some]
  have "fcard (spec_voters (plan_spec old)) < MAXIMUM_VOTERS"
    using t by (auto simp: promotion_target_def)
  from next_joint_ok[OF v promotion_membership[OF v f(2) this] e] obtain new joint where
    "next_flat_plan H old new_plan_id (finsert node (spec_voters (plan_spec old)))
       (spec_learners (plan_spec old) |-| {|node|}) = Inr new" "joint_plan_new H old new = Inr joint"
    by blast
  then show ?thesis
    using t Some f by (auto simp: plan_promotion_cases)
qed

lemma plan_promotion_Inr:
  assumes v: "valid_plan H old"
    and p: "plan_next_flat_promotion H old accepted evidence position digest desired new_plan_id = Inr (Some planned)"
  shows "caught_up accepted evidence position digest (promoted_node_id planned)"
    "promoted_node_id planned |\<in>| spec_learners (plan_spec old)"
    "\<And>node. node |\<in>| spec_learners (plan_spec old) \<Longrightarrow> caught_up accepted evidence position digest node \<Longrightarrow>
       promoted_node_id planned \<le> node"
    "valid_joint H (promotion_joint_plan planned)" "joint_old (promotion_joint_plan planned) = old"
    "spec_voters (plan_spec (joint_new (promotion_joint_plan planned))) =
       finsert (promoted_node_id planned) (spec_voters (plan_spec old))"
    "spec_learners (plan_spec (joint_new (promotion_joint_plan planned))) =
       spec_learners (plan_spec old) |-| {|promoted_node_id planned|}"
    "pos_index position \<noteq> 0"
proof -
  obtain node new joint where *: "promotion_target old position desired"
    "List.find (caught_up accepted evidence position digest) (btree_iter (spec_learners (plan_spec old))) = Some node"
    "next_flat_plan H old new_plan_id (finsert node (spec_voters (plan_spec old)))
       (spec_learners (plan_spec old) |-| {|node|}) = Inr new" "joint_plan_new H old new = Inr joint"
    "planned = \<lparr>promoted_node_id = node, promotion_joint_plan = joint\<rparr>"
    using p by (auto simp: plan_promotion_cases result_simps split: if_splits option.splits)
  show "caught_up accepted evidence position digest (promoted_node_id planned)"
    "promoted_node_id planned |\<in>| spec_learners (plan_spec old)" "pos_index position \<noteq> 0"
    using *(1,5) find_sorted_Some(1,2)[OF *(2)] by (simp_all add: promotion_target_def)
  show "promoted_node_id planned \<le> n" if "n |\<in>| spec_learners (plan_spec old)" "caught_up accepted evidence position digest n" for n
    using *(5) find_sorted_Some(3)[OF *(2) that] by simp
  show "valid_joint H (promotion_joint_plan planned)" "joint_old (promotion_joint_plan planned) = old"
    "spec_voters (plan_spec (joint_new (promotion_joint_plan planned))) =
       finsert (promoted_node_id planned) (spec_voters (plan_spec old))"
    "spec_learners (plan_spec (joint_new (promotion_joint_plan planned))) =
       spec_learners (plan_spec old) |-| {|promoted_node_id planned|}"
    using *(5) joint_plan_new_valid[OF v next_flat_plan_Inr(1)[OF *(3)] *(4)] joint_plan_new_Inr(1,2)[OF *(4)]
      next_flat_plan_Inr(2,3)[OF *(3)] by simp_all
qed

subsection \<open>Voter counts\<close>

text \<open>How many voters of a flat plan may fail with an election quorum left.\<close>

definition tolerated_failures :: "nat \<Rightarrow> nat" where
  "tolerated_failures n = n - election_majority n"

lemma recommended_voter_count_facts:
  "recommended_voter_count n \<le> n" "recommended_voter_count n \<le> MAXIMUM_VOTERS"
  "0 < n \<Longrightarrow> 0 < recommended_voter_count n"
  "tolerated_failures (recommended_voter_count n) = tolerated_failures (min n MAXIMUM_VOTERS)"
  "3 \<le> n \<Longrightarrow> m < recommended_voter_count n \<Longrightarrow> tolerated_failures m < tolerated_failures (recommended_voter_count n)"
proof -
  have cases: "n = 0 \<or> n = 1 \<or> n = 2 \<or> n \<in> {3,4,5,6,7,8,9} \<or> 9 < n" by auto
  show "recommended_voter_count n \<le> n" "recommended_voter_count n \<le> MAXIMUM_VOTERS"
    "0 < n \<Longrightarrow> 0 < recommended_voter_count n"
    by (auto simp: recommended_voter_count_def Let_def MAXIMUM_VOTERS_def)
  show "tolerated_failures (recommended_voter_count n) = tolerated_failures (min n MAXIMUM_VOTERS)"
    using cases by (auto simp: recommended_voter_count_def Let_def MAXIMUM_VOTERS_def tolerated_failures_def
        election_majority_def)
  assume n: "3 \<le> n" and m: "m < recommended_voter_count n"
  let ?b = "if n > 9 then 9 else n"
  have r: "recommended_voter_count n = (if even ?b then ?b - 1 else ?b)"
    using n by (simp add: recommended_voter_count_def Let_def even_iff_mod_2_eq_zero)
  have "odd (recommended_voter_count n)" "3 \<le> recommended_voter_count n"
    using n unfolding r by presburger+
  then obtain k where k: "recommended_voter_count n = 2 * k + 1" "1 \<le> k"
    by (elim oddE) (auto simp: numeral_3_eq_3)
  have "m - (m div 2 + 1) < k"
    using m k by simp
  then show "tolerated_failures m < tolerated_failures (recommended_voter_count n)"
    unfolding tolerated_failures_def election_majority_def k(1) by simp
qed

end
