(* ===== verification/Codec.thy ===== *)
theory Codec
  imports Prelude
begin

text \<open>
  Bounded cursors over untrusted bytes. The two decoders of \<open>meshspan-consensus\<close> keep a slice and a position
  that only moves forward; a reader here consumes the unread suffix. The error value is a parameter, because
  each decoder has its own.

  A codec is an encoder and a reader that inverts it in front of any remaining bytes. Its lemmas give the
  round trip of counted sequences and that encodings are prefix free.
\<close>

type_synonym ('e, 'a) reader = "bytes \<Rightarrow> 'e + 'a \<times> bytes"

definition read_exact :: "'e \<Rightarrow> nat \<Rightarrow> ('e, bytes) reader" where
  "read_exact e n bs = (if n \<le> length bs then Inr (take n bs, drop n bs) else Inl e)"

definition read_byte :: "'e \<Rightarrow> ('e, byte) reader" where
  "read_byte e bs = try_r (read_exact e 1 bs) (\<lambda>(v, rest). Inr (hd v, rest))"

definition read_uint :: "'e \<Rightarrow> nat \<Rightarrow> ('e, nat) reader" where
  "read_uint e k bs = try_r (read_exact e k bs) (\<lambda>(v, rest). Inr (from_be_bytes v, rest))"

definition read_node_id :: "'e \<Rightarrow> ('e, node_id) reader" where
  "read_node_id e bs = try_r (read_exact e 16 bs) (\<lambda>(v, rest).
     try_r (map_err (\<lambda>_. e) (node_id_from_bytes v)) (\<lambda>node. Inr (node, rest)))"

text \<open>A loop that reads a counted number of items.\<close>

fun read_many :: "nat \<Rightarrow> ('e, 'a) reader \<Rightarrow> ('e, 'a list) reader" where
  "read_many 0 item bs = Inr ([], bs)"
| "read_many (Suc n) item bs = try_r (item bs) (\<lambda>(x, rest).
     try_r (read_many n item rest) (\<lambda>(xs, rest'). Inr (x # xs, rest')))"

section \<open>Contract\<close>

locale codec =
  fixes wf :: "'a \<Rightarrow> bool" and enc :: "'a \<Rightarrow> bytes" and dec :: "('e, 'a) reader"
  assumes round_trip: "wf x \<Longrightarrow> dec (enc x @ rest) = Inr (x, rest)"
begin

lemma round_trip_end: "wf x \<Longrightarrow> dec (enc x) = Inr (x, [])"
  using round_trip[of x "[]"] by simp

lemma prefix_free: "wf x \<Longrightarrow> wf y \<Longrightarrow> enc x @ r = enc y @ s \<Longrightarrow> x = y \<and> r = s"
  using round_trip[of x r] round_trip[of y s] by (metis Inr_inject Pair_inject)

lemma sequence_round_trip:
  "list_all wf xs \<Longrightarrow> read_many (length xs) dec (concat (map enc xs) @ rest) = Inr (xs, rest)"
  by (induction xs) (auto simp: round_trip)

lemma sequence_injective:
  "list_all wf xs \<Longrightarrow> list_all wf ys \<Longrightarrow> length xs = length ys \<Longrightarrow>
     concat (map enc xs) @ r = concat (map enc ys) @ s \<Longrightarrow> xs = ys \<and> r = s"
  using sequence_round_trip[of xs r] sequence_round_trip[of ys s] by (metis Inr_inject Pair_inject)

end

section \<open>Providers\<close>

lemma read_exact_append [simp]: "length v = n \<Longrightarrow> read_exact e n (v @ rest) = Inr (v, rest)"
  by (simp add: read_exact_def)

lemma read_exact_Inr: "read_exact e n bs = Inr (v, rest) \<Longrightarrow> bs = v @ rest \<and> length v = n"
  by (auto simp: read_exact_def split: if_splits)

lemma read_byte_Cons [simp]: "read_byte e (b # rest) = Inr (b, rest)"
  by (simp add: read_byte_def read_exact_def)

lemma read_uint_round_trip [simp]:
  "n < 256 ^ k \<Longrightarrow> read_uint e k (be_bytes k n @ rest) = Inr (n, rest)"
  by (simp add: read_uint_def from_be_be_bytes)

lemma read_uint_wide [simp]:
  "n \<le> u16_max \<Longrightarrow> read_uint e 2 (be_bytes 2 n @ rest) = Inr (n, rest)"
  "n \<le> u32_max \<Longrightarrow> read_uint e 4 (be_bytes 4 n @ rest) = Inr (n, rest)"
  "n \<le> u64_max \<Longrightarrow> read_uint e 8 (be_bytes 8 n @ rest) = Inr (n, rest)"
  by (rule read_uint_round_trip, simp add: u16_max_def u32_max_def u64_max_def)+

lemma read_uint_bound:
  "read_uint e k bs = Inr (n, rest) \<Longrightarrow> n < 256 ^ k"
proof -
  have "from_be_bytes v < 256 ^ length v" for v
  proof (induction v rule: rev_induct)
    case (snoc b v)
    have "unat b < 256" using unsigned_less[of b] by simp
    moreover have "from_be_bytes v * 256 + 256 \<le> 256 ^ length v * 256"
      using snoc by (simp flip: add_mult_distrib add: Suc_le_eq[symmetric])
    ultimately show ?case by simp
  qed simp
  then show "read_uint e k bs = Inr (n, rest) \<Longrightarrow> n < 256 ^ k"
    by (auto simp: read_uint_def result_simps dest!: read_exact_Inr)
qed

lemma read_node_id_round_trip [simp]:
  "identifier_ok (node_bytes v) \<Longrightarrow> read_node_id e (node_bytes v @ rest) = Inr (v, rest)"
  by (auto simp: read_node_id_def identifier_ok_def)

lemma read_node_id_Inr:
  "read_node_id e bs = Inr (v, rest) \<Longrightarrow> identifier_ok (node_bytes v) \<and> bs = node_bytes v @ rest"
  by (auto simp: read_node_id_def result_simps identifier_ok_def node_id_from_bytes_Inr
      dest!: read_exact_Inr)

interpretation byte_codec: codec "\<lambda>_. True" "\<lambda>b. [b]" "read_byte e" for e
  by unfold_locales simp

interpretation uint_codec: codec "\<lambda>n. n < 256 ^ k" "be_bytes k" "read_uint e k" for k e
  by unfold_locales simp

interpretation node_codec: codec "\<lambda>v. identifier_ok (node_bytes v)" node_bytes "read_node_id e" for e
  by unfold_locales simp

end
