(* ===== verification/Plan_Record.thy ===== *)
theory Plan_Record
  imports Codec Quorum_Transition
begin

text \<open>
  The canonical durable record of an active quorum phase: \<open>plan_record/encode.rs\<close> and \<open>plan_record/decode.rs\<close>.

  The lemmas show that every valid active plan encodes, that its record stays far below the size bound, that
  decoding the record gives the plan back with its proofs recompiled, and that whatever decodes is valid.
\<close>

section \<open>Encoder (encode.rs)\<close>

datatype plan_record_error = RecordMalformed | RecordUnsafe

definition RECORD_MAGIC :: bytes where "RECORD_MAGIC = ascii ''MSQP''"
definition RECORD_VERSION :: nat where "RECORD_VERSION = 1"
definition MAXIMUM_RECORD_BYTES :: nat where "MAXIMUM_RECORD_BYTES = 64 * 1024"
definition STABLE_PHASE :: byte where "STABLE_PHASE = 1"
definition JOINT_PHASE :: byte where "JOINT_PHASE = 2"

definition counted_length :: "nat \<Rightarrow> plan_record_error + bytes" where
  "counted_length n = try_r (ok_or RecordMalformed (try_narrow u16_max n)) (\<lambda>v. Inr (be_bytes 2 v))"

definition enc_weighted_voters :: "weighted_voter list \<Rightarrow> plan_record_error + bytes" where
  "enc_weighted_voters ws = try_r (counted_length (length ws)) (\<lambda>n.
     Inr (n @ concat (map (\<lambda>w. node_bytes (wv_voter w) @ be_bytes 2 (wv_weight w)) ws)))"

fun enc_predicate :: "quorum_predicate \<Rightarrow> plan_record_error + bytes" where
  "enc_predicate (Voter v) = Inr (1 # node_bytes v)"
| "enc_predicate (AtLeast threshold children) =
     try_r (counted_length (length children)) (\<lambda>n.
     try_r (try_map enc_predicate children) (\<lambda>cs.
       Inr ([2, word_of_nat threshold] @ n @ concat cs)))"
| "enc_predicate (WeightedAtLeast threshold weighted) =
     try_r (enc_weighted_voters weighted) (\<lambda>ws. Inr (3 # be_bytes 4 threshold @ ws))"
| "enc_predicate (All children) =
     try_r (counted_length (length children)) (\<lambda>n.
     try_r (try_map enc_predicate children) (\<lambda>cs. Inr (4 # n @ concat cs)))"

definition enc_identifiers :: "node_id list \<Rightarrow> plan_record_error + bytes" where
  "enc_identifiers vs = try_r (counted_length (length vs)) (\<lambda>n. Inr (n @ concat (map node_bytes vs)))"

definition enc_plan_spec :: "quorum_plan_spec \<Rightarrow> plan_record_error + bytes" where
  "enc_plan_spec spec =
     try_r (enc_identifiers (btree_iter (spec_voters spec))) (\<lambda>voters.
     try_r (enc_identifiers (btree_iter (spec_learners spec))) (\<lambda>learners.
     try_r (enc_identifiers (btree_iter (spec_eligible_leaders spec))) (\<lambda>leaders.
     try_r (enc_predicate (spec_election spec)) (\<lambda>election.
     try_r (enc_predicate (spec_commit spec)) (\<lambda>commit.
     try_r (enc_predicate (spec_read spec)) (\<lambda>read.
       Inr (plan_id_bytes (spec_plan_id spec) @ be_bytes 2 (spec_format_version spec) @
            be_bytes 8 (spec_membership_epoch spec) @ voters @ learners @ leaders @
            election @ commit @ read)))))))"

definition encode_plan :: "active_quorum_plan \<Rightarrow> plan_record_error + bytes" where
  "encode_plan plan =
     try_r (case plan of
         Stable plan \<Rightarrow> try_r (enc_plan_spec (plan_spec plan)) (\<lambda>spec. Inr (STABLE_PHASE # spec))
       | Joint joint \<Rightarrow>
           try_r (enc_plan_spec (plan_spec (joint_old joint))) (\<lambda>old.
           try_r (enc_plan_spec (plan_spec (joint_new joint))) (\<lambda>new.
             Inr (JOINT_PHASE # old @ new))))
       (\<lambda>body. let output = RECORD_MAGIC @ be_bytes 2 RECORD_VERSION @ body
         in if MAXIMUM_RECORD_BYTES < length output then Inl RecordMalformed else Inr output)"

section \<open>Decoder (decode.rs)\<close>

definition MAXIMUM_IDENTIFIERS :: nat where "MAXIMUM_IDENTIFIERS = 256"

definition cursor_take :: "nat \<Rightarrow> (plan_record_error, bytes) reader" where
  "cursor_take = read_exact RecordMalformed"

definition cursor_byte :: "(plan_record_error, byte) reader" where
  "cursor_byte = read_byte RecordMalformed"

definition cursor_unsigned :: "nat \<Rightarrow> (plan_record_error, nat) reader" where
  "cursor_unsigned = read_uint RecordMalformed"

definition cursor_node_id :: "(plan_record_error, node_id) reader" where
  "cursor_node_id = read_node_id RecordMalformed"

definition bounded_count :: "nat \<Rightarrow> (plan_record_error, nat) reader" where
  "bounded_count maximum bs = try_r (cursor_unsigned 2 bs) (\<lambda>(v, rest).
     if maximum < v then Inl RecordMalformed else Inr (v, rest))"

definition dec_plan_id :: "(plan_record_error, quorum_plan_id) reader" where
  "dec_plan_id bs = try_r (cursor_take 16 bs) (\<lambda>(v, rest).
     try_r (map_err (\<lambda>_. RecordMalformed) (plan_id_from_bytes v)) (\<lambda>plan_id. Inr (plan_id, rest)))"

fun dec_identifiers_loop :: "nat \<Rightarrow> node_id fset \<Rightarrow> (plan_record_error, node_id fset) reader" where
  "dec_identifiers_loop 0 acc bs = Inr (acc, bs)"
| "dec_identifiers_loop (Suc n) acc bs = try_r (cursor_node_id bs) (\<lambda>(v, rest).
     if v |\<in>| acc then Inl RecordMalformed else dec_identifiers_loop n (finsert v acc) rest)"

definition dec_identifiers :: "(plan_record_error, node_id fset) reader" where
  "dec_identifiers bs = try_r (bounded_count MAXIMUM_IDENTIFIERS bs) (\<lambda>(count, rest).
     dec_identifiers_loop count {||} rest)"

definition dec_weighted_voter :: "(plan_record_error, weighted_voter) reader" where
  "dec_weighted_voter bs = try_r (cursor_node_id bs) (\<lambda>(v, rest).
     try_r (cursor_unsigned 2 rest) (\<lambda>(w, rest'). Inr (\<lparr>wv_voter = v, wv_weight = w\<rparr>, rest')))"

definition dec_weighted :: "(plan_record_error, quorum_predicate) reader" where
  "dec_weighted bs = try_r (cursor_unsigned 4 bs) (\<lambda>(threshold, rest).
     try_r (bounded_count MAXIMUM_IDENTIFIERS rest) (\<lambda>(count, rest').
     try_r (read_many count dec_weighted_voter rest') (\<lambda>(voters, rest'').
       Inr (WeightedAtLeast threshold voters, rest''))))"

text \<open>
  The node count is threaded through the three predicates of one plan. A predicate deeper than the bound is
  refused before anything is read, which bounds the recursion.
\<close>

function dec_predicate :: "nat \<Rightarrow> nat \<Rightarrow> (plan_record_error, quorum_predicate \<times> nat) reader"
  and dec_children :: "nat \<Rightarrow> nat \<Rightarrow> nat \<Rightarrow> (plan_record_error, quorum_predicate list \<times> nat) reader" where
  "dec_predicate depth node_count bs =
     try_r (ok_or RecordMalformed (checked_add u64_max node_count 1)) (\<lambda>node_count.
       if depth > MAXIMUM_PREDICATE_DEPTH \<or> node_count > MAXIMUM_PREDICATE_NODES then Inl RecordMalformed
       else try_r (cursor_byte bs) (\<lambda>(tag, rest).
         if tag = 1 then try_r (cursor_node_id rest) (\<lambda>(v, rest'). Inr ((Voter v, node_count), rest'))
         else if tag = 2 then
           try_r (cursor_byte rest) (\<lambda>(threshold, rest').
           try_r (bounded_count MAXIMUM_PREDICATE_NODES rest') (\<lambda>(count, rest'').
           try_r (dec_children count depth node_count rest'') (\<lambda>((children, node_count'), rest3).
             Inr ((AtLeast (unat threshold) children, node_count'), rest3))))
         else if tag = 3 then
           try_r (dec_weighted rest) (\<lambda>(p, rest'). Inr ((p, node_count), rest'))
         else if tag = 4 then
           try_r (bounded_count MAXIMUM_PREDICATE_NODES rest) (\<lambda>(count, rest').
           try_r (dec_children count depth node_count rest') (\<lambda>((children, node_count'), rest'').
             Inr ((All children, node_count'), rest'')))
         else Inl RecordMalformed))"
| "dec_children 0 depth node_count bs = Inr (([], node_count), bs)"
| "dec_children (Suc count) depth node_count bs =
     try_r (dec_predicate (depth + 1) node_count bs) (\<lambda>((p, node_count'), rest).
     try_r (dec_children count depth node_count' rest) (\<lambda>((ps, node_count''), rest').
       Inr ((p # ps, node_count''), rest')))"
  by pat_completeness auto
termination
  by (relation "measures [case_sum (\<lambda>(d, n, bs). 10 - d) (\<lambda>(c, d, n, bs). 9 - d),
      case_sum (\<lambda>_. 0) (\<lambda>(c, d, n, bs). Suc c)]")
    (auto simp: MAXIMUM_PREDICATE_DEPTH_def)

definition dec_compiled_plan ::
  "(bytes \<Rightarrow> bytes) \<Rightarrow> (plan_record_error, compiled_quorum_plan) reader" where
  "dec_compiled_plan H bs =
     try_r (dec_plan_id bs) (\<lambda>(plan_id, bs).
     try_r (cursor_unsigned 2 bs) (\<lambda>(format_version, bs).
     try_r (cursor_unsigned 8 bs) (\<lambda>(membership_epoch, bs).
     try_r (dec_identifiers bs) (\<lambda>(voters, bs).
     try_r (dec_identifiers bs) (\<lambda>(learners, bs).
     try_r (dec_identifiers bs) (\<lambda>(eligible_leaders, bs).
     try_r (dec_predicate 1 0 bs) (\<lambda>((election, node_count), bs).
     try_r (dec_predicate 1 node_count bs) (\<lambda>((commit, node_count), bs).
     try_r (dec_predicate 1 node_count bs) (\<lambda>((read, node_count), bs).
     try_r (map_err (\<lambda>_. RecordUnsafe) (compile_plan H
       \<lparr>spec_plan_id = plan_id, spec_format_version = format_version,
        spec_membership_epoch = membership_epoch, spec_voters = voters, spec_learners = learners,
        spec_eligible_leaders = eligible_leaders, spec_election = election, spec_commit = commit,
        spec_read = read\<rparr>)) (\<lambda>plan. Inr (plan, bs)))))))))))"

definition decode_plan :: "(bytes \<Rightarrow> bytes) \<Rightarrow> bytes \<Rightarrow> plan_record_error + active_quorum_plan" where
  "decode_plan H bs =
     (if MAXIMUM_RECORD_BYTES < length bs then Inl RecordMalformed
      else try_r (cursor_take (length RECORD_MAGIC) bs) (\<lambda>(magic, bs).
        if magic \<noteq> RECORD_MAGIC then Inl RecordMalformed
        else try_r (cursor_unsigned 2 bs) (\<lambda>(version, bs).
        if version \<noteq> RECORD_VERSION then Inl RecordMalformed
        else try_r (cursor_byte bs) (\<lambda>(phase, bs).
        try_r (if phase = STABLE_PHASE then
            try_r (dec_compiled_plan H bs) (\<lambda>(plan, bs). Inr (Stable plan, bs))
          else if phase = JOINT_PHASE then
            try_r (dec_compiled_plan H bs) (\<lambda>(old, bs).
            try_r (dec_compiled_plan H bs) (\<lambda>(new, bs).
            try_r (map_err (\<lambda>_. RecordUnsafe) (joint_plan_new H old new)) (\<lambda>joint.
              Inr (Joint joint, bs))))
          else Inl RecordMalformed) (\<lambda>(plan, bs).
        if bs \<noteq> [] then Inl RecordMalformed else Inr plan)))))"

section \<open>Values a plan source can hold\<close>

text \<open>The widths of the Rust fields, which the model's naturals and byte lists leave open.\<close>

fun predicate_typed :: "quorum_predicate \<Rightarrow> bool" where
  "predicate_typed (Voter v) = identifier_ok (node_bytes v)"
| "predicate_typed (AtLeast threshold children) = (threshold \<le> u8_max \<and> list_all predicate_typed children)"
| "predicate_typed (WeightedAtLeast threshold weighted) =
     (threshold \<le> u32_max \<and>
      list_all (\<lambda>w. identifier_ok (node_bytes (wv_voter w)) \<and> wv_weight w \<le> u16_max) weighted)"
| "predicate_typed (All children) = list_all predicate_typed children"

definition identifiers_typed :: "node_id fset \<Rightarrow> bool" where
  "identifiers_typed vs \<longleftrightarrow> (\<forall>v |\<in>| vs. identifier_ok (node_bytes v))"

definition spec_typed :: "quorum_plan_spec \<Rightarrow> bool" where
  "spec_typed spec \<longleftrightarrow>
     identifier_ok (plan_id_bytes (spec_plan_id spec)) \<and>
     spec_format_version spec \<le> u16_max \<and> spec_membership_epoch spec \<le> u64_max \<and>
     identifiers_typed (spec_voters spec) \<and> identifiers_typed (spec_learners spec) \<and>
     identifiers_typed (spec_eligible_leaders spec) \<and>
     (\<forall>f. predicate_typed (spec_predicate spec f))"

fun active_typed :: "active_quorum_plan \<Rightarrow> bool" where
  "active_typed (Stable plan) = spec_typed (plan_spec plan)"
| "active_typed (Joint joint) = (spec_typed (plan_spec (joint_old joint)) \<and> spec_typed (plan_spec (joint_new joint)))"

section \<open>Lemmas\<close>

lemmas cursor_defs = cursor_take_def cursor_byte_def cursor_unsigned_def cursor_node_id_def

lemma counted_length_ok [simp]: "n \<le> u16_max \<Longrightarrow> counted_length n = Inr (be_bytes 2 n)"
  by (simp add: counted_length_def try_narrow_def)

lemma bounded_count_ok [simp]:
  "n \<le> maximum \<Longrightarrow> n \<le> u16_max \<Longrightarrow> bounded_count maximum (be_bytes 2 n @ rest) = Inr (n, rest)"
  by (simp add: bounded_count_def cursor_defs)

lemma dec_identifiers_loop_ok:
  "distinct vs \<Longrightarrow> \<forall>v \<in> set vs. identifier_ok (node_bytes v) \<and> v |\<notin>| acc \<Longrightarrow>
     dec_identifiers_loop (length vs) acc (concat (map node_bytes vs) @ rest) =
       Inr (fset_of_list vs |\<union>| acc, rest)"
proof (induction vs arbitrary: acc)
  case (Cons v vs)
  then have "dec_identifiers_loop (length vs) (finsert v acc) (concat (map node_bytes vs) @ rest) =
      Inr (fset_of_list vs |\<union>| finsert v acc, rest)"
    by (intro Cons.IH) auto
  with Cons.prems show ?case by (simp add: cursor_defs)
qed simp

text \<open>The reader accepts a set of identifiers in any order.\<close>

lemma dec_identifiers_any_order:
  assumes "distinct vs" "\<forall>v \<in> set vs. identifier_ok (node_bytes v)" "length vs \<le> MAXIMUM_IDENTIFIERS"
  shows "\<exists>bs. enc_identifiers vs = Inr bs \<and> length bs = 2 + 16 * length vs \<and>
    (\<forall>rest. dec_identifiers (bs @ rest) = Inr (fset_of_list vs, rest))"
proof -
  have len: "length (concat (map node_bytes vs)) = 16 * length vs"
    using assms(2) by (induction vs) (auto simp: identifier_ok_def)
  have "length vs \<le> u16_max"
    using assms(3) by (simp add: MAXIMUM_IDENTIFIERS_def u16_max_def)
  then show ?thesis
    using assms dec_identifiers_loop_ok[of vs "{||}"] len
    by (simp add: enc_identifiers_def dec_identifiers_def)
qed

lemma dec_identifiers_ok:
  assumes "identifiers_typed vs" "fcard vs \<le> MAXIMUM_IDENTIFIERS"
  shows "\<exists>bs. enc_identifiers (btree_iter vs) = Inr bs \<and> length bs = 2 + 16 * fcard vs \<and>
    (\<forall>rest. dec_identifiers (bs @ rest) = Inr (vs, rest))"
  using dec_identifiers_any_order[of "btree_iter vs"] assms by (simp add: identifiers_typed_def)

interpretation weighted_codec: codec
  "\<lambda>w. identifier_ok (node_bytes (wv_voter w)) \<and> wv_weight w \<le> u16_max"
  "\<lambda>w. node_bytes (wv_voter w) @ be_bytes 2 (wv_weight w)" dec_weighted_voter
  by unfold_locales (simp add: dec_weighted_voter_def cursor_defs)

lemma try_map_ok: "(\<And>x. x \<in> set xs \<Longrightarrow> \<exists>y. f x = Inr y) \<Longrightarrow> \<exists>ys. try_map f xs = Inr ys"
proof (induction xs)
  case (Cons x xs)
  then obtain y ys where "f x = Inr y" "try_map f xs = Inr ys"
    by (meson list.set_intros)
  then show ?case by simp
qed simp

text \<open>Bounds that make every count of a record fit.\<close>

fun counts_fit :: "quorum_predicate \<Rightarrow> bool" where
  "counts_fit (Voter v) = True"
| "counts_fit (AtLeast threshold children) =
     (length children \<le> MAXIMUM_PREDICATE_NODES \<and> list_all counts_fit children)"
| "counts_fit (WeightedAtLeast threshold weighted) = (length weighted \<le> MAXIMUM_IDENTIFIERS)"
| "counts_fit (All children) = (length children \<le> MAXIMUM_PREDICATE_NODES \<and> list_all counts_fit children)"

lemma fits_u16: "n \<le> MAXIMUM_PREDICATE_NODES \<Longrightarrow> n \<le> u16_max" "n \<le> MAXIMUM_IDENTIFIERS \<Longrightarrow> n \<le> u16_max"
  by (simp_all add: MAXIMUM_PREDICATE_NODES_def MAXIMUM_IDENTIFIERS_def u16_max_def)

lemma enc_predicate_ok: "counts_fit p \<Longrightarrow> \<exists>bs. enc_predicate p = Inr bs"
proof (induction p)
  case (AtLeast t cs)
  then have "\<exists>bs. try_map enc_predicate cs = Inr bs"
    by (intro try_map_ok) (auto simp: list_all_iff)
  with AtLeast.prems show ?case by (auto simp: fits_u16)
next
  case (All cs)
  then have "\<exists>bs. try_map enc_predicate cs = Inr bs"
    by (intro try_map_ok) (auto simp: list_all_iff)
  with All.prems show ?case by (auto simp: fits_u16)
qed (auto simp: enc_weighted_voters_def fits_u16)

lemma node_total_pos: "0 < node_total p"
  by (cases p) auto

lemma length_le_sum_pos: "(\<And>x. x \<in> set xs \<Longrightarrow> 0 < (f x :: nat)) \<Longrightarrow> length xs \<le> sum_list (map f xs)"
  by (induction xs) force+

lemma member_le_sum: "x \<in> set xs \<Longrightarrow> (f x :: nat) \<le> sum_list (map f xs)"
  by (induction xs) auto

lemma counts_fit_bounded:
  "well_formed p \<Longrightarrow> node_total p \<le> MAXIMUM_PREDICATE_NODES \<Longrightarrow>
   card (references p) \<le> MAXIMUM_IDENTIFIERS \<Longrightarrow> counts_fit p"
proof (induction p)
  case (AtLeast t cs)
  have "length cs \<le> sum_list (map node_total cs)"
    by (rule length_le_sum_pos) (rule node_total_pos)
  moreover have "counts_fit c" if "c \<in> set cs" for c
  proof (rule AtLeast.IH[OF that])
    show "well_formed c" "node_total c \<le> MAXIMUM_PREDICATE_NODES"
      using AtLeast.prems member_le_sum[OF that, of node_total] that by (auto simp: list_all_iff)
    show "card (references c) \<le> MAXIMUM_IDENTIFIERS"
      using AtLeast.prems(3) that card_mono[of "references (AtLeast t cs)" "references c"]
      by (auto intro: order_trans)
  qed
  ultimately show ?case
    using AtLeast.prems by (auto simp: list_all_iff)
next
  case (All cs)
  have "length cs \<le> sum_list (map node_total cs)"
    by (rule length_le_sum_pos) (rule node_total_pos)
  moreover have "counts_fit c" if "c \<in> set cs" for c
  proof (rule All.IH[OF that])
    show "well_formed c" "node_total c \<le> MAXIMUM_PREDICATE_NODES"
      using All.prems member_le_sum[OF that, of node_total] that by (auto simp: list_all_iff)
    show "card (references c) \<le> MAXIMUM_IDENTIFIERS"
      using All.prems(3) that card_mono[of "references (All cs)" "references c"]
      by (auto intro: order_trans)
  qed
  ultimately show ?case
    using All.prems by (auto simp: list_all_iff)
next
  case (WeightedAtLeast t ws)
  then have "length ws = card (wv_voter ` set ws)"
    by (metis distinct_card length_map list.set_map well_formed.simps(3))
  with WeightedAtLeast show ?case by simp
qed simp


lemma tree_depth_child: "c \<in> set cs \<Longrightarrow> tree_depth c \<le> fold max (map tree_depth cs) 0"
  using fold_max_le[of 0 tree_depth cs 0 "fold max (map tree_depth cs) 0"] by simp

lemma dec_children_ok:
  assumes "\<And>c rest n. c \<in> set cs \<Longrightarrow> n + node_total c \<le> MAXIMUM_PREDICATE_NODES \<Longrightarrow>
      \<exists>bs. enc_predicate c = Inr bs \<and> dec_predicate (depth + 1) n (bs @ rest) = Inr ((c, n + node_total c), rest)"
    and "node_count + sum_list (map node_total cs) \<le> MAXIMUM_PREDICATE_NODES"
  shows "\<exists>bs. try_map enc_predicate cs = Inr bs \<and>
    dec_children (length cs) depth node_count (concat bs @ rest) =
      Inr ((cs, node_count + sum_list (map node_total cs)), rest)"
  using assms
proof (induction cs arbitrary: node_count)
  case (Cons c cs)
  obtain bs where bs: "try_map enc_predicate cs = Inr bs"
    "dec_children (length cs) depth (node_count + node_total c) (concat bs @ rest) =
      Inr ((cs, node_count + node_total c + sum_list (map node_total cs)), rest)"
    using Cons.IH[of "node_count + node_total c"] Cons.prems by (auto simp: add.assoc)
  obtain b where b: "enc_predicate c = Inr b"
    "dec_predicate (depth + 1) node_count (b @ concat bs @ rest) = Inr ((c, node_count + node_total c), concat bs @ rest)"
    using Cons.prems(1)[of c node_count "concat bs @ rest"] Cons.prems(2) by auto
  show ?case
    using bs b by (simp add: add.assoc del: dec_predicate.simps)
qed simp

declare dec_predicate.simps [simp del]

lemma dec_predicate_round_trip:
  "predicate_typed p \<Longrightarrow> counts_fit p \<Longrightarrow> depth + tree_depth p \<le> Suc MAXIMUM_PREDICATE_DEPTH \<Longrightarrow>
   n + node_total p \<le> MAXIMUM_PREDICATE_NODES \<Longrightarrow>
   \<exists>bs. enc_predicate p = Inr bs \<and> dec_predicate depth n (bs @ rest) = Inr ((p, n + node_total p), rest)"
proof (induction p arbitrary: depth n rest)
  case (Voter v)
  then show ?case
    by (simp add: dec_predicate.simps checked_add_def cursor_defs MAXIMUM_PREDICATE_NODES_def u64_max_def)
next
  case (AtLeast t cs)
  have "\<exists>bs. try_map enc_predicate cs = Inr bs \<and>
    dec_children (length cs) depth (Suc n) (concat bs @ rest) =
      Inr ((cs, Suc n + sum_list (map node_total cs)), rest)"
    by (rule dec_children_ok) (use AtLeast tree_depth_child in \<open>fastforce simp: list_all_iff\<close>)+
  with AtLeast.prems show ?case
    by (auto simp: dec_predicate.simps checked_add_def cursor_defs MAXIMUM_PREDICATE_NODES_def
        u64_max_def fits_u16 u8_max_def unat_of_nat)
next
  case (WeightedAtLeast t ws)
  then show ?case
    using weighted_codec.sequence_round_trip[of ws rest]
    by (auto simp: dec_predicate.simps dec_weighted_def enc_weighted_voters_def checked_add_def cursor_defs
        MAXIMUM_PREDICATE_NODES_def u64_max_def fits_u16)
next
  case (All cs)
  have "\<exists>bs. try_map enc_predicate cs = Inr bs \<and>
    dec_children (length cs) depth (Suc n) (concat bs @ rest) =
      Inr ((cs, Suc n + sum_list (map node_total cs)), rest)"
    by (rule dec_children_ok) (use All tree_depth_child in \<open>fastforce simp: list_all_iff\<close>)+
  with All.prems show ?case
    by (auto simp: dec_predicate.simps checked_add_def cursor_defs MAXIMUM_PREDICATE_NODES_def
        u64_max_def fits_u16)
qed

text \<open>A record is small: the expressions of a valid plan refer to at most nine voters.\<close>

lemma sum_length_concat: "length (concat xs) = sum_list (map length xs)"
  by (induction xs) auto

lemma try_map_Inr_nth: "try_map f xs = Inr ys \<Longrightarrow> list_all2 (\<lambda>x y. f x = Inr y) xs ys"
  by (induction xs arbitrary: ys) (auto simp: result_simps)

lemma enc_children_length:
  assumes "try_map enc_predicate cs = Inr bs" "disjoint_refs cs"
    and "\<And>c b. c \<in> set cs \<Longrightarrow> enc_predicate c = Inr b \<Longrightarrow> length b \<le> 7 * node_total c + 18 * card (references c)"
  shows "length (concat bs) \<le> 7 * sum_list (map node_total cs) + 18 * card (\<Union>c \<in> set cs. references c)"
  using assms
proof (induction cs arbitrary: bs)
  case (Cons c cs)
  from Cons.prems(1) obtain b bs' where b: "bs = b # bs'" "enc_predicate c = Inr b" "try_map enc_predicate cs = Inr bs'"
    by (auto simp: result_simps)
  have "length (concat bs') \<le> 7 * sum_list (map node_total cs) + 18 * card (\<Union>c \<in> set cs. references c)"
    using Cons.IH[OF b(3)] Cons.prems by simp
  moreover have "length b \<le> 7 * node_total c + 18 * card (references c)"
    using Cons.prems(3) b(2) by simp
  moreover have "card (\<Union>c \<in> set (c # cs). references c) = card (references c) + card (\<Union>c \<in> set cs. references c)"
    using Cons.prems(2) by (simp add: card_Un_disjoint)
  ultimately show ?case using b(1) by simp
qed simp

lemma enc_predicate_length:
  "well_formed p \<Longrightarrow> predicate_typed p \<Longrightarrow> enc_predicate p = Inr bs \<Longrightarrow>
   length bs \<le> 7 * node_total p + 18 * card (references p)"
proof (induction p arbitrary: bs)
  case (Voter v)
  then show ?case by (auto simp: identifier_ok_def)
next
  case (AtLeast t cs)
  then obtain cbs n where c: "try_map enc_predicate cs = Inr cbs" "counted_length (length cs) = Inr n"
    "bs = [2, word_of_nat t] @ n @ concat cbs"
    by (auto simp: result_simps)
  have "length n = 2" using c(2) by (auto simp: counted_length_def result_simps)
  moreover have "length (concat cbs) \<le> 7 * sum_list (map node_total cs) + 18 * card (\<Union>c \<in> set cs. references c)"
    by (rule enc_children_length[OF c(1)]) (use AtLeast in \<open>auto simp: list_all_iff\<close>)
  ultimately show ?case using c(3) by simp
next
  case (WeightedAtLeast t ws)
  have "length (concat (map (\<lambda>w. node_bytes (wv_voter w) @ be_bytes 2 (wv_weight w)) ws)) = 18 * length ws"
    using WeightedAtLeast.prems(2) by (induction ws) (auto simp: identifier_ok_def)
  moreover have "length ws = card (wv_voter ` set ws)"
    using WeightedAtLeast.prems(1) by (metis distinct_card length_map list.set_map well_formed.simps(3))
  ultimately show ?case
    using WeightedAtLeast.prems(3) by (auto simp: result_simps enc_weighted_voters_def counted_length_def)
next
  case (All cs)
  then obtain cbs n where c: "try_map enc_predicate cs = Inr cbs" "counted_length (length cs) = Inr n"
    "bs = 4 # n @ concat cbs"
    by (auto simp: result_simps)
  have "length n = 2" using c(2) by (auto simp: counted_length_def result_simps)
  moreover have "length (concat cbs) \<le> 7 * sum_list (map node_total cs) + 18 * card (\<Union>c \<in> set cs. references c)"
    by (rule enc_children_length[OF c(1)]) (use All in \<open>auto simp: list_all_iff\<close>)
  ultimately show ?case using c(3) by simp
qed

text \<open>What the bounds of a compiled plan give for one of its expressions.\<close>

lemma compiled_predicate_bounds:
  assumes "header_ok spec" "predicate_ok (spec_voters spec) p"
  shows "well_formed p" "counts_fit p" "tree_depth p \<le> MAXIMUM_PREDICATE_DEPTH"
    "node_total p \<le> 64" "card (references p) \<le> 9"
proof -
  show wf: "well_formed p" and d: "tree_depth p \<le> MAXIMUM_PREDICATE_DEPTH"
    using assms(2) by (simp_all add: predicate_ok_def)
  have "card (references p) \<le> fcard (spec_voters spec)"
    using assms(2) by (simp add: predicate_ok_def fcard.rep_eq card_mono)
  then show c: "card (references p) \<le> 9"
    using assms(1) by (simp add: header_ok_def MAXIMUM_VOTERS_def)
  have "node_total p \<le> 1 + card (references p) * 7"
    using node_total_bound[OF wf, of 7] d by (simp add: MAXIMUM_PREDICATE_DEPTH_def)
  with c show n: "node_total p \<le> 64" by simp
  show "counts_fit p"
    by (rule counts_fit_bounded[OF wf])
      (use n c in \<open>simp_all add: MAXIMUM_PREDICATE_NODES_def MAXIMUM_IDENTIFIERS_def\<close>)
qed

lemma compiled_predicate_round_trip:
  assumes "header_ok spec" "predicate_ok (spec_voters spec) p" "predicate_typed p"
  shows "\<exists>bs. enc_predicate p = Inr bs \<and> length bs \<le> 610 \<and>
    (\<forall>n rest. n \<le> 192 \<longrightarrow> dec_predicate 1 n (bs @ rest) = Inr ((p, n + node_total p), rest))"
proof -
  note b = compiled_predicate_bounds[OF assms(1,2)]
  obtain bs where bs: "enc_predicate p = Inr bs"
    using enc_predicate_ok[OF b(2)] by blast
  have "length bs \<le> 610"
    using enc_predicate_length[OF b(1) assms(3) bs] b(4,5) by simp
  moreover have "dec_predicate 1 n (bs @ rest) = Inr ((p, n + node_total p), rest)" if "n \<le> 192" for n rest
    using dec_predicate_round_trip[OF assms(3) b(2), of 1 n rest] bs b(3,4) that
    by (auto simp: MAXIMUM_PREDICATE_NODES_def)
  ultimately show ?thesis using bs by blast
qed

lemma compiled_identifiers:
  assumes "header_ok spec"
  shows "fcard (spec_voters spec) \<le> 9" "fcard (spec_learners spec) \<le> 256"
    "fcard (spec_eligible_leaders spec) \<le> 9"
proof -
  show v: "fcard (spec_voters spec) \<le> 9" "fcard (spec_learners spec) \<le> 256"
    using assms by (auto simp: header_ok_def MAXIMUM_VOTERS_def MAXIMUM_LEARNERS_def)
  have "fcard (spec_eligible_leaders spec) \<le> fcard (spec_voters spec)"
    using assms by (simp add: header_ok_def fcard_mono)
  with v show "fcard (spec_eligible_leaders spec) \<le> 9" by simp
qed

lemma spec_round_trip:
  assumes v: "valid_plan H plan" and t: "spec_typed (plan_spec plan)"
  shows "\<exists>bs. enc_plan_spec (plan_spec plan) = Inr bs \<and> length bs \<le> 6300 \<and>
    (\<forall>rest. dec_compiled_plan H (bs @ rest) = Inr (plan, rest))"
proof -
  let ?s = "plan_spec plan"
  note hdr = valid_plan_header_ok[OF v]
  note card = compiled_identifiers[OF hdr]
  have P: "\<exists>bs. enc_predicate (spec_predicate ?s f) = Inr bs \<and> length bs \<le> 610 \<and>
    (\<forall>n rest. n \<le> 192 \<longrightarrow> dec_predicate 1 n (bs @ rest) =
       Inr ((spec_predicate ?s f, n + node_total (spec_predicate ?s f)), rest))" for f
    by (rule compiled_predicate_round_trip[OF hdr valid_plan_predicate_ok[OF v]])
      (use t in \<open>simp add: spec_typed_def\<close>)
  have N: "node_total (spec_predicate ?s f) \<le> 64" for f
    by (rule compiled_predicate_bounds[OF hdr valid_plan_predicate_ok[OF v]])
  obtain e c r where p: "enc_predicate (spec_election ?s) = Inr e" "enc_predicate (spec_commit ?s) = Inr c"
    "enc_predicate (spec_read ?s) = Inr r" "length e \<le> 610" "length c \<le> 610" "length r \<le> 610"
    "\<And>n rest. n \<le> 192 \<Longrightarrow> dec_predicate 1 n (e @ rest) = Inr ((spec_election ?s, n + node_total (spec_election ?s)), rest)"
    "\<And>n rest. n \<le> 192 \<Longrightarrow> dec_predicate 1 n (c @ rest) = Inr ((spec_commit ?s, n + node_total (spec_commit ?s)), rest)"
    "\<And>n rest. n \<le> 192 \<Longrightarrow> dec_predicate 1 n (r @ rest) = Inr ((spec_read ?s, n + node_total (spec_read ?s)), rest)"
    using P[of Election] P[of Commit] P[of Read] by auto
  have I: "\<exists>bs. enc_identifiers (btree_iter vs) = Inr bs \<and> length bs = 2 + 16 * fcard vs \<and>
    (\<forall>rest. dec_identifiers (bs @ rest) = Inr (vs, rest))" if "identifiers_typed vs" "fcard vs \<le> 256" for vs
    by (rule dec_identifiers_ok) (use that in \<open>simp_all add: MAXIMUM_IDENTIFIERS_def\<close>)
  obtain vo le el where i: "enc_identifiers (btree_iter (spec_voters ?s)) = Inr vo"
    "enc_identifiers (btree_iter (spec_learners ?s)) = Inr le"
    "enc_identifiers (btree_iter (spec_eligible_leaders ?s)) = Inr el"
    "length vo \<le> 146" "length le \<le> 4098" "length el \<le> 146"
    "\<And>rest. dec_identifiers (vo @ rest) = Inr (spec_voters ?s, rest)"
    "\<And>rest. dec_identifiers (le @ rest) = Inr (spec_learners ?s, rest)"
    "\<And>rest. dec_identifiers (el @ rest) = Inr (spec_eligible_leaders ?s, rest)"
    using I[of "spec_voters ?s"] I[of "spec_learners ?s"] I[of "spec_eligible_leaders ?s"] t card
    by (fastforce simp: spec_typed_def)
  have id: "length (plan_id_bytes (spec_plan_id ?s)) = 16" "identifier_ok (plan_id_bytes (spec_plan_id ?s))"
    "spec_format_version ?s \<le> u16_max" "spec_membership_epoch ?s \<le> u64_max"
    using t by (auto simp: spec_typed_def identifier_ok_def)
  have comp: "compile_plan H \<lparr>spec_plan_id = spec_plan_id ?s, spec_format_version = spec_format_version ?s,
      spec_membership_epoch = spec_membership_epoch ?s, spec_voters = spec_voters ?s,
      spec_learners = spec_learners ?s, spec_eligible_leaders = spec_eligible_leaders ?s,
      spec_election = spec_election ?s, spec_commit = spec_commit ?s, spec_read = spec_read ?s\<rparr> = Inr plan"
    using v unfolding valid_plan_def by (cases ?s) simp
  let ?bs = "plan_id_bytes (spec_plan_id ?s) @ be_bytes 2 (spec_format_version ?s) @
      be_bytes 8 (spec_membership_epoch ?s) @ vo @ le @ el @ e @ c @ r"
  have "enc_plan_spec ?s = Inr ?bs"
    using p(1-3) i(1-3) by (simp add: enc_plan_spec_def)
  moreover have "length ?bs \<le> 6300"
    using p(4-6) i(4-6) id(1) by simp
  moreover have "dec_compiled_plan H (?bs @ rest) = Inr (plan, rest)" for rest
    using p(7-9) i(7-9) id N[of Election] N[of Commit] comp
    by (simp add: dec_compiled_plan_def dec_plan_id_def cursor_defs)
  ultimately show ?thesis by blast
qed

lemma magic_length [simp]: "length RECORD_MAGIC = 4"
  by (simp add: RECORD_MAGIC_def ascii_def)

lemma encode_plan_round_trip:
  assumes "valid_active H plan" "active_typed plan"
  shows "\<exists>bs. encode_plan plan = Inr bs \<and> length bs \<le> 12607 \<and> decode_plan H bs = Inr plan"
proof (cases plan)
  case (Stable p)
  then obtain bs where "enc_plan_spec (plan_spec p) = Inr bs" "length bs \<le> 6300"
    "dec_compiled_plan H bs = Inr (p, [])"
    using spec_round_trip[of H p] assms by (metis append_Nil2 active_typed.simps(1) valid_active.simps(1))
  then show ?thesis
    using Stable by (simp add: encode_plan_def decode_plan_def cursor_defs MAXIMUM_RECORD_BYTES_def
        RECORD_VERSION_def u16_max_def STABLE_PHASE_def)
next
  case (Joint j)
  then have j: "valid_joint H j" using assms by simp
  obtain old where old: "enc_plan_spec (plan_spec (joint_old j)) = Inr old" "length old \<le> 6300"
    "\<And>rest. dec_compiled_plan H (old @ rest) = Inr (joint_old j, rest)"
    using spec_round_trip[of H "joint_old j"] assms Joint by (auto simp: valid_joint_def)
  obtain new where new: "enc_plan_spec (plan_spec (joint_new j)) = Inr new" "length new \<le> 6300"
    "dec_compiled_plan H new = Inr (joint_new j, [])"
    using spec_round_trip[of H "joint_new j"] assms Joint
    by (metis append_Nil2 active_typed.simps(2) valid_active.simps(2) valid_joint_def)
  then show ?thesis
    using Joint old j by (simp add: encode_plan_def decode_plan_def cursor_defs MAXIMUM_RECORD_BYTES_def
        RECORD_VERSION_def u16_max_def STABLE_PHASE_def JOINT_PHASE_def valid_joint_def)
qed

lemma dec_compiled_plan_valid: "dec_compiled_plan H bs = Inr (plan, rest) \<Longrightarrow> valid_plan H plan"
  by (auto simp: dec_compiled_plan_def result_simps dest: compile_plan_valid)

lemma decode_plan_valid: "decode_plan H bs = Inr plan \<Longrightarrow> valid_active H plan"
  by (auto simp: decode_plan_def result_simps split: if_splits
      dest!: dec_compiled_plan_valid intro: joint_plan_new_valid)

text \<open>Whatever the readers return fits the widths of the source types.\<close>

lemma cursor_unsigned_bound:
  "cursor_unsigned 2 bs = Inr (n, rest) \<Longrightarrow> n \<le> u16_max"
  "cursor_unsigned 4 bs = Inr (n, rest) \<Longrightarrow> n \<le> u32_max"
  "cursor_unsigned 8 bs = Inr (n, rest) \<Longrightarrow> n \<le> u64_max"
  using read_uint_bound[of RecordMalformed 2 bs n rest] read_uint_bound[of RecordMalformed 4 bs n rest]
    read_uint_bound[of RecordMalformed 8 bs n rest]
  by (simp_all add: cursor_defs u16_max_def u32_max_def u64_max_def)

lemma cursor_node_id_typed: "cursor_node_id bs = Inr (v, rest) \<Longrightarrow> identifier_ok (node_bytes v)"
  using read_node_id_Inr[of RecordMalformed bs v rest] by (simp add: cursor_defs)

lemma read_many_all: "read_many n item bs = Inr (xs, rest) \<Longrightarrow> (\<And>bs x rest. item bs = Inr (x, rest) \<Longrightarrow> P x) \<Longrightarrow> list_all P xs"
  by (induction n arbitrary: bs xs rest) (fastforce simp: result_simps)+

lemma dec_weighted_voter_typed:
  assumes "dec_weighted_voter bs = Inr (w, rest)"
  shows "identifier_ok (node_bytes (wv_voter w)) \<and> wv_weight w \<le> u16_max"
proof -
  obtain v r x where *: "cursor_node_id bs = Inr (v, r)" "cursor_unsigned 2 r = Inr (x, rest)"
    "w = \<lparr>wv_voter = v, wv_weight = x\<rparr>"
    using assms by (auto simp: dec_weighted_voter_def result_simps)
  show ?thesis
    using cursor_node_id_typed[OF *(1)] cursor_unsigned_bound(1)[OF *(2)] *(3) by simp
qed

lemma dec_weighted_typed:
  assumes "dec_weighted bs = Inr (p, rest)"
  shows "predicate_typed p"
proof -
  obtain t r count r' ws where *: "cursor_unsigned 4 bs = Inr (t, r)"
    "read_many count dec_weighted_voter r' = Inr (ws, rest)" "p = WeightedAtLeast t ws"
    using assms by (auto simp: dec_weighted_def result_simps)
  show ?thesis
    using cursor_unsigned_bound(2)[OF *(1)] read_many_all[OF *(2) dec_weighted_voter_typed] *(3) by simp
qed

lemma byte_bound: "unat (t :: byte) \<le> u8_max"
  using unsigned_less[of t, where 'a = nat] by (simp add: u8_max_def)

lemma dec_predicate_Inr:
  assumes "dec_predicate depth n bs = Inr ((p, n'), rest)"
  shows "(\<exists>v bs' r. cursor_node_id bs' = Inr (v, r) \<and> p = Voter v) \<or>
    (\<exists>bs' r. dec_weighted bs' = Inr (p, r)) \<or>
    (\<exists>t cs count m bs' r. dec_children count depth (Suc n) bs' = Inr ((cs, m), r) \<and>
       (p = AtLeast (unat (t :: byte)) cs \<or> p = All cs))"
  using assms unfolding dec_predicate.simps[of depth n bs] result_simps
  by (auto simp: result_simps split: if_splits)


lemma dec_children_each:
  assumes "dec_children count depth n bs = Inr ((ps, n'), rest)" "c \<in> set ps"
  shows "\<exists>d m bs' m' r. dec_predicate d m bs' = Inr ((c, m'), r)"
  using assms
proof (induction count arbitrary: n bs ps)
  case (Suc count)
  from Suc.prems(1) obtain q m r qs where *: "dec_predicate (depth + 1) n bs = Inr ((q, m), r)"
    "dec_children count depth m r = Inr ((qs, n'), rest)" "ps = q # qs"
    by (auto simp: result_simps)
  show ?case
    using Suc.IH[OF *(2)] Suc.prems(2) *(1,3) by (metis set_ConsD)
qed simp

lemma dec_predicate_typed:
  "dec_predicate depth n bs = Inr ((p, n'), rest) \<Longrightarrow> predicate_typed p"
proof (induction p arbitrary: depth n bs n' rest rule: measure_induct_rule[of size])
  case (less p)
  consider (voter) v bs' r where "cursor_node_id bs' = Inr (v, r)" "p = Voter v"
    | (weighted) bs' r where "dec_weighted bs' = Inr (p, r)"
    | (children) t cs count m bs' r where "dec_children count depth (Suc n) bs' = Inr ((cs, m), r)"
        "p = AtLeast (unat (t :: byte)) cs \<or> p = All cs"
    using dec_predicate_Inr[OF less.prems] by blast
  then show ?case
  proof cases
    case voter
    then show ?thesis using cursor_node_id_typed by simp
  next
    case weighted
    then show ?thesis by (rule dec_weighted_typed)
  next
    case children
    have "predicate_typed c" if "c \<in> set cs" for c
    proof -
      have "size c < size p"
        using children(2) size_list_estimation'[OF that, of "size c" size] by auto
      then show ?thesis
        using less.IH dec_children_each[OF children(1) that] by blast
    qed
    then show ?thesis
      using children(2) byte_bound by (auto simp: list_all_iff)
  qed
qed

lemma dec_identifiers_loop_typed:
  "dec_identifiers_loop n acc bs = Inr (vs, rest) \<Longrightarrow> identifiers_typed acc \<Longrightarrow> identifiers_typed vs"
proof (induction n arbitrary: acc bs)
  case (Suc n)
  from Suc.prems(1) obtain v r where *: "cursor_node_id bs = Inr (v, r)"
    "dec_identifiers_loop n (finsert v acc) r = Inr (vs, rest)"
    by (auto simp: result_simps split: if_splits)
  show ?case
    by (rule Suc.IH[OF *(2)]) (use Suc.prems(2) cursor_node_id_typed[OF *(1)] in \<open>simp add: identifiers_typed_def\<close>)
qed simp

lemma dec_identifiers_typed: "dec_identifiers bs = Inr (vs, rest) \<Longrightarrow> identifiers_typed vs"
  by (auto simp: dec_identifiers_def result_simps identifiers_typed_def
      dest!: dec_identifiers_loop_typed)

lemma dec_plan_id_typed: "dec_plan_id bs = Inr (v, rest) \<Longrightarrow> identifier_ok (plan_id_bytes v)"
  by (auto simp: dec_plan_id_def result_simps cursor_defs plan_id_from_bytes_def validate_identifier_def
      identifier_ok_def split: if_splits dest!: read_exact_Inr)

lemma dec_compiled_plan_typed:
  assumes "dec_compiled_plan H bs = Inr (plan, rest)"
  shows "spec_typed (plan_spec plan)"
proof -
  obtain plan_id r1 fv r2 epoch r3 voters r4 learners r5 leaders r6 election n7 r7 commit n8 r8 read n9 where *:
    "dec_plan_id bs = Inr (plan_id, r1)" "cursor_unsigned 2 r1 = Inr (fv, r2)"
    "cursor_unsigned 8 r2 = Inr (epoch, r3)" "dec_identifiers r3 = Inr (voters, r4)"
    "dec_identifiers r4 = Inr (learners, r5)" "dec_identifiers r5 = Inr (leaders, r6)"
    "dec_predicate 1 0 r6 = Inr ((election, n7), r7)" "dec_predicate 1 n7 r7 = Inr ((commit, n8), r8)"
    "dec_predicate 1 n8 r8 = Inr ((read, n9), rest)"
    "compile_plan H \<lparr>spec_plan_id = plan_id, spec_format_version = fv, spec_membership_epoch = epoch,
       spec_voters = voters, spec_learners = learners, spec_eligible_leaders = leaders,
       spec_election = election, spec_commit = commit, spec_read = read\<rparr> = Inr plan"
    using assms unfolding dec_compiled_plan_def by (clarsimp simp: result_simps)
  have "predicate_typed election" "predicate_typed commit" "predicate_typed read"
    using *(7-9)[THEN dec_predicate_typed] by auto
  then have "predicate_typed (spec_predicate (plan_spec plan) f)" for f
    using compile_plan_valid[OF *(10)] by (cases f) auto
  then show ?thesis
    using dec_plan_id_typed[OF *(1)] cursor_unsigned_bound(1)[OF *(2)] cursor_unsigned_bound(3)[OF *(3)]
      *(4-6)[THEN dec_identifiers_typed] compile_plan_valid[OF *(10)] by (simp add: spec_typed_def)
qed

lemma joint_plan_parts: "joint_plan_new H old new = Inr joint \<Longrightarrow> joint_old joint = old \<and> joint_new joint = new"
  using joint_plan_new_Inr by blast

lemma decode_plan_typed: "decode_plan H bs = Inr plan \<Longrightarrow> active_typed plan"
  by (auto simp: decode_plan_def result_simps split: if_splits
      dest!: dec_compiled_plan_typed joint_plan_parts)

end
