(* ===== verification/Membership_Command.thy ===== *)
theory Membership_Command
  imports Membership Plan_Record
begin

text \<open>
  Canonical replicated-log commands for membership transitions (\<open>membership_command.rs\<close>).

  The lemmas show that encoding a valid command succeeds and that decoding gives it back, that whatever
  decodes passes validation and carries recompiled plans, and that every transition the planners of
  \<open>membership.rs\<close> build is accepted here.
\<close>

section \<open>Commands\<close>

definition MEMBERSHIP_COMMAND_VERSION :: nat where "MEMBERSHIP_COMMAND_VERSION = 2"
definition COMMAND_MAGIC :: bytes where "COMMAND_MAGIC = ascii ''MSMC''"
definition COMMAND_FORMAT_VERSION :: nat where "COMMAND_FORMAT_VERSION = 1"
definition ADMIT_LEARNER :: byte where "ADMIT_LEARNER = 1"
definition PROMOTE_LEARNER :: byte where "PROMOTE_LEARNER = 2"
definition FINALISE_STABLE :: byte where "FINALISE_STABLE = 3"
definition REMOVE_MEMBER :: byte where "REMOVE_MEMBER = 4"
definition MAXIMUM_COMMAND_BYTES :: nat where "MAXIMUM_COMMAND_BYTES = 96 * 1024"

datatype membership_command_error =
    CommandMalformed
  | CommandPlan plan_record_error
  | CommandInvalidTransition

datatype membership_transition_command =
    AdmitLearner joint_quorum_plan node_id nat
  | PromoteLearner joint_quorum_plan catch_up_evidence
  | RemoveMember joint_quorum_plan node_id nat
  | FinaliseStable compiled_quorum_plan

definition validate_admission :: "joint_quorum_plan \<Rightarrow> node_id \<Rightarrow> nat \<Rightarrow> membership_command_error + unit" where
  "validate_admission joint node inc =
     (let old = plan_spec (joint_old joint); new = plan_spec (joint_new joint);
          expected_learners = finsert node (spec_learners old);
          inserted = node |\<notin>| spec_learners old
      in if inc = 0 \<or> \<not> inserted \<or> spec_voters old \<noteq> spec_voters new
            \<or> expected_learners \<noteq> spec_learners new
         then Inl CommandInvalidTransition else Inr ())"

definition validate_promotion :: "joint_quorum_plan \<Rightarrow> catch_up_evidence \<Rightarrow> membership_command_error + unit" where
  "validate_promotion joint evidence =
     (let old = plan_spec (joint_old joint); new = plan_spec (joint_new joint);
          was_learner = ev_node_id evidence |\<in>| spec_learners old;
          expected_learners = spec_learners old |-| {|ev_node_id evidence|};
          became_voter = ev_node_id evidence |\<notin>| spec_voters old;
          expected_voters = finsert (ev_node_id evidence) (spec_voters old)
      in if \<not> ev_promotion_eligible evidence \<or> ev_incarnation evidence = 0
            \<or> ev_committed_position evidence = GENESIS \<or> \<not> was_learner \<or> \<not> became_voter
            \<or> expected_voters \<noteq> spec_voters new \<or> expected_learners \<noteq> spec_learners new
         then Inl CommandInvalidTransition else Inr ())"

definition validate_removal :: "joint_quorum_plan \<Rightarrow> node_id \<Rightarrow> nat \<Rightarrow> membership_command_error + unit" where
  "validate_removal joint node inc =
     (let old = plan_spec (joint_old joint); new = plan_spec (joint_new joint);
          was_voter = node |\<in>| spec_voters old;
          expected_voters = spec_voters old |-| {|node|};
          was_learner = \<not> was_voter \<and> node |\<in>| spec_learners old;
          expected_learners = (if was_voter then spec_learners old else spec_learners old |-| {|node|})
      in if inc = 0 \<or> \<not> (was_voter \<or> was_learner) \<or> expected_voters = {||}
            \<or> expected_voters \<noteq> spec_voters new \<or> expected_learners \<noteq> spec_learners new
         then Inl CommandInvalidTransition else Inr ())"

fun validate_command :: "membership_transition_command \<Rightarrow> membership_command_error + unit" where
  "validate_command (AdmitLearner joint node inc) = validate_admission joint node inc"
| "validate_command (PromoteLearner joint evidence) = validate_promotion joint evidence"
| "validate_command (RemoveMember joint node inc) = validate_removal joint node inc"
| "validate_command (FinaliseStable plan) = Inr ()"

section \<open>Encoding\<close>

fun command_kind_plan :: "membership_transition_command \<Rightarrow> byte \<times> active_quorum_plan" where
  "command_kind_plan (AdmitLearner joint _ _) = (ADMIT_LEARNER, Joint joint)"
| "command_kind_plan (PromoteLearner joint _) = (PROMOTE_LEARNER, Joint joint)"
| "command_kind_plan (RemoveMember joint _ _) = (REMOVE_MEMBER, Joint joint)"
| "command_kind_plan (FinaliseStable plan) = (FINALISE_STABLE, Stable plan)"

fun encode_evidence :: "membership_transition_command \<Rightarrow> bytes" where
  "encode_evidence (AdmitLearner _ node inc) = node_bytes node @ be_bytes 8 inc"
| "encode_evidence (RemoveMember _ node inc) = node_bytes node @ be_bytes 8 inc"
| "encode_evidence (PromoteLearner _ evidence) =
     node_bytes (ev_node_id evidence) @ be_bytes 8 (ev_incarnation evidence) @
     be_bytes 8 (pos_term (ev_committed_position evidence)) @
     be_bytes 8 (pos_index (ev_committed_position evidence)) @ ev_committed_entry_digest evidence"
| "encode_evidence (FinaliseStable _) = []"

definition encode_command :: "membership_transition_command \<Rightarrow> membership_command_error + bytes" where
  "encode_command command =
     try_r (validate_command command) (\<lambda>_.
       let (kind, active) = command_kind_plan command
       in try_r (map_err CommandPlan (encode_plan active)) (\<lambda>plan.
          try_r (ok_or CommandMalformed (try_narrow u32_max (length plan))) (\<lambda>plan_length.
            let output = COMMAND_MAGIC @ be_bytes 2 COMMAND_FORMAT_VERSION @ [kind, 0] @
                  be_bytes 4 plan_length @ plan @ encode_evidence command
            in if length output > MAXIMUM_COMMAND_BYTES then Inl CommandMalformed else Inr output)))"

section \<open>Decoding\<close>

definition read_slice :: "nat \<Rightarrow> (membership_command_error, bytes) reader" where
  "read_slice = read_exact CommandMalformed"

definition read_u8 :: "(membership_command_error, byte) reader" where
  "read_u8 = read_byte CommandMalformed"

definition read_unsigned :: "nat \<Rightarrow> (membership_command_error, nat) reader" where
  "read_unsigned = read_uint CommandMalformed"

definition command_node_id :: "(membership_command_error, node_id) reader" where
  "command_node_id = read_node_id CommandMalformed"

definition decode_evidence ::
  "byte \<Rightarrow> active_quorum_plan \<Rightarrow> (membership_command_error, membership_transition_command) reader" where
  "decode_evidence kind active bs =
     (case active of
        Joint joint \<Rightarrow>
          if kind = ADMIT_LEARNER then
            try_r (command_node_id bs) (\<lambda>(node, bs).
            try_r (read_unsigned 8 bs) (\<lambda>(inc, bs). Inr (AdmitLearner joint node inc, bs)))
          else if kind = PROMOTE_LEARNER then
            try_r (command_node_id bs) (\<lambda>(node, bs).
            try_r (read_unsigned 8 bs) (\<lambda>(inc, bs).
            try_r (read_unsigned 8 bs) (\<lambda>(position_term, bs).
            try_r (read_unsigned 8 bs) (\<lambda>(position_index, bs).
            try_r (read_slice 32 bs) (\<lambda>(digest, bs).
              Inr (PromoteLearner joint \<lparr>ev_node_id = node, ev_incarnation = inc,
                ev_committed_position = \<lparr>pos_term = position_term, pos_index = position_index\<rparr>,
                ev_committed_entry_digest = digest, ev_promotion_eligible = True\<rparr>, bs))))))
          else if kind = REMOVE_MEMBER then
            try_r (command_node_id bs) (\<lambda>(node, bs).
            try_r (read_unsigned 8 bs) (\<lambda>(inc, bs). Inr (RemoveMember joint node inc, bs)))
          else Inl CommandInvalidTransition
      | Stable plan \<Rightarrow>
          if kind = FINALISE_STABLE then Inr (FinaliseStable plan, bs)
          else Inl CommandInvalidTransition)"

definition decode_command ::
  "(bytes \<Rightarrow> bytes) \<Rightarrow> bytes \<Rightarrow> membership_command_error + membership_transition_command" where
  "decode_command H bs =
     (if length bs > MAXIMUM_COMMAND_BYTES then Inl CommandMalformed
      else try_r (read_slice 4 bs) (\<lambda>(magic, bs).
        if magic \<noteq> COMMAND_MAGIC then Inl CommandMalformed
        else try_r (read_unsigned 2 bs) (\<lambda>(version, bs).
        if version \<noteq> COMMAND_FORMAT_VERSION then Inl CommandMalformed
        else try_r (read_u8 bs) (\<lambda>(kind, bs).
        try_r (read_u8 bs) (\<lambda>(reserved, bs).
        if reserved \<noteq> 0 then Inl CommandMalformed
        else try_r (read_unsigned 4 bs) (\<lambda>(plan_length, bs).
        try_r (read_slice plan_length bs) (\<lambda>(plan_bytes, bs).
        try_r (map_err CommandPlan (decode_plan H plan_bytes)) (\<lambda>plan.
        try_r (decode_evidence kind plan bs) (\<lambda>(command, bs).
        if bs \<noteq> [] then Inl CommandMalformed
        else try_r (validate_command command) (\<lambda>_. Inr command))))))))))"

section \<open>Lemmas\<close>

text \<open>The values a command can hold: the widths of its fields and plans that compilation produced.\<close>

fun command_typed :: "membership_transition_command \<Rightarrow> bool" where
  "command_typed (AdmitLearner joint node inc) = (active_typed (Joint joint) \<and> identifier_ok (node_bytes node) \<and> inc \<le> u64_max)"
| "command_typed (RemoveMember joint node inc) = (active_typed (Joint joint) \<and> identifier_ok (node_bytes node) \<and> inc \<le> u64_max)"
| "command_typed (PromoteLearner joint evidence) =
     (active_typed (Joint joint) \<and> identifier_ok (node_bytes (ev_node_id evidence)) \<and>
      ev_incarnation evidence \<le> u64_max \<and> pos_term (ev_committed_position evidence) \<le> u64_max \<and>
      pos_index (ev_committed_position evidence) \<le> u64_max \<and> length (ev_committed_entry_digest evidence) = 32)"
| "command_typed (FinaliseStable plan) = active_typed (Stable plan)"

definition command_plan :: "membership_transition_command \<Rightarrow> active_quorum_plan" where
  "command_plan command = snd (command_kind_plan command)"

lemmas command_reader_defs = read_slice_def read_u8_def read_unsigned_def command_node_id_def
lemmas command_tag_defs = ADMIT_LEARNER_def PROMOTE_LEARNER_def FINALISE_STABLE_def REMOVE_MEMBER_def

lemma command_magic_length [simp]: "length COMMAND_MAGIC = 4"
  by (simp add: COMMAND_MAGIC_def ascii_def)

lemma encode_evidence_length: "command_typed command \<Longrightarrow> length (encode_evidence command) \<le> 72"
  by (cases command) (auto simp: identifier_ok_def)

lemma evidence_round_trip:
  assumes "command_typed command" "validate_command command = Inr ()"
  shows "decode_evidence (fst (command_kind_plan command)) (command_plan command) (encode_evidence command @ rest) =
    Inr (command, rest)"
proof (cases command)
  case (PromoteLearner joint evidence)
  then have "ev_promotion_eligible evidence"
    using assms(2) by (auto simp: validate_promotion_def Let_def split: if_splits)
  with PromoteLearner assms(1) show ?thesis
    by (cases evidence) (auto simp: decode_evidence_def command_plan_def command_reader_defs command_tag_defs)
qed (use assms in \<open>auto simp: decode_evidence_def command_plan_def command_reader_defs command_tag_defs\<close>)

lemma command_plan_typed: "command_typed command \<Longrightarrow> active_typed (command_plan command)"
  by (cases command) (auto simp: command_plan_def)

lemma encode_command_round_trip:
  assumes t: "command_typed command" and v: "valid_active H (command_plan command)"
    and ok: "validate_command command = Inr ()"
  shows "\<exists>bs. encode_command command = Inr bs \<and> decode_command H bs = Inr command"
proof -
  obtain plan where plan: "encode_plan (command_plan command) = Inr plan" "length plan \<le> 12607"
    "decode_plan H plan = Inr (command_plan command)"
    using encode_plan_round_trip[OF v command_plan_typed[OF t]] by blast
  obtain kind where kind: "command_kind_plan command = (kind, command_plan command)"
    by (metis command_plan_def prod.collapse)
  let ?out = "COMMAND_MAGIC @ be_bytes 2 COMMAND_FORMAT_VERSION @ [kind, 0] @
      be_bytes 4 (length plan) @ plan @ encode_evidence command"
  have len: "length ?out \<le> MAXIMUM_COMMAND_BYTES" "length plan \<le> u32_max"
    using plan(2) encode_evidence_length[OF t] by (auto simp: MAXIMUM_COMMAND_BYTES_def u32_max_def)
  have "encode_command command = Inr ?out"
    using ok kind plan(1) len by (simp add: encode_command_def Let_def try_narrow_def)
  moreover have "decode_evidence kind (command_plan command) (encode_evidence command) = Inr (command, [])"
    using evidence_round_trip[OF t ok, of "[]"] kind by simp
  then have "decode_command H ?out = Inr command"
    using len plan(3) ok
    by (simp add: decode_command_def command_reader_defs COMMAND_FORMAT_VERSION_def u16_max_def)
  ultimately show ?thesis by blast
qed

lemma decode_command_Inr:
  assumes "decode_command H bs = Inr command"
  shows "validate_command command = Inr ()" "valid_active H (command_plan command)"
proof -
  obtain kind plan pb b r where *: "decode_plan H pb = Inr plan" "decode_evidence kind plan b = Inr (command, r)"
    "validate_command command = Inr ()"
    using assms by (auto simp: decode_command_def result_simps split: if_splits)
  show "validate_command command = Inr ()" by (rule *(3))
  have "command_plan command = plan"
    using *(2) by (auto simp: decode_evidence_def command_plan_def result_simps split: active_quorum_plan.splits if_splits)
  then show "valid_active H (command_plan command)"
    using decode_plan_valid[OF *(1)] by simp
qed

text \<open>What the planners build is accepted.\<close>

lemma removal_validates:
  assumes v: "valid_plan H old"
    and p: "plan_flat_member_removal H old accepted node inc new_plan_id = Inr planned"
  shows "validate_command (RemoveMember (removal_joint_plan planned) node inc) = Inr ()"
proof -
  have t: "removal_target old accepted node inc"
    using p by (auto simp: plan_removal_cases[OF v] split: if_splits)
  have "spec_voters (plan_spec old) |-| {|node|} \<noteq> {||}"
    using t valid_plan_membership[OF v] by (auto simp: removal_target_def fminus_singleton_empty validate_membership_Inr)
  then show ?thesis
    using t plan_removal_Inr(3-5)[OF v p] removal_membership(2)[OF v]
    by (auto simp: validate_removal_def removal_target_def plan_members_def Let_def)
qed

lemma admission_validates:
  assumes v: "valid_plan H old"
    and p: "plan_next_flat_learner_admission H old accepted candidates new_plan_id = Inr (Some planned)"
    and i: "fmlookup candidates (admitted_node_id planned) = Some inc"
  shows "validate_command (AdmitLearner (admission_joint_plan planned) (admitted_node_id planned) inc) = Inr ()"
  using plan_admission_Inr[OF v p] i
  by (auto simp: validate_admission_def candidates_ok_def plan_members_def Let_def)

lemma promotion_validates:
  assumes v: "valid_plan H old"
    and p: "plan_next_flat_promotion H old accepted evidence position digest desired new_plan_id = Inr (Some planned)"
    and e: "fmlookup evidence (promoted_node_id planned) = Some ev"
  shows "validate_command (PromoteLearner (promotion_joint_plan planned) ev) = Inr ()"
  using plan_promotion_Inr[OF v p] e valid_plan_membership[OF v]
  by (auto simp: validate_promotion_def caught_up_def GENESIS_def validate_membership_Inr Let_def)

end
