(* ===== verification/Membership_History.thy ===== *)
theory Membership_History
  imports Membership_Command
begin

text \<open>
  Committed phase boundaries (\<open>core/membership_history.rs\<close>): which plan was active up to which committed
  position, recorded on activation and rebuilt from the applied part of the durable log.

  The lemmas show that a rebuilt history depends on the applied entries alone, so that an uncommitted tail
  never authorises replay, and that it is a chain of phases ending in the active plan.
\<close>

record phase_boundary =
  pb_plan :: active_quorum_plan
  pb_committed_position :: log_position

type_synonym membership_history = "(nat \<times> bytes, phase_boundary) fmap"

definition history_record ::
  "active_quorum_plan \<Rightarrow> log_position \<Rightarrow> membership_history \<Rightarrow> membership_history" where
  "history_record plan position history =
     fmupd (active_membership_epoch plan, active_proof_digest plan)
       \<lparr>pb_plan = plan, pb_committed_position = position\<rparr> history"

definition history_find :: "nat \<Rightarrow> bytes \<Rightarrow> membership_history \<Rightarrow> phase_boundary option" where
  "history_find epoch digest history = fmlookup history (epoch, digest)"

text \<open>The three joint-entering commands share one arm of the match.\<close>

definition enter_joint ::
  "joint_quorum_plan \<Rightarrow> active_quorum_plan option \<Rightarrow> core_error + active_quorum_plan \<times> active_quorum_plan" where
  "enter_joint joint previous_successor =
     (let previous = Stable (joint_old joint)
      in if (case previous_successor of None \<Rightarrow> False | Some plan \<Rightarrow> plan \<noteq> previous)
         then Inl InvalidConfiguration else Inr (previous, Joint joint))"

fun phase_change ::
  "membership_transition_command \<Rightarrow> active_quorum_plan option \<Rightarrow>
     core_error + active_quorum_plan \<times> active_quorum_plan" where
  "phase_change (AdmitLearner joint _ _) previous_successor = enter_joint joint previous_successor"
| "phase_change (PromoteLearner joint _) previous_successor = enter_joint joint previous_successor"
| "phase_change (RemoveMember joint _ _) previous_successor = enter_joint joint previous_successor"
| "phase_change (FinaliseStable plan) previous_successor =
     (case previous_successor of
        Some (Joint joint) \<Rightarrow>
          if joint_new joint \<noteq> plan then Inl InvalidConfiguration else Inr (Joint joint, Stable plan)
      | _ \<Rightarrow> Inl InvalidConfiguration)"

fun history_loop ::
  "(bytes \<Rightarrow> bytes) \<Rightarrow> log_entry list \<Rightarrow> membership_history \<Rightarrow> active_quorum_plan option \<Rightarrow>
     core_error + membership_history \<times> active_quorum_plan option" where
  "history_loop H [] history previous_successor = Inr (history, previous_successor)"
| "history_loop H (e # es) history previous_successor =
     (if le_command_version e \<noteq> MEMBERSHIP_COMMAND_VERSION then history_loop H es history previous_successor
      else try_r (map_err (\<lambda>_. InvalidConfiguration) (decode_command H (le_command e))) (\<lambda>command.
        try_r (phase_change command previous_successor) (\<lambda>(previous, successor).
          history_loop H es (history_record previous (le_position e) history) (Some successor))))"

definition history_restore ::
  "(bytes \<Rightarrow> bytes) \<Rightarrow> log_entry list \<Rightarrow> nat \<Rightarrow> active_quorum_plan \<Rightarrow> core_error + membership_history" where
  "history_restore H log applied_index active =
     try_r (history_loop H (takeWhile (\<lambda>e. entry_index e \<le> applied_index) log) fmempty None)
       (\<lambda>(history, previous_successor).
         if (case previous_successor of None \<Rightarrow> False | Some plan \<Rightarrow> plan \<noteq> active)
         then Inl InvalidConfiguration else Inr history)"

section \<open>Lemmas\<close>

lemma history_find_record:
  "history_find epoch digest (history_record plan position history) =
     (if (epoch, digest) = (active_membership_epoch plan, active_proof_digest plan)
      then Some \<lparr>pb_plan = plan, pb_committed_position = position\<rparr> else history_find epoch digest history)"
  by (auto simp: history_find_def history_record_def)

lemma phase_change_valid:
  assumes "phase_change command previous_successor = Inr (previous, successor)"
    and "valid_active H (command_plan command)"
    and "\<And>p. previous_successor = Some p \<Longrightarrow> valid_active H p"
  shows "valid_active H previous" "valid_active H successor"
    "previous_successor = None \<or> previous_successor = Some previous"
  using assms
  by (cases command; auto simp: enter_joint_def command_plan_def valid_joint_def Let_def
      split: if_splits option.splits active_quorum_plan.splits)+

text \<open>A boundary of a rebuilt history is an applied position with a valid plan.\<close>

lemma history_loop_boundaries:
  assumes "history_loop H es history ps = Inr (history', ps')"
    and "history_find epoch digest history' = Some b"
    and "\<And>p. ps = Some p \<Longrightarrow> valid_active H p"
  shows "history_find epoch digest history = Some b \<or>
    valid_active H (pb_plan b) \<and> (\<exists>e \<in> set es. le_position e = pb_committed_position b)"
  using assms
proof (induction es arbitrary: history ps)
  case (Cons e es)
  show ?case
  proof (cases "le_command_version e = MEMBERSHIP_COMMAND_VERSION")
    case False
    then show ?thesis using Cons.IH[OF _ Cons.prems(2,3)] Cons.prems(1) by auto
  next
    case True
    then obtain command previous successor where *: "decode_command H (le_command e) = Inr command"
      "phase_change command ps = Inr (previous, successor)"
      "history_loop H es (history_record previous (le_position e) history) (Some successor) = Inr (history', ps')"
      using Cons.prems(1) by (auto simp: result_simps)
    note v = phase_change_valid[OF *(2) decode_command_Inr(2)[OF *(1)] Cons.prems(3)]
    from Cons.IH[OF *(3) Cons.prems(2)] v(2) show ?thesis
      using v(1) by (auto simp: history_find_record split: if_splits)
  qed
qed auto

lemma history_restore_applied_only:
  assumes "\<forall>i < length log. entry_index (log ! i) = Suc i" "applied_index \<le> length log"
  shows "history_restore H log applied_index active = history_restore H (take applied_index log) applied_index active"
proof -
  have "takeWhile (\<lambda>e. entry_index e \<le> applied_index) log = take applied_index log"
    by (rule takeWhile_eq_take_P_nth) (use assms in auto)
  moreover have "takeWhile (\<lambda>e. entry_index e \<le> applied_index) (take applied_index log) = take applied_index log"
    using assms by (auto simp: takeWhile_eq_all_conv in_set_conv_nth)
  ultimately show ?thesis by (simp add: history_restore_def del: takeWhile_eq_all_conv)
qed

lemma history_restore_boundaries:
  assumes "history_restore H log applied_index active = Inr history"
    and "history_find epoch digest history = Some b"
  shows "valid_active H (pb_plan b) \<and>
    (\<exists>e \<in> set log. le_position e = pb_committed_position b \<and> entry_index e \<le> applied_index)"
proof -
  obtain ps where "history_loop H (takeWhile (\<lambda>e. entry_index e \<le> applied_index) log) fmempty None = Inr (history, ps)"
    using assms(1) by (auto simp: history_restore_def result_simps split: if_splits)
  from history_loop_boundaries[OF this assms(2)] show ?thesis
    by (auto simp: history_find_def dest!: set_takeWhileD)
qed

end
