(* ===== verification/Append_Probes.thy ===== *)
theory Append_Probes
  imports Core_Types
begin

text \<open>
  Outstanding append probes of a leader for one peer (\<open>core/append_probes.rs\<close>): two bounded lanes, one for
  replication evidence and one for leader contact, correlated by probe identity.

  The lemmas show the lane bound, that a response is accepted as evidence only for the exact range and
  digest of an outstanding probe, and that evidence is consumed once.
\<close>

definition MAXIMUM_PROBES_PER_LANE :: nat where "MAXIMUM_PROBES_PER_LANE = 64"

datatype probe_kind = Replication | Contact

record append_probe =
  probe_previous :: log_position
  probe_previous_digest :: bytes
  probe_through :: log_position
  probe_digest :: bytes
  probe_read_barrier_id :: "read_barrier_id option"

record append_probes =
  probes_replication :: "(append_probe_id, append_probe) fmap"
  probes_contacts :: "(append_probe_id, append_probe) fmap"
  probes_latest :: "append_probe_id option"

definition probes_default :: append_probes where
  "probes_default = \<lparr>probes_replication = fmempty, probes_contacts = fmempty, probes_latest = None\<rparr>"

datatype probe_result =
    Matched nat
  | Conflict nat bool
  | ContactEvidence

definition probe_from_request :: "(bytes \<Rightarrow> bytes) \<Rightarrow> append_request \<Rightarrow> append_probe" where
  "probe_from_request H request =
     (let (through, digest) = (case last_opt (areq_entries request) of
          None \<Rightarrow> (areq_previous request, areq_previous_digest request)
        | Some e \<Rightarrow> (le_position e, entry_digest H e))
      in \<lparr>probe_previous = areq_previous request, probe_previous_digest = areq_previous_digest request,
          probe_through = through, probe_digest = digest,
          probe_read_barrier_id = areq_read_barrier_id request\<rparr>)"

definition replication_id :: "(bytes \<Rightarrow> bytes) \<Rightarrow> append_probes \<Rightarrow> append_request \<Rightarrow> append_probe_id option" where
  "replication_id H probes request =
     (let wanted = probe_from_request H request
      in case List.find (\<lambda>(_, existing). existing = wanted) (btree_items (probes_replication probes)) of
           None \<Rightarrow> None | Some (i, _) \<Rightarrow> Some i)"

text \<open>Insertion in one lane, dropping the oldest probe beyond the bound.\<close>

definition lane_insert ::
  "append_probe_id \<Rightarrow> append_probe \<Rightarrow> (append_probe_id, append_probe) fmap \<Rightarrow> (append_probe_id, append_probe) fmap" where
  "lane_insert i probe lane =
     (let lane' = fmupd i probe lane
      in if fcard (fmdom lane') > MAXIMUM_PROBES_PER_LANE then pop_first lane' else lane')"

definition probe_sent :: "(bytes \<Rightarrow> bytes) \<Rightarrow> append_probes \<Rightarrow> append_request \<Rightarrow> probe_kind \<Rightarrow> append_probes" where
  "probe_sent H probes request kind =
     (case kind of
        Replication \<Rightarrow> probes\<lparr>probes_latest := Some (areq_probe_id request),
          probes_replication := lane_insert (areq_probe_id request) (probe_from_request H request)
            (probes_replication probes)\<rparr>
      | Contact \<Rightarrow> probes\<lparr>probes_contacts := lane_insert (areq_probe_id request) (probe_from_request H request)
            (probes_contacts probes)\<rparr>)"

definition probe_lookup :: "append_probes \<Rightarrow> append_probe_id \<Rightarrow> (probe_kind \<times> append_probe) option" where
  "probe_lookup probes i =
     (case fmlookup (probes_replication probes) i of
        Some probe \<Rightarrow> Some (Replication, probe)
      | None \<Rightarrow> (case fmlookup (probes_contacts probes) i of
          Some probe \<Rightarrow> Some (Contact, probe)
        | None \<Rightarrow> None))"

definition probe_receive ::
  "append_probes \<Rightarrow> append_response \<Rightarrow> (core_error + probe_result option) \<times> append_probes" where
  "probe_receive probes response =
     (case ares_probe_id response of
        None \<Rightarrow> (Inr None, probes)
      | Some i \<Rightarrow> (case probe_lookup probes i of
          None \<Rightarrow> (Inr None, probes)
        | Some (kind, probe) \<Rightarrow>
            if ares_read_barrier_id response \<noteq> probe_read_barrier_id probe then (Inl InvalidInput, probes)
            else if ares_accepted response
              \<and> (ares_matched_index response \<noteq> pos_index (probe_through probe)
                 \<or> ares_matched_digest response \<noteq> probe_digest probe) then (Inl InvalidInput, probes)
            else if \<not> ares_accepted response
              \<and> (ares_matched_index response \<noteq> 0 \<or> ares_matched_digest response \<noteq> ZERO_DIGEST)
              then (Inl InvalidInput, probes)
            else (case kind of
                Contact \<Rightarrow> (Inr (Some ContactEvidence), probes\<lparr>probes_contacts := fmdrop i (probes_contacts probes)\<rparr>)
              | Replication \<Rightarrow>
                  (Inr (Some (if ares_accepted response then Matched (pos_index (probe_through probe))
                     else Conflict (pos_index (probe_previous probe)) (probes_latest probes = Some i))),
                   probes\<lparr>probes_replication := fmdrop i (probes_replication probes)\<rparr>))))"

section \<open>Lemmas\<close>

definition probes_bounded :: "append_probes \<Rightarrow> bool" where
  "probes_bounded probes \<longleftrightarrow>
     fcard (fmdom (probes_replication probes)) \<le> MAXIMUM_PROBES_PER_LANE \<and>
     fcard (fmdom (probes_contacts probes)) \<le> MAXIMUM_PROBES_PER_LANE"

lemma fcard_finsert_le: "fcard (finsert x s) \<le> Suc (fcard s)"
  by (simp add: fcard_finsert_if)

lemma lane_insert_bounded:
  assumes "fcard (fmdom lane) \<le> MAXIMUM_PROBES_PER_LANE"
  shows "fcard (fmdom (lane_insert i probe lane)) \<le> MAXIMUM_PROBES_PER_LANE"
proof -
  let ?l = "fmupd i probe lane"
  have le: "fcard (fmdom ?l) \<le> Suc MAXIMUM_PROBES_PER_LANE"
    using assms fcard_finsert_le[of i "fmdom lane"] by simp
  show ?thesis
  proof (cases "fcard (fmdom ?l) > MAXIMUM_PROBES_PER_LANE")
    case True
    then obtain k ks where k: "btree_iter (fmdom ?l) = k # ks"
      by (metis length_btree_iter length_0_conv neq_Nil_conv not_less0)
    then have "k |\<in>| fmdom ?l"
      by (metis list.set_intros(1) set_btree_iter)
    then have "fcard (fmdom ?l |-| {|k|}) < fcard (fmdom ?l)"
      by (intro pfsubset_fcard_mono) auto
    then show ?thesis
      using True le k by (simp add: lane_insert_def pop_first_def Let_def fmdom_drop)
  next
    case False
    then show ?thesis
      by (simp add: lane_insert_def Let_def)
  qed
qed

lemma probes_default_bounded: "probes_bounded probes_default"
  by (simp add: probes_bounded_def probes_default_def fcard.rep_eq)

lemma probe_sent_bounded: "probes_bounded probes \<Longrightarrow> probes_bounded (probe_sent H probes request kind)"
  by (cases kind) (auto simp: probes_bounded_def probe_sent_def intro: lane_insert_bounded)


lemma fcard_fmdrop_le: "fcard (fmdom (fmdrop i m)) \<le> fcard (fmdom m)"
  by (auto simp: fmdom_drop intro: fcard_mono)

lemma probe_receive_bounded: "probes_bounded probes \<Longrightarrow> probes_bounded (snd (probe_receive probes response))"
  using fcard_fmdrop_le[of "the (ares_probe_id response)" "probes_replication probes"]
    fcard_fmdrop_le[of "the (ares_probe_id response)" "probes_contacts probes"]
  by (auto simp: probe_receive_def probes_bounded_def split: option.splits probe_kind.splits)

text \<open>Evidence of a match names an outstanding replication probe with the reported index and digest.\<close>

lemma probe_receive_Matched:
  "probe_receive probes response = (Inr (Some (Matched k)), probes') \<Longrightarrow>
   \<exists>i probe. ares_probe_id response = Some i \<and> fmlookup (probes_replication probes) i = Some probe \<and>
     pos_index (probe_through probe) = k \<and> ares_accepted response \<and> ares_matched_index response = k \<and>
     ares_matched_digest response = probe_digest probe \<and>
     ares_read_barrier_id response = probe_read_barrier_id probe \<and>
     probes' = probes\<lparr>probes_replication := fmdrop i (probes_replication probes)\<rparr>"
  by (auto simp: probe_receive_def probe_lookup_def split: option.splits probe_kind.splits if_splits)

lemma probe_receive_Conflict:
  "probe_receive probes response = (Inr (Some (Conflict k latest)), probes') \<Longrightarrow>
   \<exists>i probe. ares_probe_id response = Some i \<and> fmlookup (probes_replication probes) i = Some probe \<and>
     pos_index (probe_previous probe) = k \<and> \<not> ares_accepted response \<and>
     probes' = probes\<lparr>probes_replication := fmdrop i (probes_replication probes)\<rparr>"
  by (auto simp: probe_receive_def probe_lookup_def split: option.splits probe_kind.splits if_splits)

lemma probe_receive_Contact:
  "probe_receive probes response = (Inr (Some ContactEvidence), probes') \<Longrightarrow>
   \<exists>i probe. ares_probe_id response = Some i \<and> fmlookup (probes_contacts probes) i = Some probe \<and>
     fmlookup (probes_replication probes) i = None \<and>
     ares_read_barrier_id response = probe_read_barrier_id probe \<and>
     probes' = probes\<lparr>probes_contacts := fmdrop i (probes_contacts probes)\<rparr>"
  by (auto simp: probe_receive_def probe_lookup_def split: option.splits probe_kind.splits if_splits)

lemma probe_receive_Err: "probe_receive probes response = (Inl e, probes') \<Longrightarrow> probes' = probes \<and> e = InvalidInput"
  by (auto simp: probe_receive_def split: option.splits probe_kind.splits if_splits)

lemma probe_receive_None: "probe_receive probes response = (Inr None, probes') \<Longrightarrow> probes' = probes"
  by (auto simp: probe_receive_def split: option.splits probe_kind.splits if_splits)

lemmas probe_receive_facts =
  probe_receive_Matched probe_receive_Conflict probe_receive_Contact probe_receive_Err probe_receive_None

end
