(* ===== verification/Core_State.thy ===== *)
theory Core_State
  imports Membership_History Append_Probes
begin

text \<open>
  The deterministic consensus core (\<open>core/state.rs\<close>, \<open>core/state/membership_replay.rs\<close>): its state, one
  definition per operation, and \<open>step\<close>, which consumes an input and returns ordered effects or an error.

  An operation that takes \<open>&mut self\<close> is a function from the state to a result and a state, so that what an
  operation changes before it returns an error stays changed, as in the source. The hash function is a
  parameter of every operation that computes or compares digests.
\<close>

section \<open>State\<close>

definition MAXIMUM_PENDING_READ_BARRIERS :: nat where "MAXIMUM_PENDING_READ_BARRIERS = 1024"

record read_barrier_state =
  rb_acknowledgements :: "node_id fset"
  rb_required_applied_index :: "nat option"
  rb_quorum_confirmed :: bool

record leader_state =
  ls_probes :: "(node_id, append_probes) fmap"
  ls_matched :: "(node_id, nat) fmap"
  ls_next :: "(node_id, nat) fmap"
  ls_read_barriers :: "(read_barrier_id, read_barrier_state) fmap"

datatype role_state =
    FollowerState
  | CandidateState "node_id fset"
  | LeaderState leader_state

datatype after_persistence =
    Campaign
  | VoteReply node_id bool
  | AppendReply node_id node_id nat append_response
  | Proposal proposal_id log_position
  | StepDown
  | AfterCommittedPrefix node_id nat
  | ActivateJoint joint_quorum_plan member_incarnations
  | ActivateStable compiled_quorum_plan member_incarnations

record pending_persistence =
  pend_id :: persistence_id
  pend_mutation :: durable_mutation
  pend_action :: after_persistence

record core =
  cr_config :: core_config
  cr_active_plan :: active_quorum_plan
  cr_history :: membership_history
  cr_current_term :: nat
  cr_voted_for :: "node_id option"
  cr_log :: "log_entry list"
  cr_commit_index :: nat
  cr_applied_index :: nat
  cr_leader_id :: "node_id option"
  cr_role :: role_state
  cr_pending :: "pending_persistence option"
  cr_next_persistence_id :: nat
  cr_next_append_probe_id :: nat
  cr_replication_default :: replication_batch_budget
  cr_replication_peers :: "(node_id, replication_batch_budget) fmap"

abbreviation cr_local :: "core \<Rightarrow> node_id" where "cr_local s \<equiv> cfg_local_node_id (cr_config s)"

section \<open>Sequencing of methods\<close>

type_synonym 'a core_op = "core \<Rightarrow> (core_error + 'a) \<times> core"

definition ret :: "'a \<Rightarrow> 'a core_op" where "ret x s = (Inr x, s)"
definition fail :: "core_error \<Rightarrow> 'a core_op" where "fail e s = (Inl e, s)"

definition cbind :: "'a core_op \<Rightarrow> ('a \<Rightarrow> 'b core_op) \<Rightarrow> 'b core_op" where
  "cbind m f s = (case m s of (Inl e, s') \<Rightarrow> (Inl e, s') | (Inr x, s') \<Rightarrow> f x s')"

text \<open>A read-only fallible computation.\<close>

definition pure_r :: "(core \<Rightarrow> core_error + 'a) \<Rightarrow> 'a core_op" where "pure_r f s = (f s, s)"

text \<open>A loop that pushes one result per element and stops at the first error.\<close>

fun for_each :: "('a \<Rightarrow> 'b core_op) \<Rightarrow> 'a list \<Rightarrow> 'b list core_op" where
  "for_each f [] = ret []"
| "for_each f (x # xs) = cbind (f x) (\<lambda>y. cbind (for_each f xs) (\<lambda>ys. ret (y # ys)))"

section \<open>Accessors\<close>

definition role_of :: "core \<Rightarrow> role" where
  "role_of s = (case cr_role s of FollowerState \<Rightarrow> Follower | CandidateState _ \<Rightarrow> Candidate | LeaderState _ \<Rightarrow> Leader)"

definition last_position :: "core \<Rightarrow> log_position" where
  "last_position s = (case last_opt (cr_log s) of None \<Rightarrow> GENESIS | Some e \<Rightarrow> le_position e)"

definition entry :: "core \<Rightarrow> nat \<Rightarrow> log_entry option" where
  "entry s index =
     (case checked_sub index 1 of
        None \<Rightarrow> None
      | Some offset \<Rightarrow> (case get_opt (cr_log s) offset of
          None \<Rightarrow> None
        | Some e \<Rightarrow> if entry_index e = index then Some e else None))"

definition core_members :: "core \<Rightarrow> node_id fset" where
  "core_members s = active_members (cr_active_plan s)"

definition peers :: "core \<Rightarrow> node_id fset" where
  "peers s = ffilter (\<lambda>node. node \<noteq> cr_local s) (core_members s)"

definition is_local_voter :: "core \<Rightarrow> bool" where
  "is_local_voter s = (cr_local s |\<in>| active_voters (cr_active_plan s))"

definition local_is_eligible_leader :: "core \<Rightarrow> bool" where
  "local_is_eligible_leader s = (cr_local s |\<in>| active_eligible_leaders (cr_active_plan s))"

definition peer_matched_index :: "core \<Rightarrow> node_id \<Rightarrow> nat option" where
  "peer_matched_index s node =
     (case cr_role s of LeaderState leader \<Rightarrow> fmlookup (ls_matched leader) node | _ \<Rightarrow> None)"

definition committed_entry :: "core \<Rightarrow> log_entry option" where
  "committed_entry s = (if cr_commit_index s > 0 then entry s (cr_commit_index s) else None)"

definition validate_sender :: "core \<Rightarrow> node_id \<Rightarrow> nat \<Rightarrow> core_error + unit" where
  "validate_sender s node inc =
     (if incarnation (cfg_member_incarnations (cr_config s)) node = Some inc then Inr () else Inl StaleMember)"

definition validate_plan :: "core \<Rightarrow> nat \<Rightarrow> bytes \<Rightarrow> core_error + unit" where
  "validate_plan s epoch digest =
     (if epoch = active_membership_epoch (cr_active_plan s) \<and> digest = active_proof_digest (cr_active_plan s)
      then Inr () else Inl StaleMember)"

definition member_incarnation :: "core \<Rightarrow> node_id \<Rightarrow> core_error + nat" where
  "member_incarnation s node = ok_or StaleMember (incarnation (cfg_member_incarnations (cr_config s)) node)"

section \<open>Effects that read the state\<close>

definition vote_effect :: "core \<Rightarrow> node_id \<Rightarrow> bool \<Rightarrow> core_effect" where
  "vote_effect s to granted = Send to (VoteResponse
     \<lparr>vres_term = cr_current_term s, vres_granted = granted,
      vres_membership_epoch = active_membership_epoch (cr_active_plan s),
      vres_plan_digest = active_proof_digest (cr_active_plan s)\<rparr>)"

definition append_reply :: "(bytes \<Rightarrow> bytes) \<Rightarrow> core \<Rightarrow> append_request \<Rightarrow> bool \<Rightarrow> append_response" where
  "append_reply H s request accepted =
     (let proven_index = (case last_opt (areq_entries request) of
            None \<Rightarrow> pos_index (areq_previous request) | Some e \<Rightarrow> entry_index e)
      in \<lparr>ares_probe_id = Some (areq_probe_id request),
          ares_matched_digest = (if accepted then (case last_opt (areq_entries request) of
            None \<Rightarrow> areq_previous_digest request | Some e \<Rightarrow> entry_digest H e) else ZERO_DIGEST),
          ares_term = cr_current_term s,
          ares_accepted = accepted,
          ares_matched_index = (if accepted then proven_index else 0),
          ares_next_index_hint = (if accepted then max (saturating_add u64_max proven_index 1) 1
            else max (min (pos_index (areq_previous request))
                          (saturating_add u64_max (pos_index (last_position s)) 1)) 1),
          ares_read_barrier_id = areq_read_barrier_id request,
          ares_membership_epoch = active_membership_epoch (cr_active_plan s),
          ares_plan_digest = active_proof_digest (cr_active_plan s)\<rparr>)"

definition append_reply_effect :: "core \<Rightarrow> node_id \<Rightarrow> append_response \<Rightarrow> core_effect" where
  "append_reply_effect s to reply = Send to (AppendResponse (reply\<lparr>ares_term := cr_current_term s\<rparr>))"

definition membership_notice :: "core \<Rightarrow> append_response" where
  "membership_notice s =
     \<lparr>ares_probe_id = None, ares_matched_digest = ZERO_DIGEST, ares_term = cr_current_term s,
      ares_accepted = False, ares_matched_index = 0,
      ares_next_index_hint = max (saturating_add u64_max (pos_index (last_position s)) 1) 1,
      ares_read_barrier_id = None,
      ares_membership_epoch = active_membership_epoch (cr_active_plan s),
      ares_plan_digest = active_proof_digest (cr_active_plan s)\<rparr>"

definition membership_notice_effect :: "core \<Rightarrow> node_id \<Rightarrow> core_effect" where
  "membership_notice_effect s to = Send to (AppendResponse (membership_notice s))"

definition follow_leader :: "node_id option \<Rightarrow> core \<Rightarrow> core" where
  "follow_leader leader s = s\<lparr>cr_role := FollowerState, cr_leader_id := leader\<rparr>"

section \<open>Persistence\<close>

definition vote_mutation :: "nat \<Rightarrow> node_id option \<Rightarrow> durable_mutation" where
  "vote_mutation t vote = \<lparr>mut_vote_state = Some (t, vote), mut_truncate_from = None, mut_append = [],
     mut_membership_epoch = None, mut_quorum_plan = None\<rparr>"

definition append_mutation ::
  "(nat \<times> node_id option) option \<Rightarrow> nat option \<Rightarrow> log_entry list \<Rightarrow> durable_mutation" where
  "append_mutation vote_state truncate_from appended =
     \<lparr>mut_vote_state = vote_state, mut_truncate_from = truncate_from, mut_append = appended,
      mut_membership_epoch = None, mut_quorum_plan = None\<rparr>"

definition begin_persistence :: "durable_mutation \<Rightarrow> after_persistence \<Rightarrow> core_effect list core_op" where
  "begin_persistence mutation action s =
     (case checked_add u64_max (cr_next_persistence_id s) 1 of
        None \<Rightarrow> (Inl Exhausted, s)
      | Some n \<Rightarrow>
          (Inr [Persist (PersistenceId (cr_next_persistence_id s)) mutation],
           s\<lparr>cr_next_persistence_id := n,
             cr_pending := Some \<lparr>pend_id = PersistenceId (cr_next_persistence_id s),
               pend_mutation = mutation, pend_action = action\<rparr>\<rparr>))"

definition persist_step_down :: "nat \<Rightarrow> core_effect list core_op" where
  "persist_step_down t = begin_persistence (vote_mutation t None) StepDown"

fun append_entries :: "(bytes \<Rightarrow> bytes) \<Rightarrow> log_entry list \<Rightarrow> unit core_op" where
  "append_entries H [] s = (Inr (), s)"
| "append_entries H (e # es) s =
     (case entry_validate H e of
        Inl err \<Rightarrow> (Inl err, s)
      | Inr _ \<Rightarrow> (case checked_add u64_max (pos_index (last_position s)) 1 of
          None \<Rightarrow> (Inl Exhausted, s)
        | Some expected \<Rightarrow>
            if entry_index e \<noteq> expected then (Inl InvalidInput, s)
            else append_entries H es (s\<lparr>cr_log := cr_log s @ [e]\<rparr>)))"

definition apply_vote_state :: "(nat \<times> node_id option) option \<Rightarrow> unit core_op" where
  "apply_vote_state vote_state s =
     (case vote_state of
        None \<Rightarrow> (Inr (), s)
      | Some (t, voted_for) \<Rightarrow>
          if t < cr_current_term s \<or> t = 0 then (Inl InvalidInput, s)
          else let s' = (if t > cr_current_term s then s\<lparr>cr_role := FollowerState, cr_leader_id := None\<rparr> else s)
               in (Inr (), s'\<lparr>cr_current_term := t, cr_voted_for := voted_for\<rparr>))"

definition apply_truncation :: "nat option \<Rightarrow> unit core_op" where
  "apply_truncation truncate_from s =
     (case truncate_from of
        None \<Rightarrow> (Inr (), s)
      | Some from \<Rightarrow>
          if from \<le> cr_commit_index s \<or> from = 0 then (Inl InvalidInput, s)
          else (Inr (), s\<lparr>cr_log := filter (\<lambda>e. entry_index e < from) (cr_log s)\<rparr>))"

definition apply_durable_mutation :: "(bytes \<Rightarrow> bytes) \<Rightarrow> durable_mutation \<Rightarrow> unit core_op" where
  "apply_durable_mutation H mutation s =
     (if (case mut_membership_epoch mutation of
            None \<Rightarrow> False
          | Some epoch \<Rightarrow> epoch \<noteq> active_membership_epoch (cr_active_plan s) \<and>
              epoch \<noteq> saturating_add u64_max (active_membership_epoch (cr_active_plan s)) 1)
      then (Inl InvalidInput, s)
      else cbind (apply_vote_state (mut_vote_state mutation)) (\<lambda>_.
           cbind (apply_truncation (mut_truncate_from mutation)) (\<lambda>_.
             append_entries H (mut_append mutation))) s)"

section \<open>Commit\<close>

definition commit_effects :: "core \<Rightarrow> nat \<Rightarrow> core_error + core_effect list" where
  "commit_effects s old_commit =
     (if cr_commit_index s \<le> old_commit then Inr []
      else try_r (try_map (\<lambda>index. ok_or InvalidInput (entry s index)) [old_commit + 1 ..< Suc (cr_commit_index s)])
        (\<lambda>entries. Inr [CommitReady entries]))"

definition acknowledged_through :: "(node_id, nat) fmap \<Rightarrow> nat \<Rightarrow> node_id fset" where
  "acknowledged_through matched index =
     ffilter (\<lambda>node. lookup_or 0 node matched \<ge> index) (fmdom matched)"

text \<open>The descending scan of \<open>advance_leader_commit\<close>: the highest current-term index with a commit quorum.\<close>

fun commit_scan :: "(node_id, nat) fmap \<Rightarrow> core \<Rightarrow> nat list \<Rightarrow> core_error + nat option" where
  "commit_scan matched s [] = Inr None"
| "commit_scan matched s (index # rest) =
     (case entry s index of
        None \<Rightarrow> Inl InvalidInput
      | Some e \<Rightarrow>
          if entry_term e \<noteq> cr_current_term s then commit_scan matched s rest
          else if active_satisfies (cr_active_plan s) Commit (acknowledged_through matched index)
          then Inr (Some index)
          else commit_scan matched s rest)"

definition advance_leader_commit :: "core_effect list core_op" where
  "advance_leader_commit s =
     (case cr_role s of
        LeaderState leader \<Rightarrow>
          (case commit_scan (ls_matched leader) s
              (rev [cr_commit_index s + 1 ..< Suc (pos_index (last_position s))]) of
             Inl e \<Rightarrow> (Inl e, s)
           | Inr found \<Rightarrow>
               let s' = (case found of None \<Rightarrow> s | Some index \<Rightarrow> s\<lparr>cr_commit_index := index\<rparr>)
               in (commit_effects s' (cr_commit_index s), s'))
      | _ \<Rightarrow> (Inr [], s))"

definition advance_follower_commit :: "nat \<Rightarrow> core_effect list core_op" where
  "advance_follower_commit leader_commit_index s =
     (let next_commit = min leader_commit_index (pos_index (last_position s));
          s' = s\<lparr>cr_commit_index := max next_commit (cr_commit_index s)\<rparr>
      in (commit_effects s' (cr_commit_index s), s'))"

section \<open>Log comparison and replication\<close>

fun log_delta :: "(bytes \<Rightarrow> bytes) \<Rightarrow> core \<Rightarrow> log_entry list \<Rightarrow> core_error + nat option \<times> log_entry list" where
  "log_delta H s [] = Inr (None, [])"
| "log_delta H s (e # es) =
     (case entry s (entry_index e) of
        Some existing \<Rightarrow>
          if entry_term existing = entry_term e \<and> entry_digest H existing = entry_digest H e
          then log_delta H s es
          else if entry_index e \<le> cr_commit_index s then Inl InvalidInput
          else Inr (Some (entry_index e), e # es)
      | None \<Rightarrow> Inr (None, e # es))"

definition position_matches :: "(bytes \<Rightarrow> bytes) \<Rightarrow> core \<Rightarrow> log_position \<Rightarrow> bytes \<Rightarrow> bool" where
  "position_matches H s position digest =
     (if position = GENESIS then digest = ZERO_DIGEST
      else case entry s (pos_index position) of
          None \<Rightarrow> False
        | Some e \<Rightarrow> entry_term e = pos_term position \<and> entry_digest H e = digest)"

text \<open>The byte-budgeted prefix: command bytes against the core bound, framed bytes against the peer's.\<close>

fun budget_scan :: "nat \<Rightarrow> nat \<Rightarrow> nat \<Rightarrow> log_entry list \<Rightarrow> log_entry list" where
  "budget_scan overhead command_left framed_left [] = []"
| "budget_scan overhead command_left framed_left (e # es) =
     (case checked_add u64_max (length (le_command e)) overhead of
        None \<Rightarrow> []
      | Some framed \<Rightarrow> (case checked_sub command_left (length (le_command e)) of
          None \<Rightarrow> []
        | Some command_left' \<Rightarrow> (case checked_sub framed_left framed of
            None \<Rightarrow> []
          | Some framed_left' \<Rightarrow> e # budget_scan overhead command_left' framed_left' es)))"

definition replication_entries :: "core \<Rightarrow> node_id \<Rightarrow> nat \<Rightarrow> nat \<Rightarrow> log_entry list" where
  "replication_entries s peer start finish =
     (let budget = lookup_or (cr_replication_default s) peer (cr_replication_peers s)
      in budget_scan (budget_entry_overhead budget) MAXIMUM_APPEND_COMMAND_BYTES (budget_max_bytes budget)
           (take MAXIMUM_APPEND_ENTRIES
             (filter (\<lambda>e. entry_index e \<ge> start \<and> entry_index e \<le> finish) (cr_log s))))"

text \<open>The request a probe carries, before its identity is settled.\<close>

definition probe_request ::
  "(bytes \<Rightarrow> bytes) \<Rightarrow> core \<Rightarrow> leader_state \<Rightarrow> node_id \<Rightarrow> probe_kind \<Rightarrow> read_barrier_id option \<Rightarrow>
     core_error + append_request" where
  "probe_request H s leader peer kind read_barrier =
     try_r (case kind of
         Replication \<Rightarrow> ok_or InvalidInput (checked_sub (max (lookup_or 1 peer (ls_next leader)) 1) 1)
       | Contact \<Rightarrow> Inr (lookup_or 0 peer (ls_matched leader))) (\<lambda>previous_index.
     try_r (if previous_index = 0 then Inr (GENESIS, ZERO_DIGEST)
       else try_r (ok_or InvalidInput (entry s previous_index)) (\<lambda>e. Inr (le_position e, entry_digest H e)))
       (\<lambda>(previous, previous_digest).
     try_r (case kind of
         Replication \<Rightarrow> try_r (ok_or Exhausted (checked_add u64_max previous_index 1)) (\<lambda>start.
           Inr (replication_entries s peer start u64_max))
       | Contact \<Rightarrow> Inr []) (\<lambda>entries.
       Inr \<lparr>areq_probe_id = AppendProbeId (cr_next_append_probe_id s),
            areq_term = cr_current_term s, areq_leader = cr_local s,
            areq_leader_incarnation = cfg_local_incarnation (cr_config s),
            areq_previous = previous, areq_previous_digest = previous_digest, areq_entries = entries,
            areq_leader_commit_index = cr_commit_index s, areq_read_barrier_id = read_barrier,
            areq_membership_epoch = active_membership_epoch (cr_active_plan s),
            areq_plan_digest = active_proof_digest (cr_active_plan s)\<rparr>)))"

definition probe_emit ::
  "(bytes \<Rightarrow> bytes) \<Rightarrow> leader_state \<Rightarrow> node_id \<Rightarrow> probe_kind \<Rightarrow> append_request \<Rightarrow> core_effect core_op" where
  "probe_emit H leader peer kind request s =
     (Inr (Send peer (AppendRequest request)),
      s\<lparr>cr_role := LeaderState (leader\<lparr>ls_probes := fmupd peer
         (probe_sent H (lookup_or probes_default peer (ls_probes leader)) request kind) (ls_probes leader)\<rparr>)\<rparr>)"

definition probe_effect ::
  "(bytes \<Rightarrow> bytes) \<Rightarrow> node_id \<Rightarrow> probe_kind \<Rightarrow> read_barrier_id option \<Rightarrow> core_effect core_op" where
  "probe_effect H peer kind read_barrier s =
     (case cr_role s of
        LeaderState leader \<Rightarrow>
          (case probe_request H s leader peer kind read_barrier of
             Inl e \<Rightarrow> (Inl e, s)
           | Inr request \<Rightarrow>
               (case (case kind of
                        Replication \<Rightarrow> (case fmlookup (ls_probes leader) peer of
                            None \<Rightarrow> None | Some probes \<Rightarrow> replication_id H probes request)
                      | Contact \<Rightarrow> None) of
                  Some i \<Rightarrow> probe_emit H leader peer kind (request\<lparr>areq_probe_id := i\<rparr>) s
                | None \<Rightarrow>
                    (case checked_add u64_max (cr_next_append_probe_id s) 1 of
                       None \<Rightarrow> (Inl Exhausted, s)
                     | Some n \<Rightarrow> probe_emit H leader peer kind request (s\<lparr>cr_next_append_probe_id := n\<rparr>))))
      | _ \<Rightarrow> (Inl NotLeader, s))"

section \<open>Read barriers\<close>

definition set_leader :: "leader_state \<Rightarrow> core \<Rightarrow> core" where
  "set_leader leader s = s\<lparr>cr_role := LeaderState leader\<rparr>"

definition commit_is_current :: "core \<Rightarrow> bool" where
  "commit_is_current s =
     (case entry s (cr_commit_index s) of None \<Rightarrow> False | Some e \<Rightarrow> entry_term e = cr_current_term s)"

definition complete_read_barriers :: "core \<Rightarrow> core_effect list \<times> core" where
  "complete_read_barriers s =
     (if \<not> commit_is_current s then ([], s)
      else case cr_role s of
          LeaderState leader \<Rightarrow>
            let required = (\<lambda>b. case rb_required_applied_index b of None \<Rightarrow> cr_commit_index s | Some r \<Rightarrow> r);
                barriers = fmmap (\<lambda>b. b\<lparr>rb_required_applied_index := Some (required b)\<rparr>) (ls_read_barriers leader);
                completed = filter (\<lambda>(_, b). rb_quorum_confirmed b \<and> required b \<le> cr_applied_index s)
                  (btree_items barriers)
            in (map (\<lambda>(i, b). ReadBarrierReady i (required b)) completed,
                set_leader (leader\<lparr>ls_read_barriers := fmdrop_fset (fset_of_list (map fst completed)) barriers\<rparr>) s)
        | _ \<Rightarrow> ([], s))"

definition acknowledge_read_barrier :: "node_id \<Rightarrow> read_barrier_id option \<Rightarrow> core_effect list core_op" where
  "acknowledge_read_barrier from read_barrier s =
     (case read_barrier of
        None \<Rightarrow> (Inr [], s)
      | Some i \<Rightarrow>
          if barrier_number i = 0 then (Inl InvalidInput, s)
          else case cr_role s of
              LeaderState leader \<Rightarrow>
                (case fmlookup (ls_read_barriers leader) i of
                   None \<Rightarrow> (Inr [], s)
                 | Some b \<Rightarrow>
                     let acks = finsert from (rb_acknowledgements b);
                         b' = b\<lparr>rb_acknowledgements := acks,
                               rb_quorum_confirmed := active_satisfies (cr_active_plan s) Read acks\<rparr>;
                         (effects, s') = complete_read_barriers
                           (set_leader (leader\<lparr>ls_read_barriers := fmupd i b' (ls_read_barriers leader)\<rparr>) s)
                     in (Inr effects, s'))
            | _ \<Rightarrow> (Inr [], s))"

definition begin_read_barrier :: "(bytes \<Rightarrow> bytes) \<Rightarrow> read_barrier_id \<Rightarrow> core_effect list core_op" where
  "begin_read_barrier H i s =
     (if barrier_number i = 0 then (Inl InvalidInput, s)
      else let required = (case entry s (cr_commit_index s) of
                 None \<Rightarrow> None
               | Some e \<Rightarrow> if entry_term e = cr_current_term s then Some (entry_index e) else None);
               confirmed = active_satisfies (cr_active_plan s) Read {|cr_local s|}
           in case cr_role s of
               LeaderState leader \<Rightarrow>
                 if fcard (fmdom (ls_read_barriers leader)) \<ge> MAXIMUM_PENDING_READ_BARRIERS
                    \<or> i |\<in>| fmdom (ls_read_barriers leader)
                 then (Inl InvalidInput, s)
                 else let s' = set_leader (leader\<lparr>ls_read_barriers := fmupd i
                            \<lparr>rb_acknowledgements = {|cr_local s|}, rb_required_applied_index = required,
                             rb_quorum_confirmed = confirmed\<rparr> (ls_read_barriers leader)\<rparr>) s
                      in if confirmed then (let (effects, s'') = complete_read_barriers s' in (Inr effects, s''))
                         else for_each (\<lambda>peer. probe_effect H peer Contact (Some i)) (btree_iter (peers s')) s'
             | _ \<Rightarrow> (Inl NotLeader, s))"

definition cancel_read_barrier :: "read_barrier_id \<Rightarrow> core_effect list core_op" where
  "cancel_read_barrier i s =
     (if barrier_number i = 0 then (Inl InvalidInput, s)
      else (Inr [], case cr_role s of
              LeaderState leader \<Rightarrow> set_leader (leader\<lparr>ls_read_barriers := fmdrop i (ls_read_barriers leader)\<rparr>) s
            | _ \<Rightarrow> s))"

definition applied_through :: "nat \<Rightarrow> core_effect list core_op" where
  "applied_through index s =
     (if index < cr_applied_index s \<or> index > cr_commit_index s then (Inl InvalidInput, s)
      else let (effects, s') = complete_read_barriers (s\<lparr>cr_applied_index := index\<rparr>) in (Inr effects, s'))"

section \<open>Elections\<close>

definition start_election :: "core_effect list core_op" where
  "start_election s =
     (if role_of s = Leader then (Inl InvalidInput, s)
      else if \<not> local_is_eligible_leader s then (Inl NotLeader, s)
      else case checked_add u64_max (cr_current_term s) 1 of
          None \<Rightarrow> (Inl Exhausted, s)
        | Some t \<Rightarrow> begin_persistence (vote_mutation t (Some (cr_local s))) Campaign s)"

definition initial_leader_state :: "core \<Rightarrow> nat \<Rightarrow> nat \<Rightarrow> leader_state" where
  "initial_leader_state s last_index next_index =
     \<lparr>ls_probes = fmempty,
      ls_matched = fold (\<lambda>member. entry_or_insert member 0) (btree_iter (core_members s))
        (fmupd (cr_local s) last_index fmempty),
      ls_next = fold (\<lambda>member. fmupd member next_index) (btree_iter (core_members s)) fmempty,
      ls_read_barriers = fmempty\<rparr>"

definition become_leader :: "(bytes \<Rightarrow> bytes) \<Rightarrow> core_effect list core_op" where
  "become_leader H s =
     (let last_index = pos_index (last_position s)
      in case checked_add u64_max last_index 1 of
          None \<Rightarrow> (Inl Exhausted, s)
        | Some next_index \<Rightarrow>
            let s' = s\<lparr>cr_role := LeaderState (initial_leader_state s last_index next_index),
                      cr_leader_id := Some (cr_local s)\<rparr>
            in cbind (for_each (\<lambda>peer. probe_effect H peer Replication None) (btree_iter (peers s')))
                 (\<lambda>sends. ret (RoleChanged Leader (cr_current_term s) # sends)) s')"

definition campaign_request :: "core \<Rightarrow> vote_request" where
  "campaign_request s =
     \<lparr>vreq_term = cr_current_term s, vreq_candidate = cr_local s,
      vreq_candidate_incarnation = cfg_local_incarnation (cr_config s), vreq_last_log = last_position s,
      vreq_membership_epoch = active_membership_epoch (cr_active_plan s),
      vreq_plan_digest = active_proof_digest (cr_active_plan s)\<rparr>"

definition finish_campaign :: "(bytes \<Rightarrow> bytes) \<Rightarrow> core_effect list core_op" where
  "finish_campaign H s =
     (let s' = s\<lparr>cr_leader_id := None, cr_role := CandidateState {|cr_local s|}\<rparr>;
          changed = RoleChanged Candidate (cr_current_term s)
      in if active_satisfies (cr_active_plan s') Election {|cr_local s|}
         then cbind (become_leader H) (\<lambda>effects. ret (changed # effects)) s'
         else (Inr (changed # map (\<lambda>voter. Send voter (VoteRequest (campaign_request s')))
                 (filter (\<lambda>voter. voter \<noteq> cr_local s) (btree_iter (active_voters (cr_active_plan s'))))), s'))"

definition vote_response_received :: "(bytes \<Rightarrow> bytes) \<Rightarrow> node_id \<Rightarrow> vote_response \<Rightarrow> core_effect list core_op" where
  "vote_response_received H from response s =
     (case validate_plan s (vres_membership_epoch response) (vres_plan_digest response) of
        Inl e \<Rightarrow> (Inl e, s)
      | Inr _ \<Rightarrow>
          if vres_term response = 0 then (Inl InvalidInput, s)
          else if vres_term response > cr_current_term s then persist_step_down (vres_term response) s
          else if vres_term response < cr_current_term s then (Inr [], s)
          else case cr_role s of
              CandidateState votes \<Rightarrow>
                let votes' = (if vres_granted response then finsert from votes else votes);
                    s' = s\<lparr>cr_role := CandidateState votes'\<rparr>
                in if active_satisfies (cr_active_plan s') Election votes' then become_leader H s'
                   else (Inr [], s')
            | _ \<Rightarrow> (Inr [], s))"

section \<open>Historical replication (membership_replay.rs)\<close>

definition applied_replication_limit :: "core \<Rightarrow> nat \<Rightarrow> bytes \<Rightarrow> nat option" where
  "applied_replication_limit s epoch digest =
     (case (if active_membership_epoch (cr_active_plan s) = epoch \<and> active_proof_digest (cr_active_plan s) = digest
            then Some (cr_active_plan s, cr_applied_index s)
            else case history_find epoch digest (cr_history s) of
                None \<Rightarrow> None
              | Some b \<Rightarrow> Some (pb_plan b, pos_index (pb_committed_position b))) of
        None \<Rightarrow> None
      | Some (plan, limit) \<Rightarrow>
          if limit \<le> cr_applied_index s \<and> cr_local s |\<in>| active_voters plan then Some limit else None)"

definition replay_membership_prefix ::
  "(bytes \<Rightarrow> bytes) \<Rightarrow> core \<Rightarrow> node_id \<Rightarrow> append_response \<Rightarrow> core_error + core_effect list" where
  "replay_membership_prefix H s peer response =
     (if ares_term response = 0 \<or> ares_next_index_hint response = 0 then Inl StaleMember
      else try_r (ok_or StaleMember (history_find (ares_membership_epoch response) (ares_plan_digest response) (cr_history s)))
        (\<lambda>boundary.
          if cr_local s |\<notin>| active_voters (pb_plan boundary) \<or> peer |\<notin>| active_members (pb_plan boundary)
             \<or> pos_index (pb_committed_position boundary) > cr_applied_index s
          then Inl StaleMember
          else let finish = pos_index (pb_committed_position boundary);
                   next_index = min (ares_next_index_hint response) (saturating_add u64_max finish 1)
               in try_r (if next_index = 1 then Inr GENESIS
                    else try_r (ok_or InvalidInput (entry s (next_index - 1))) (\<lambda>e. Inr (le_position e))) (\<lambda>previous.
                  try_r (if previous = GENESIS then Inr ZERO_DIGEST
                    else try_r (ok_or InvalidInput (entry s (pos_index previous))) (\<lambda>e. Inr (entry_digest H e)))
                    (\<lambda>previous_digest.
                  let entries = replication_entries s peer next_index finish;
                      sent_through = (case last_opt entries of None \<Rightarrow> pos_index previous | Some e \<Rightarrow> entry_index e)
                  in Inr [Send peer (CommittedPrefix
                       \<lparr>pre_previous = previous, pre_previous_digest = previous_digest, pre_entries = entries,
                        pre_committed_index = min sent_through finish,
                        pre_membership_epoch = active_membership_epoch (pb_plan boundary),
                        pre_plan_digest = active_proof_digest (pb_plan boundary)\<rparr>)]))))"

definition finish_committed_prefix :: "node_id \<Rightarrow> nat \<Rightarrow> core_effect list core_op" where
  "finish_committed_prefix from committed_index s =
     cbind (advance_follower_commit (max committed_index (cr_commit_index s)))
       (\<lambda>effects s'. (Inr (effects @ [membership_notice_effect s' from]), s')) (follow_leader None s)"

definition receive_committed_prefix ::
  "(bytes \<Rightarrow> bytes) \<Rightarrow> node_id \<Rightarrow> committed_prefix \<Rightarrow> core_effect list core_op" where
  "receive_committed_prefix H from prefix s =
     (case validate_committed_prefix H prefix of
        Inl e \<Rightarrow> (Inl e, s)
      | Inr _ \<Rightarrow>
          if from |\<notin>| active_voters (cr_active_plan s) then (Inl StaleMember, s)
          else if \<not> is_ok (validate_plan s (pre_membership_epoch prefix) (pre_plan_digest prefix))
             \<or> pre_committed_index prefix \<le> cr_applied_index s
          then (Inr [membership_notice_effect s from], s)
          else if \<not> position_matches H s (pre_previous prefix) (pre_previous_digest prefix)
          then (Inr [Send from (AppendResponse ((membership_notice s)\<lparr>ares_next_index_hint :=
                 min (ares_next_index_hint (membership_notice s)) (max (pos_index (pre_previous prefix)) 1)\<rparr>))], s)
          else case log_delta H s (pre_entries prefix) of
              Inl e \<Rightarrow> (Inl e, s)
            | Inr (truncate_from, appended) \<Rightarrow>
                let observed_term = (case last_opt (pre_entries prefix) of
                      None \<Rightarrow> pos_term (pre_previous prefix) | Some e \<Rightarrow> entry_term e)
                in if truncate_from \<noteq> None \<or> appended \<noteq> [] \<or> observed_term > cr_current_term s
                   then begin_persistence
                     (append_mutation (if observed_term > cr_current_term s then Some (observed_term, None) else None)
                       truncate_from appended)
                     (AfterCommittedPrefix from (pre_committed_index prefix)) s
                   else finish_committed_prefix from (pre_committed_index prefix) s)"

section \<open>Vote requests\<close>

definition replay_vote_response :: "vote_request \<Rightarrow> core_error + append_response" where
  "replay_vote_response request =
     try_r (ok_or Exhausted (checked_add u64_max (pos_index (vreq_last_log request)) 1)) (\<lambda>hint.
       Inr \<lparr>ares_probe_id = None, ares_matched_digest = ZERO_DIGEST, ares_term = vreq_term request,
            ares_accepted = False, ares_matched_index = 0, ares_next_index_hint = hint,
            ares_read_barrier_id = None, ares_membership_epoch = vreq_membership_epoch request,
            ares_plan_digest = vreq_plan_digest request\<rparr>)"

definition vote_request_stale ::
  "(bytes \<Rightarrow> bytes) \<Rightarrow> core \<Rightarrow> node_id \<Rightarrow> vote_request \<Rightarrow> core_error + core_effect list" where
  "vote_request_stale H s from request =
     (if vreq_term request = 0 \<or> vreq_candidate request \<noteq> from then Inl InvalidInput
      else try_r (member_incarnation s from) (\<lambda>inc.
        if vreq_candidate_incarnation request \<noteq> inc \<or> \<not> position_valid (vreq_last_log request)
        then Inl InvalidInput
        else if history_find (vreq_membership_epoch request) (vreq_plan_digest request) (cr_history s) \<noteq> None
        then try_r (replay_vote_response request) (replay_membership_prefix H s from)
        else Inr [membership_notice_effect s from]))"

definition vote_request_received ::
  "(bytes \<Rightarrow> bytes) \<Rightarrow> node_id \<Rightarrow> vote_request \<Rightarrow> core_effect list core_op" where
  "vote_request_received H from request s =
     (if \<not> is_ok (validate_plan s (vreq_membership_epoch request) (vreq_plan_digest request))
      then (vote_request_stale H s from request, s)
      else if vreq_candidate request \<noteq> from then (Inl InvalidInput, s)
      else case member_incarnation s from of
          Inl e \<Rightarrow> (Inl e, s)
        | Inr inc \<Rightarrow>
            if vreq_candidate_incarnation request \<noteq> inc \<or> vreq_term request = 0
               \<or> \<not> position_valid (vreq_last_log request)
               \<or> from |\<notin>| active_eligible_leaders (cr_active_plan s)
            then (Inl InvalidInput, s)
            else if vreq_term request < cr_current_term s \<or> \<not> is_local_voter s
            then (Inr [vote_effect s from False], s)
            else let log_is_current = position_le (last_position s) (vreq_last_log request);
                     can_vote = (vreq_term request > cr_current_term s \<or> cr_voted_for s = None
                       \<or> cr_voted_for s = Some from);
                     granted = (log_is_current \<and> can_vote)
                 in if vreq_term request > cr_current_term s \<or> (granted \<and> cr_voted_for s \<noteq> Some from)
                    then begin_persistence (vote_mutation (vreq_term request) (if granted then Some from else None))
                      (VoteReply from granted) s
                    else (Inr [vote_effect s from granted], s))"

section \<open>Append requests and responses\<close>

definition append_request_received ::
  "(bytes \<Rightarrow> bytes) \<Rightarrow> node_id \<Rightarrow> append_request \<Rightarrow> core_effect list core_op" where
  "append_request_received H from request s =
     (case try_r (validate_append_entries H request) (\<lambda>_.
             if areq_leader request \<noteq> from then Inl InvalidInput
             else try_r (member_incarnation s from) (\<lambda>inc.
               if areq_leader_incarnation request \<noteq> inc
                  \<or> from |\<notin>| active_eligible_leaders (cr_active_plan s)
               then Inl InvalidInput else Inr ())) of
        Inl e \<Rightarrow> (Inl e, s)
      | Inr _ \<Rightarrow>
          if \<not> is_ok (validate_plan s (areq_membership_epoch request) (areq_plan_digest request))
          then (Inr [membership_notice_effect s from], s)
          else if areq_term request < cr_current_term s
          then (Inr [append_reply_effect s from (append_reply H s request False)], s)
          else if \<not> position_matches H s (areq_previous request) (areq_previous_digest request)
          then if areq_term request > cr_current_term s
               then begin_persistence (vote_mutation (areq_term request) None)
                 (AppendReply from from 0 (append_reply H s request False)) s
               else (let s' = follow_leader (Some from) s
                     in (Inr [append_reply_effect s' from (append_reply H s' request False)], s'))
          else case log_delta H s (areq_entries request) of
              Inl e \<Rightarrow> (Inl e, s)
            | Inr (truncate_from, appended) \<Rightarrow>
                let changes_term = (areq_term request > cr_current_term s)
                in if changes_term \<or> truncate_from \<noteq> None \<or> appended \<noteq> []
                   then begin_persistence (append_mutation
                       (if changes_term then Some (areq_term request, None) else None) truncate_from appended)
                     (AppendReply from from (areq_leader_commit_index request) (append_reply H s request True)) s
                   else let s' = follow_leader (Some from) s;
                            reply = append_reply H s' request True
                        in cbind (advance_follower_commit (min (areq_leader_commit_index request) (ares_matched_index reply)))
                             (\<lambda>effects s''. (Inr (effects @ [append_reply_effect s'' from reply]), s'')) s')"

text \<open>What a leader does once the replication evidence of a response is recorded.\<close>

definition after_evidence ::
  "(bytes \<Rightarrow> bytes) \<Rightarrow> node_id \<Rightarrow> append_response \<Rightarrow> nat \<Rightarrow> leader_state \<Rightarrow> core_effect list core_op" where
  "after_evidence H from response last_index leader s =
     cbind advance_leader_commit (\<lambda>committed.
     cbind (acknowledge_read_barrier from (ares_read_barrier_id response)) (\<lambda>reads.
       if lookup_or 1 from (ls_next leader) \<le> last_index
       then cbind (probe_effect H from Replication None) (\<lambda>probe. ret (committed @ reads @ [probe]))
       else ret (committed @ reads))) (set_leader leader s)"

definition replication_evidence ::
  "(bytes \<Rightarrow> bytes) \<Rightarrow> node_id \<Rightarrow> append_response \<Rightarrow> nat \<Rightarrow> leader_state \<Rightarrow> probe_result \<Rightarrow> core_effect list core_op" where
  "replication_evidence H from response last_index leader evidence s =
     (let matched = lookup_or 0 from (ls_matched leader);
          next_index = lookup_or 1 from (ls_next leader)
      in case evidence of
          ContactEvidence \<Rightarrow> acknowledge_read_barrier from (ares_read_barrier_id response) (set_leader leader s)
        | Matched index \<Rightarrow>
            if index > last_index then (Inl InvalidInput, set_leader leader s)
            else let matched' = max matched index;
                     leader' = leader\<lparr>ls_matched := fmupd from matched' (ls_matched leader)\<rparr>
                 in (case checked_add u64_max matched' 1 of
                       None \<Rightarrow> (Inl Exhausted, set_leader leader' s)
                     | Some following \<Rightarrow> after_evidence H from response last_index
                         (leader'\<lparr>ls_next := fmupd from (max next_index following) (ls_next leader)\<rparr>) s)
        | Conflict previous_index latest \<Rightarrow>
            if latest \<and> previous_index \<ge> matched
            then (case checked_add u64_max matched 1 of
                    None \<Rightarrow> (Inl Exhausted, set_leader leader s)
                  | Some floor_index \<Rightarrow> after_evidence H from response last_index
                      (leader\<lparr>ls_next := fmupd from
                         (max (min (min (ares_next_index_hint response) previous_index) (next_index - 1)) floor_index)
                         (ls_next leader)\<rparr>) s)
            else after_evidence H from response last_index leader s)"

definition response_malformed :: "append_response \<Rightarrow> bool" where
  "response_malformed response =
     (ares_term response = 0
      \<or> (case ares_probe_id response of None \<Rightarrow> False | Some i \<Rightarrow> probe_number i = 0)
      \<or> (ares_probe_id response = None \<and> (ares_accepted response \<or> ares_read_barrier_id response \<noteq> None))
      \<or> (\<not> ares_accepted response \<and> (ares_matched_index response \<noteq> 0 \<or> ares_matched_digest response \<noteq> ZERO_DIGEST))
      \<or> ares_next_index_hint response = 0
      \<or> (case ares_read_barrier_id response of None \<Rightarrow> False | Some b \<Rightarrow> barrier_number b = 0))"

definition append_response_received ::
  "(bytes \<Rightarrow> bytes) \<Rightarrow> node_id \<Rightarrow> append_response \<Rightarrow> core_effect list core_op" where
  "append_response_received H from response s =
     (if \<not> is_ok (validate_plan s (ares_membership_epoch response) (ares_plan_digest response))
      then (replay_membership_prefix H s from response, s)
      else if response_malformed response then (Inl InvalidInput, s)
      else if ares_term response > cr_current_term s then persist_step_down (ares_term response) s
      else if ares_term response < cr_current_term s then (Inr [], s)
      else case cr_role s of
          LeaderState leader \<Rightarrow>
            (case fmlookup (ls_probes leader) from of
               None \<Rightarrow> (Inr [], s)
             | Some probes \<Rightarrow>
                 (case probe_receive probes response of
                    (result, probes') \<Rightarrow>
                      let leader' = leader\<lparr>ls_probes := fmupd from probes' (ls_probes leader)\<rparr>
                      in (case result of
                            Inl e \<Rightarrow> (Inl e, set_leader leader' s)
                          | Inr None \<Rightarrow>
                              if ares_probe_id response = None \<and> \<not> ares_accepted response
                              then cbind (probe_effect H from Replication None) (\<lambda>probe. ret [probe]) (set_leader leader' s)
                              else (Inr [], set_leader leader' s)
                          | Inr (Some evidence) \<Rightarrow>
                              replication_evidence H from response (pos_index (last_position s)) leader' evidence s)))
        | _ \<Rightarrow> (Inr [], s))"

section \<open>Proposals and heartbeats\<close>

definition propose ::
  "(bytes \<Rightarrow> bytes) \<Rightarrow> proposal_id \<Rightarrow> operation_id \<Rightarrow> nat \<Rightarrow> bytes \<Rightarrow> core_effect list core_op" where
  "propose H proposal operation version command s =
     (if role_of s \<noteq> Leader then (Inl NotLeader, s)
      else if proposal_number proposal = 0 then (Inl InvalidInput, s)
      else case checked_add u64_max (pos_index (last_position s)) 1 of
          None \<Rightarrow> (Inl Exhausted, s)
        | Some index \<Rightarrow>
            let position = \<lparr>pos_term = cr_current_term s, pos_index = index\<rparr>
            in case log_entry_new H position operation version command of
                Inl e \<Rightarrow> (Inl e, s)
              | Inr e \<Rightarrow> begin_persistence (append_mutation None None [e]) (Proposal proposal position) s)"

definition finish_proposal :: "(bytes \<Rightarrow> bytes) \<Rightarrow> proposal_id \<Rightarrow> log_position \<Rightarrow> core_effect list core_op" where
  "finish_proposal H proposal position s =
     (case cr_role s of
        LeaderState leader \<Rightarrow>
          let leader' = leader\<lparr>ls_matched := fmupd (cr_local s) (pos_index position) (ls_matched leader)\<rparr>
          in (case checked_add u64_max (pos_index position) 1 of
                None \<Rightarrow> (Inl Exhausted, set_leader leader' s)
              | Some next_index \<Rightarrow>
                  let s' = set_leader (leader'\<lparr>ls_next := fmupd (cr_local s) next_index (ls_next leader)\<rparr>) s
                  in cbind (for_each (\<lambda>peer. probe_effect H peer Replication None) (btree_iter (peers s')))
                       (\<lambda>sends. cbind advance_leader_commit
                         (\<lambda>committed. ret (ProposalAppended proposal position # sends @ committed))) s')
      | _ \<Rightarrow> (Inl NotLeader, s))"

definition heartbeat_peer :: "(bytes \<Rightarrow> bytes) \<Rightarrow> nat \<Rightarrow> node_id \<Rightarrow> core_effect list core_op" where
  "heartbeat_peer H last_index peer s =
     cbind (if (case peer_matched_index s peer of None \<Rightarrow> True | Some matched \<Rightarrow> matched < last_index)
            then cbind (probe_effect H peer Replication None) (\<lambda>probe. ret [probe])
            else ret []) (\<lambda>replication.
     cbind (probe_effect H peer Contact None) (\<lambda>contact. ret (replication @ [contact]))) s"

definition heartbeat :: "(bytes \<Rightarrow> bytes) \<Rightarrow> core_effect list core_op" where
  "heartbeat H s =
     (if role_of s \<noteq> Leader then (Inl NotLeader, s)
      else cbind (for_each (heartbeat_peer H (pos_index (last_position s))) (btree_iter (peers s)))
             (\<lambda>effects. ret (concat effects)) s)"

section \<open>Membership activation\<close>

definition validate_applied_transition_position :: "core \<Rightarrow> log_position \<Rightarrow> core_error + unit" where
  "validate_applied_transition_position s position =
     (if position = GENESIS \<or> pos_index position > cr_applied_index s
         \<or> (case entry s (pos_index position) of None \<Rightarrow> True | Some e \<Rightarrow> entry_term e \<noteq> pos_term position)
      then Inl InvalidInput else Inr ())"

definition activation_mutation :: "nat \<Rightarrow> active_quorum_plan \<Rightarrow> log_position \<Rightarrow> durable_mutation" where
  "activation_mutation epoch plan position =
     \<lparr>mut_vote_state = None, mut_truncate_from = None, mut_append = [], mut_membership_epoch = Some epoch,
      mut_quorum_plan = Some \<lparr>dqp_active_plan = plan, dqp_activated_position = position\<rparr>\<rparr>"

definition activate_joint_plan ::
  "joint_quorum_plan \<Rightarrow> member_incarnations \<Rightarrow> log_position \<Rightarrow> core_effect list core_op" where
  "activate_joint_plan joint incs position s =
     (case cr_active_plan s of
        Stable current \<Rightarrow>
          let incumbents = core_members s
          in if plan_proof_digest current \<noteq> plan_proof_digest (joint_old joint)
                \<or> spec_membership_epoch (plan_spec current) \<noteq> spec_membership_epoch (plan_spec (joint_old joint))
                \<or> plan_members (joint_old joint) \<noteq> incumbents
                \<or> \<not> matches_members incs (joint_members joint)
                \<or> \<not> preserves_incarnations incs (cfg_member_incarnations (cr_config s)) incumbents
             then (Inl InvalidInput, s)
             else (case validate_applied_transition_position s position of
                 Inl e \<Rightarrow> (Inl e, s)
               | Inr _ \<Rightarrow> begin_persistence (activation_mutation (joint_membership_epoch joint) (Joint joint) position)
                   (ActivateJoint joint incs) s)
      | Joint _ \<Rightarrow> (Inl InvalidInput, s))"

definition activate_stable_plan ::
  "compiled_quorum_plan \<Rightarrow> member_incarnations \<Rightarrow> log_position \<Rightarrow> core_effect list core_op" where
  "activate_stable_plan plan incs position s =
     (case cr_active_plan s of
        Joint joint \<Rightarrow>
          let retained = core_members s |\<inter>| plan_members plan
          in if plan_proof_digest plan \<noteq> plan_proof_digest (joint_new joint)
                \<or> spec_membership_epoch (plan_spec plan) \<noteq> joint_membership_epoch joint
                \<or> \<not> matches_members incs (plan_members plan)
                \<or> \<not> preserves_incarnations incs (cfg_member_incarnations (cr_config s)) retained
             then (Inl InvalidInput, s)
             else (case validate_applied_transition_position s position of
                 Inl e \<Rightarrow> (Inl e, s)
               | Inr _ \<Rightarrow> begin_persistence
                   (activation_mutation (spec_membership_epoch (plan_spec plan)) (Stable plan) position)
                   (ActivateStable plan incs) s)
      | Stable _ \<Rightarrow> (Inl InvalidInput, s))"

text \<open>A leader that stays keeps the progress of retained members and starts the others afresh.\<close>

definition retarget_leader :: "core \<Rightarrow> node_id fset \<Rightarrow> nat \<Rightarrow> nat \<Rightarrow> leader_state \<Rightarrow> leader_state" where
  "retarget_leader s members last_index next_index leader =
     leader\<lparr>ls_read_barriers := fmempty, ls_probes := fmempty,
       ls_matched := fold (\<lambda>member. entry_or_insert member (if member = cr_local s then last_index else 0))
         (btree_iter members) (fmrestrict_fset members (ls_matched leader)),
       ls_next := fold (\<lambda>member. entry_or_insert member next_index)
         (btree_iter members) (fmrestrict_fset members (ls_next leader))\<rparr>"

definition finish_plan_activation ::
  "(bytes \<Rightarrow> bytes) \<Rightarrow> active_quorum_plan \<Rightarrow> member_incarnations \<Rightarrow> log_position \<Rightarrow> core_effect list core_op" where
  "finish_plan_activation H plan incs position s =
     (let s1 = s\<lparr>cr_history := history_record (cr_active_plan s) position (cr_history s), cr_active_plan := plan,
                cr_config := (cr_config s)\<lparr>cfg_member_incarnations := incs\<rparr>, cr_replication_peers := fmempty\<rparr>;
          last_index = pos_index (last_position s1)
      in case checked_add u64_max last_index 1 of
          None \<Rightarrow> (Inl Exhausted, s1)
        | Some next_index \<Rightarrow>
            let may_lead = local_is_eligible_leader s1;
                s2 = (case cr_role s1 of
                    LeaderState leader \<Rightarrow> set_leader (retarget_leader s1 (core_members s1) last_index next_index leader) s1
                  | _ \<Rightarrow> s1)
            in if role_of s2 = Leader \<and> may_lead \<and> is_local_voter s2
               then for_each (\<lambda>peer. probe_effect H peer Replication None) (btree_iter (peers s2)) s2
               else if may_lead \<and> is_local_voter s2 then (Inr [], s2)
               else (Inr (if role_of s2 \<noteq> Follower then [RoleChanged Follower (cr_current_term s2)] else []),
                     follow_leader None s2))"

section \<open>Completion of a durable mutation\<close>

definition after_persistence_action ::
  "(bytes \<Rightarrow> bytes) \<Rightarrow> pending_persistence \<Rightarrow> core_effect list core_op" where
  "after_persistence_action H pending s =
     (case pend_action pending of
        Campaign \<Rightarrow> finish_campaign H s
      | VoteReply to granted \<Rightarrow> (let s' = follow_leader None s in (Inr [vote_effect s' to granted], s'))
      | AppendReply to leader leader_commit_index reply \<Rightarrow>
          cbind (if ares_accepted reply
                 then advance_follower_commit (min leader_commit_index (ares_matched_index reply)) else ret [])
            (\<lambda>effects s'. (Inr (effects @ [append_reply_effect s' to reply]), s')) (follow_leader (Some leader) s)
      | Proposal proposal position \<Rightarrow> finish_proposal H proposal position s
      | StepDown \<Rightarrow> (let s' = follow_leader None s in (Inr [RoleChanged Follower (cr_current_term s')], s'))
      | AfterCommittedPrefix from committed_index \<Rightarrow> finish_committed_prefix from committed_index s
      | ActivateJoint joint incs \<Rightarrow>
          (case mut_quorum_plan (pend_mutation pending) of
             None \<Rightarrow> (Inl InvalidInput, s)
           | Some durable \<Rightarrow> finish_plan_activation H (Joint joint) incs (dqp_activated_position durable) s)
      | ActivateStable plan incs \<Rightarrow>
          (case mut_quorum_plan (pend_mutation pending) of
             None \<Rightarrow> (Inl InvalidInput, s)
           | Some durable \<Rightarrow> finish_plan_activation H (Stable plan) incs (dqp_activated_position durable) s))"

definition finish_persistence :: "(bytes \<Rightarrow> bytes) \<Rightarrow> persistence_id \<Rightarrow> core_effect list core_op" where
  "finish_persistence H i s =
     (case cr_pending s of
        None \<Rightarrow> (Inl StalePersistence, s)
      | Some pending \<Rightarrow>
          if pend_id pending \<noteq> i then (Inl StalePersistence, s)
          else cbind (apply_durable_mutation H (pend_mutation pending))
                 (\<lambda>_. after_persistence_action H pending) (s\<lparr>cr_pending := None\<rparr>))"

section \<open>The step function\<close>

definition receive :: "(bytes \<Rightarrow> bytes) \<Rightarrow> node_id \<Rightarrow> nat \<Rightarrow> core_message \<Rightarrow> core_effect list core_op" where
  "receive H from inc message s =
     (case validate_sender s from inc of
        Inl e \<Rightarrow> (Inl e, s)
      | Inr _ \<Rightarrow>
          (case message of
             VoteRequest request \<Rightarrow> vote_request_received H from request s
           | VoteResponse response \<Rightarrow> vote_response_received H from response s
           | AppendRequest request \<Rightarrow> append_request_received H from request s
           | AppendResponse response \<Rightarrow> append_response_received H from response s
           | CommittedPrefix prefix \<Rightarrow> receive_committed_prefix H from prefix s))"

definition dispatch :: "(bytes \<Rightarrow> bytes) \<Rightarrow> core_input \<Rightarrow> core_effect list core_op" where
  "dispatch H input =
     (case input of
        ElectionTimeout \<Rightarrow> start_election
      | Heartbeat \<Rightarrow> heartbeat H
      | Persisted i \<Rightarrow> finish_persistence H i
      | Message from inc message \<Rightarrow> receive H from inc message
      | Propose proposal operation version command \<Rightarrow> propose H proposal operation version command
      | BeginReadBarrier i \<Rightarrow> begin_read_barrier H i
      | CancelReadBarrier i \<Rightarrow> cancel_read_barrier i
      | ConfirmTerm proposal operation \<Rightarrow>
          propose H proposal operation TERM_CONFIRMATION_VERSION TERM_CONFIRMATION_BYTES
      | ActivateJointPlan joint incs position \<Rightarrow> activate_joint_plan joint incs position
      | ActivateStablePlan plan incs position \<Rightarrow> activate_stable_plan plan incs position
      | AppliedThrough index \<Rightarrow> applied_through index)"

definition is_persisted :: "core_input \<Rightarrow> bool" where
  "is_persisted input = (case input of Persisted _ \<Rightarrow> True | _ \<Rightarrow> False)"

definition step :: "(bytes \<Rightarrow> bytes) \<Rightarrow> core_input \<Rightarrow> core_effect list core_op" where
  "step H input s =
     (if cr_pending s \<noteq> None \<and> \<not> is_persisted input then (Inl PersistencePending, s)
      else dispatch H input s)"

section \<open>Construction\<close>

fun validate_durable_loop ::
  "(bytes \<Rightarrow> bytes) \<Rightarrow> nat \<Rightarrow> log_entry list \<Rightarrow> nat \<Rightarrow> log_entry list \<Rightarrow> core_error + unit" where
  "validate_durable_loop H current_term log expected [] = Inr ()"
| "validate_durable_loop H current_term log expected (e # es) =
     try_r (entry_validate H e) (\<lambda>_.
       if entry_index e \<noteq> expected \<or> entry_term e > current_term
          \<or> (expected > 1 \<and> entry_term e < entry_term (log ! (expected - 2)))
       then Inl InvalidInput
       else try_r (ok_or Exhausted (checked_add u64_max expected 1)) (\<lambda>expected'.
         validate_durable_loop H current_term log expected' es))"

definition validate_durable_state :: "(bytes \<Rightarrow> bytes) \<Rightarrow> durable_core_state \<Rightarrow> core_error + unit" where
  "validate_durable_state H durable =
     try_r (validate_durable_loop H (dur_current_term durable) (dur_log durable) 1 (dur_log durable)) (\<lambda>_.
       let last_index = (case last_opt (dur_log durable) of None \<Rightarrow> 0 | Some e \<Rightarrow> entry_index e)
       in if dur_applied_index durable > last_index then Inl InvalidInput else Inr ())"

definition restore :: "(bytes \<Rightarrow> bytes) \<Rightarrow> core_config \<Rightarrow> durable_core_state \<Rightarrow> core_error + core" where
  "restore H config durable =
     (let spec = plan_spec (cfg_plan config);
          local_is_member = (cfg_local_node_id config |\<in>| spec_voters spec
            \<or> cfg_local_node_id config |\<in>| spec_learners spec)
      in if cfg_local_incarnation config = 0 \<or> \<not> local_is_member
            \<or> incarnation (cfg_member_incarnations config) (cfg_local_node_id config) \<noteq> Some (cfg_local_incarnation config)
            \<or> (dur_current_term durable = 0 \<and> dur_voted_for durable \<noteq> None)
            \<or> (case dur_voted_for durable of None \<Rightarrow> False | Some voter \<Rightarrow> voter |\<notin>| spec_voters spec)
         then Inl InvalidConfiguration
         else try_r (validate_durable_state H durable) (\<lambda>_.
           Inr \<lparr>cr_config = config, cr_active_plan = Stable (cfg_plan config), cr_history = fmempty,
                cr_current_term = dur_current_term durable, cr_voted_for = dur_voted_for durable,
                cr_log = dur_log durable, cr_commit_index = dur_applied_index durable,
                cr_applied_index = dur_applied_index durable, cr_leader_id = None, cr_role = FollowerState,
                cr_pending = None, cr_next_persistence_id = 1, cr_next_append_probe_id = 1,
                cr_replication_default = budget_default, cr_replication_peers = fmempty\<rparr>))"

definition core_new :: "(bytes \<Rightarrow> bytes) \<Rightarrow> core_config \<Rightarrow> core_error + core" where
  "core_new H config = restore H config durable_default"

definition restore_active ::
  "(bytes \<Rightarrow> bytes) \<Rightarrow> core_config \<Rightarrow> durable_core_state \<Rightarrow> active_quorum_plan \<Rightarrow> core_error + core" where
  "restore_active H config durable plan =
     (if \<not> matches_members (cfg_member_incarnations config) (active_members plan) then Inl InvalidConfiguration
      else try_r (restore H config durable) (\<lambda>s.
        try_r (history_restore H (cr_log s) (cr_applied_index s) plan) (\<lambda>history.
          Inr (s\<lparr>cr_history := history, cr_active_plan := plan\<rparr>))))"

definition set_replication_budgets ::
  "replication_batch_budget \<Rightarrow> (node_id, replication_batch_budget) fmap \<Rightarrow> unit core_op" where
  "set_replication_budgets default_budget peer_budgets s =
     (if fBex (fmdom peer_budgets) (\<lambda>peer. peer |\<notin>| core_members s) then (Inl InvalidConfiguration, s)
      else (Inr (), s\<lparr>cr_replication_default := default_budget, cr_replication_peers := peer_budgets\<rparr>))"

definition clear_replication_budget_overrides :: "core \<Rightarrow> core" where
  "clear_replication_budget_overrides s = s\<lparr>cr_replication_peers := fmempty\<rparr>"

end
