(* ===== verification/Core_Log.thy ===== *)
theory Core_Log
  imports Core_State
begin

text \<open>
  The replicated log of the core: well-formed logs and batches, the effect of a durable mutation, and what
  comparing an incoming batch with the log decides.

  The main facts are that an accepted batch leaves the committed prefix alone and ends in entries that agree
  with the whole batch, and that a well-formed mutation always applies.
\<close>

section \<open>Well-formed logs\<close>

definition log_ok :: "(bytes \<Rightarrow> bytes) \<Rightarrow> log_entry list \<Rightarrow> bool" where
  "log_ok H log \<longleftrightarrow>
     (\<forall>i < length log. entry_index (log ! i) = Suc i \<and> entry_validate H (log ! i) = Inr ()) \<and>
     length log \<le> u64_max"

text \<open>A batch that continues a log after position \<open>p\<close>.\<close>

definition batch_ok :: "(bytes \<Rightarrow> bytes) \<Rightarrow> nat \<Rightarrow> log_entry list \<Rightarrow> bool" where
  "batch_ok H p es \<longleftrightarrow>
     (\<forall>i < length es. entry_index (es ! i) = Suc (p + i) \<and> entry_validate H (es ! i) = Inr ()) \<and>
     p + length es \<le> u64_max"

lemma log_ok_batch: "log_ok H log \<longleftrightarrow> batch_ok H 0 log"
  by (simp add: log_ok_def batch_ok_def)

lemma log_ok_Nil [simp]: "log_ok H []"
  by (simp add: log_ok_def)

lemma log_ok_take: "log_ok H log \<Longrightarrow> log_ok H (take n log)"
  by (auto simp: log_ok_def)

lemma batch_ok_Nil: "batch_ok H p [] \<longleftrightarrow> p \<le> u64_max"
  by (simp add: batch_ok_def)

lemma batch_ok_Cons:
  "batch_ok H p (e # es) \<longleftrightarrow> entry_index e = Suc p \<and> entry_validate H e = Inr () \<and> batch_ok H (Suc p) es"
proof -
  have "(\<forall>i < Suc (length es). P i) \<longleftrightarrow> P 0 \<and> (\<forall>i < length es. P (Suc i))" for P
    using less_Suc_eq_0_disj by auto
  then show ?thesis by (auto simp: batch_ok_def)
qed

lemma batch_ok_append: "batch_ok H p (xs @ ys) \<longleftrightarrow> batch_ok H p xs \<and> batch_ok H (p + length xs) ys"
proof (induction xs arbitrary: p)
  case Nil
  then show ?case by (auto simp: batch_ok_Nil) (auto simp: batch_ok_def)
next
  case (Cons x xs)
  then show ?case by (simp add: batch_ok_Cons)
qed

lemma batch_ok_drop: "batch_ok H p es \<Longrightarrow> n \<le> length es \<Longrightarrow> batch_ok H (p + n) (drop n es)"
  by (metis append_take_drop_id batch_ok_append length_take min.absorb2)

lemma log_ok_append: "log_ok H (xs @ ys) \<longleftrightarrow> log_ok H xs \<and> batch_ok H (length xs) ys"
  by (simp add: log_ok_batch batch_ok_append)

text \<open>Accessors on a well-formed log.\<close>

lemma last_position_index:
  assumes "log_ok H (cr_log s)"
  shows "pos_index (last_position s) = length (cr_log s)"
proof (cases "cr_log s" rule: rev_cases)
  case Nil
  then show ?thesis by (simp add: last_position_def GENESIS_def)
next
  case (snoc xs e)
  have "\<forall>i < length (cr_log s). entry_index (cr_log s ! i) = Suc i"
    using assms by (simp add: log_ok_def)
  with snoc have "entry_index ((xs @ [e]) ! length xs) = Suc (length xs)"
    by (metis length_append_singleton lessI)
  with snoc show ?thesis by (simp add: last_position_def)
qed

lemma entry_Some:
  assumes "log_ok H (cr_log s)"
  shows "entry s i = Some e \<longleftrightarrow> 0 < i \<and> i \<le> length (cr_log s) \<and> e = cr_log s ! (i - 1)"
proof (cases i)
  case (Suc j)
  have "entry_index (cr_log s ! j) = Suc j" if "j < length (cr_log s)"
    using assms that by (simp add: log_ok_def)
  then show ?thesis
    using Suc by (auto simp: entry_def checked_sub_def get_opt_def)
qed (simp add: entry_def checked_sub_def)

lemma entry_None:
  assumes "log_ok H (cr_log s)"
  shows "entry s i = None \<longleftrightarrow> i = 0 \<or> length (cr_log s) < i"
proof -
  have "entry s i = None \<longleftrightarrow> (\<forall>e. entry s i \<noteq> Some e)" by auto
  then show ?thesis using entry_Some[OF assms] by auto
qed

lemma entry_eq:
  assumes "log_ok H (cr_log s)"
  shows "entry s i = (if 0 < i \<and> i \<le> length (cr_log s) then Some (cr_log s ! (i - 1)) else None)"
  using entry_Some[OF assms] entry_None[OF assms] by auto

lemma filter_below_take:
  assumes "log_ok H log" "0 < k"
  shows "filter (\<lambda>e. entry_index e < k) log = take (k - 1) log"
proof -
  have all: "\<forall>i < length log. entry_index (log ! i) = Suc i"
    using assms(1) by (simp add: log_ok_def)
  have "filter (\<lambda>e. entry_index e < k) (take (k - 1) log) = take (k - 1) log"
    using all by (auto simp: filter_id_conv in_set_conv_nth)
  moreover have "filter (\<lambda>e. entry_index e < k) (drop (k - 1) log) = []"
  proof -
    have "k \<le> entry_index (log ! (k - 1 + i))" if "i < length (drop (k - 1) log)" for i
      using all assms(2) that by auto
    then show ?thesis
      by (auto simp: filter_empty_conv in_set_conv_nth linorder_not_less)
  qed
  ultimately show ?thesis
    by (metis append_Nil2 append_take_drop_id filter_append)
qed

section \<open>Durable mutations\<close>

definition mutated_log :: "nat option \<Rightarrow> log_entry list \<Rightarrow> log_entry list \<Rightarrow> log_entry list" where
  "mutated_log truncate_from appended log =
     (case truncate_from of None \<Rightarrow> log | Some k \<Rightarrow> take (k - 1) log) @ appended"

lemma append_entries_ok:
  assumes "log_ok H (cr_log s)" "batch_ok H (length (cr_log s)) es"
  shows "append_entries H es s = (Inr (), s\<lparr>cr_log := cr_log s @ es\<rparr>)"
  using assms
proof (induction es arbitrary: s)
  case (Cons e es)
  let ?s = "s\<lparr>cr_log := cr_log s @ [e]\<rparr>"
  have b: "entry_index e = Suc (length (cr_log s))" "entry_validate H e = Inr ()"
    "batch_ok H (Suc (length (cr_log s))) es"
    using Cons.prems by (auto simp: batch_ok_Cons)
  have l: "length (cr_log s) < u64_max"
    using b(3) by (simp add: batch_ok_def)
  have "log_ok H (cr_log ?s)"
    using Cons.prems(1) b l by (simp add: log_ok_append batch_ok_Cons batch_ok_Nil)
  then have "append_entries H es ?s = (Inr (), ?s\<lparr>cr_log := cr_log ?s @ es\<rparr>)"
    using b(3) by (intro Cons.IH) auto
  then show ?case
    using b l last_position_index[OF Cons.prems(1)] by (simp add: checked_add_def)
qed simp

text \<open>When a mutation applies, it sets the vote state and the log as written.\<close>

definition new_term :: "core \<Rightarrow> durable_mutation \<Rightarrow> nat" where
  "new_term s m = (case mut_vote_state m of None \<Rightarrow> cr_current_term s | Some (t, _) \<Rightarrow> t)"

definition new_vote :: "core \<Rightarrow> durable_mutation \<Rightarrow> node_id option" where
  "new_vote s m = (case mut_vote_state m of None \<Rightarrow> cr_voted_for s | Some (_, v) \<Rightarrow> v)"

definition new_log :: "core \<Rightarrow> durable_mutation \<Rightarrow> log_entry list" where
  "new_log s m = mutated_log (mut_truncate_from m) (mut_append m) (cr_log s)"

definition mutation_ok :: "(bytes \<Rightarrow> bytes) \<Rightarrow> core \<Rightarrow> durable_mutation \<Rightarrow> bool" where
  "mutation_ok H s m \<longleftrightarrow>
     cr_current_term s \<le> new_term s m \<and> (mut_vote_state m \<noteq> None \<longrightarrow> 0 < new_term s m) \<and>
     (cr_current_term s = new_term s m \<longrightarrow> cr_voted_for s = None \<or> new_vote s m = cr_voted_for s) \<and>
     (case mut_truncate_from m of None \<Rightarrow> True | Some k \<Rightarrow> cr_commit_index s < k) \<and>
     log_ok H (new_log s m) \<and> (\<forall>e \<in> set (mut_append m). entry_term e \<le> new_term s m) \<and>
     (case mut_membership_epoch m of None \<Rightarrow> True | Some epoch \<Rightarrow>
        epoch = active_membership_epoch (cr_active_plan s) \<or>
        epoch = saturating_add u64_max (active_membership_epoch (cr_active_plan s)) 1)"

definition mutated :: "core \<Rightarrow> durable_mutation \<Rightarrow> core" where
  "mutated s m =
     (if cr_current_term s < new_term s m then s\<lparr>cr_role := FollowerState, cr_leader_id := None\<rparr> else s)
       \<lparr>cr_current_term := new_term s m, cr_voted_for := new_vote s m, cr_log := new_log s m\<rparr>"

lemma apply_mutation_ok:
  assumes inv: "log_ok H (cr_log s)" and m: "mutation_ok H s m"
  shows "apply_durable_mutation H m s = (Inr (), mutated s m)"
proof -
  let ?base = "case mut_truncate_from m of None \<Rightarrow> cr_log s | Some k \<Rightarrow> take (k - 1) (cr_log s)"
  let ?s1 = "(if cr_current_term s < new_term s m then s\<lparr>cr_role := FollowerState, cr_leader_id := None\<rparr> else s)
       \<lparr>cr_current_term := new_term s m, cr_voted_for := new_vote s m\<rparr>"
  have v: "apply_vote_state (mut_vote_state m) s = (Inr (), ?s1)"
    using m by (auto simp: apply_vote_state_def mutation_ok_def new_term_def new_vote_def Let_def split: option.splits)
  have t: "apply_truncation (mut_truncate_from m) ?s1 = (Inr (), ?s1\<lparr>cr_log := ?base\<rparr>)"
    using m filter_below_take[OF inv]
    by (auto simp: apply_truncation_def mutation_ok_def split: option.splits)
  have l: "log_ok H ?base" "batch_ok H (length ?base) (mut_append m)"
    using m by (auto simp: mutation_ok_def new_log_def mutated_log_def log_ok_append)
  have a: "append_entries H (mut_append m) (?s1\<lparr>cr_log := ?base\<rparr>) =
      (Inr (), ?s1\<lparr>cr_log := ?base @ mut_append m\<rparr>)"
    using append_entries_ok[of H "?s1\<lparr>cr_log := ?base\<rparr>"] l by simp
  have e: "\<not> (case mut_membership_epoch m of None \<Rightarrow> False
        | Some epoch \<Rightarrow> epoch \<noteq> active_membership_epoch (cr_active_plan s) \<and>
            epoch \<noteq> saturating_add u64_max (active_membership_epoch (cr_active_plan s)) 1)"
    using m by (auto simp: mutation_ok_def split: option.splits)
  show ?thesis
    using e v t a by (simp add: apply_durable_mutation_def cbind_def mutated_def new_log_def mutated_log_def)
qed

section \<open>Validated batches\<close>

lemma position_valid_cases: "position_valid p \<Longrightarrow> p = GENESIS \<or> 0 < pos_index p \<and> 0 < pos_term p"
  by (auto simp: position_valid_def GENESIS_def)

lemma entry_validate_position:
  "entry_validate H e = Inr () \<Longrightarrow> 0 < entry_index e \<and> 0 < entry_term e"
  using position_valid_cases[of "le_position e"] by (auto simp: entry_validate_def split: if_splits)

lemma validate_append_loop_Inr:
  "validate_append_loop H t (Suc p) es = Inr u \<Longrightarrow> p \<le> u64_max \<Longrightarrow>
     batch_ok H p es \<and> (\<forall>e \<in> set es. entry_term e \<le> t)"
  by (induction es arbitrary: p) (auto simp: batch_ok_Cons batch_ok_Nil result_simps split: if_splits)

lemma validate_append_entries_Inr:
  assumes "validate_append_entries H request = Inr u"
  shows "batch_ok H (pos_index (areq_previous request)) (areq_entries request)"
    "\<And>e. e \<in> set (areq_entries request) \<Longrightarrow> entry_term e \<le> areq_term request"
    "0 < areq_term request" "position_valid (areq_previous request)"
    "length (areq_entries request) \<le> MAXIMUM_APPEND_ENTRIES"
  using assms validate_append_loop_Inr[of H "areq_term request" "pos_index (areq_previous request)" "areq_entries request"]
  by (auto simp: validate_append_entries_def result_simps split: if_splits)

lemma validate_prefix_loop_Inr:
  "validate_prefix_loop H p t es = Inr k \<Longrightarrow> p \<le> u64_max \<Longrightarrow>
     batch_ok H p es \<and> k = p + length es \<and> (\<forall>e \<in> set es. t \<le> entry_term e) \<and>
     (\<forall>i j. i < j \<longrightarrow> j < length es \<longrightarrow> entry_term (es ! i) \<le> entry_term (es ! j))"
proof (induction es arbitrary: p t)
  case (Cons e es)
  then have e: "entry_validate H e = Inr ()" "p < u64_max" "entry_index e = Suc p" "t \<le> entry_term e"
    and loop: "validate_prefix_loop H (Suc p) (entry_term e) es = Inr k"
    by (auto simp: result_simps split: if_splits)
  have IH: "batch_ok H (Suc p) es" "k = Suc p + length es" "\<forall>x \<in> set es. entry_term e \<le> entry_term x"
      "\<forall>i j. i < j \<longrightarrow> j < length es \<longrightarrow> entry_term (es ! i) \<le> entry_term (es ! j)"
    using Cons.IH[OF loop] e(2) by auto
  have "entry_term ((e # es) ! i) \<le> entry_term ((e # es) ! j)" if "i < j" "j < length (e # es)" for i j
    using that IH(3,4) by (cases i; cases j) auto
  with e IH show ?case by (fastforce simp: batch_ok_Cons)
qed (auto simp: batch_ok_Nil)

lemma validate_committed_prefix_Inr:
  assumes "validate_committed_prefix H prefix = Inr u" "pos_index (pre_previous prefix) \<le> u64_max"
  shows "batch_ok H (pos_index (pre_previous prefix)) (pre_entries prefix)"
    "pre_committed_index prefix = pos_index (pre_previous prefix) + length (pre_entries prefix)"
    "position_valid (pre_previous prefix)"
    "\<forall>i j. i < j \<longrightarrow> j < length (pre_entries prefix) \<longrightarrow>
       entry_term (pre_entries prefix ! i) \<le> entry_term (pre_entries prefix ! j)"
  using assms validate_prefix_loop_Inr[of H "pos_index (pre_previous prefix)" "pos_term (pre_previous prefix)" "pre_entries prefix"]
  by (auto simp: validate_committed_prefix_def result_simps split: if_splits)

lemma position_matches_bound:
  assumes "log_ok H (cr_log s)" "position_matches H s p d" "position_valid p"
  shows "pos_index p \<le> length (cr_log s)"
  using assms position_valid_cases[OF assms(3)]
  by (auto simp: position_matches_def GENESIS_def entry_eq split: if_splits option.splits)

section \<open>Comparison of a batch with the log\<close>

text \<open>Agreement of two entries as the core tests it.\<close>

definition agree :: "(bytes \<Rightarrow> bytes) \<Rightarrow> log_entry \<Rightarrow> log_entry \<Rightarrow> bool" where
  "agree H a b \<longleftrightarrow> entry_term a = entry_term b \<and> entry_digest H a = entry_digest H b"

definition agrees_upto :: "(bytes \<Rightarrow> bytes) \<Rightarrow> log_entry list \<Rightarrow> nat \<Rightarrow> log_entry list \<Rightarrow> nat \<Rightarrow> bool" where
  "agrees_upto H log p es n \<longleftrightarrow> (\<forall>i < n. p + i < length log \<and> agree H (log ! (p + i)) (es ! i))"

lemma log_delta_cases:
  assumes inv: "log_ok H (cr_log s)" and b: "batch_ok H p es" and p: "p \<le> length (cr_log s)"
    and d: "log_delta H s es = Inr (truncate_from, appended)"
  obtains n where "n \<le> length es" "appended = drop n es" "agrees_upto H (cr_log s) p es n"
    "truncate_from = None \<longrightarrow> appended = [] \<or> p + n = length (cr_log s)"
    "\<forall>k. truncate_from = Some k \<longrightarrow> k = Suc (p + n) \<and> n < length es \<and> p + n < length (cr_log s) \<and>
       cr_commit_index s < k \<and> \<not> agree H (cr_log s ! (p + n)) (es ! n)"
proof -
  have "\<exists>n. n \<le> length es \<and> appended = drop n es \<and> agrees_upto H (cr_log s) p es n \<and>
    (truncate_from = None \<longrightarrow> appended = [] \<or> p + n = length (cr_log s)) \<and>
    (\<forall>k. truncate_from = Some k \<longrightarrow> k = Suc (p + n) \<and> n < length es \<and> p + n < length (cr_log s) \<and>
       cr_commit_index s < k \<and> \<not> agree H (cr_log s ! (p + n)) (es ! n))"
    using b p d
  proof (induction es arbitrary: p)
    case Nil
    then show ?case by (auto simp: agrees_upto_def)
  next
    case (Cons e es)
    have idx: "entry_index e = Suc p" and b': "batch_ok H (Suc p) es"
      using Cons.prems(1) by (auto simp: batch_ok_Cons)
    show ?case
    proof (cases "p < length (cr_log s)")
      case False
      then have "p = length (cr_log s)" using Cons.prems(2) by simp
      then have "truncate_from = None" "appended = e # es"
        using Cons.prems(3) by (simp_all add: entry_eq[OF inv] idx)
      with \<open>p = _\<close> show ?thesis
        by (intro exI[of _ 0]) (simp add: agrees_upto_def)
    next
      case True
      then have ent: "entry s (entry_index e) = Some (cr_log s ! p)"
        by (simp add: entry_eq[OF inv] idx)
      show ?thesis
      proof (cases "agree H (cr_log s ! p) e")
        case agr: True
        then have "log_delta H s es = Inr (truncate_from, appended)"
          using Cons.prems(3) ent by (simp add: agree_def)
        from Cons.IH[OF b' _ this] True obtain n where n: "n \<le> length es" "appended = drop n es"
          "agrees_upto H (cr_log s) (Suc p) es n"
          "truncate_from = None \<longrightarrow> appended = [] \<or> Suc p + n = length (cr_log s)"
          "\<forall>k. truncate_from = Some k \<longrightarrow> k = Suc (Suc p + n) \<and> n < length es \<and> Suc p + n < length (cr_log s) \<and>
             cr_commit_index s < k \<and> \<not> agree H (cr_log s ! (Suc p + n)) (es ! n)"
          by auto
        have "agrees_upto H (cr_log s) p (e # es) (Suc n)"
          unfolding agrees_upto_def
        proof (intro allI impI)
          fix i assume "i < Suc n"
          then show "p + i < length (cr_log s) \<and> agree H (cr_log s ! (p + i)) ((e # es) ! i)"
            using n(3) agr True by (cases i) (auto simp: agrees_upto_def)
        qed
        with n show ?thesis by (intro exI[of _ "Suc n"]) auto
      next
        case dis: False
        then have "truncate_from = Some (Suc p)" "appended = e # es" "cr_commit_index s < Suc p"
          using Cons.prems(3) ent idx by (auto simp: agree_def split: if_splits)
        with dis True show ?thesis
          by (intro exI[of _ 0]) (simp add: agrees_upto_def)
      qed
    qed
  qed
  then show thesis using that by blast
qed

text \<open>The log that results from a batch: it keeps the committed prefix and ends in the whole batch.\<close>

lemma log_delta_shape:
  assumes inv: "log_ok H (cr_log s)" and b: "batch_ok H p es" and p: "p \<le> length (cr_log s)"
    and d: "log_delta H s es = Inr (truncate_from, appended)"
  obtains n where "n \<le> length es" "p + n \<le> length (cr_log s)" "agrees_upto H (cr_log s) p es n"
    "appended = drop n es"
    "mutated_log truncate_from appended (cr_log s) = cr_log s \<and> n = length es \<and> truncate_from = None \<or>
     mutated_log truncate_from appended (cr_log s) = take (p + n) (cr_log s) @ drop n es \<and>
       (p + n < length (cr_log s) \<longrightarrow> cr_commit_index s \<le> p + n)"
    "case truncate_from of None \<Rightarrow> True | Some k \<Rightarrow> cr_commit_index s < k"
proof -
  obtain n where n: "n \<le> length es" "appended = drop n es" "agrees_upto H (cr_log s) p es n"
    "truncate_from = None \<longrightarrow> appended = [] \<or> p + n = length (cr_log s)"
    "\<forall>k. truncate_from = Some k \<longrightarrow> k = Suc (p + n) \<and> n < length es \<and> p + n < length (cr_log s) \<and>
       cr_commit_index s < k \<and> \<not> agree H (cr_log s ! (p + n)) (es ! n)"
    by (rule log_delta_cases[OF inv b p d]) blast
  have pn: "p + n \<le> length (cr_log s)"
  proof (cases n)
    case (Suc m)
    then have "p + m < length (cr_log s)" using n(3) by (simp add: agrees_upto_def)
    with Suc show ?thesis by simp
  qed (use p in simp)
  show thesis
  proof (cases truncate_from)
    case None
    show thesis
    proof (rule that[OF n(1) pn n(3,2)])
      show "mutated_log truncate_from appended (cr_log s) = cr_log s \<and> n = length es \<and> truncate_from = None \<or>
         mutated_log truncate_from appended (cr_log s) = take (p + n) (cr_log s) @ drop n es \<and>
           (p + n < length (cr_log s) \<longrightarrow> cr_commit_index s \<le> p + n)"
        using None n(1,2,4) by (auto simp: mutated_log_def)
    qed (simp add: None)
  next
    case (Some k)
    show thesis
    proof (rule that[OF n(1) pn n(3,2)])
      show "mutated_log truncate_from appended (cr_log s) = cr_log s \<and> n = length es \<and> truncate_from = None \<or>
         mutated_log truncate_from appended (cr_log s) = take (p + n) (cr_log s) @ drop n es \<and>
           (p + n < length (cr_log s) \<longrightarrow> cr_commit_index s \<le> p + n)"
        using Some n(2) n(5)[rule_format, OF Some] by (simp add: mutated_log_def)
    qed (use Some n(5)[rule_format, OF Some] in simp)
  qed
qed

lemma spliced_log:
  assumes l: "log' = take (p + n) log @ drop n es" and pn: "p + n \<le> length log" and n: "n \<le> length es"
    and a: "agrees_upto H log p es n"
  shows "agrees_upto H log' p es (length es)" "p + length es = length log'" "take p log' = take p log"
proof -
  show "p + length es = length log'" "take p log' = take p log"
    using l pn n by simp_all
  show "agrees_upto H log' p es (length es)"
    unfolding agrees_upto_def
  proof (intro allI impI)
    fix i assume i: "i < length es"
    show "p + i < length log' \<and> agree H (log' ! (p + i)) (es ! i)"
    proof (cases "i < n")
      case True
      then show ?thesis using a l pn i n by (simp add: agrees_upto_def nth_append)
    next
      case False
      then have "log' ! (p + i) = es ! i"
        using l pn i by (simp add: nth_append)
      then show ?thesis using l pn i n by (simp add: agree_def)
    qed
  qed
qed

lemma log_delta_new_log:
  assumes inv: "log_ok H (cr_log s)" and b: "batch_ok H p es" and p: "p \<le> length (cr_log s)"
    and c: "cr_commit_index s \<le> length (cr_log s)"
    and d: "log_delta H s es = Inr (truncate_from, appended)"
    and l: "log' = mutated_log truncate_from appended (cr_log s)"
  shows "log_ok H log'" "take (cr_commit_index s) log' = take (cr_commit_index s) (cr_log s)"
    "p + length es \<le> length log'" "take p log' = take p (cr_log s)"
    "agrees_upto H log' p es (length es)" "set appended \<subseteq> set es"
    "case truncate_from of None \<Rightarrow> True | Some k \<Rightarrow> cr_commit_index s < k"
proof -
  obtain n where n: "n \<le> length es" "p + n \<le> length (cr_log s)" "agrees_upto H (cr_log s) p es n"
    "appended = drop n es"
    "log' = cr_log s \<and> n = length es \<and> truncate_from = None \<or>
     log' = take (p + n) (cr_log s) @ drop n es \<and> (p + n < length (cr_log s) \<longrightarrow> cr_commit_index s \<le> p + n)"
    "case truncate_from of None \<Rightarrow> True | Some k \<Rightarrow> cr_commit_index s < k"
    by (rule log_delta_shape[OF inv b p d, folded l]) blast
  show "set appended \<subseteq> set es" by (simp add: n(4) set_drop_subset)
  show "case truncate_from of None \<Rightarrow> True | Some k \<Rightarrow> cr_commit_index s < k" by (rule n(6))
  have bd: "batch_ok H (p + n) (drop n es)" by (rule batch_ok_drop[OF b n(1)])
  have "log_ok H log' \<and> take (cr_commit_index s) log' = take (cr_commit_index s) (cr_log s) \<and>
    p + length es \<le> length log' \<and> take p log' = take p (cr_log s) \<and> agrees_upto H log' p es (length es)"
    using n(5)
  proof
    assume "log' = cr_log s \<and> n = length es \<and> truncate_from = None"
    then show ?thesis using inv n(2,3) by simp
  next
    assume s: "log' = take (p + n) (cr_log s) @ drop n es \<and> (p + n < length (cr_log s) \<longrightarrow> cr_commit_index s \<le> p + n)"
    note sp = spliced_log[OF conjunct1[OF s] n(2,1,3)]
    have "log_ok H log'"
      using s bd n(2) log_ok_take[OF inv] by (simp add: log_ok_append)
    moreover have "take (cr_commit_index s) log' = take (cr_commit_index s) (cr_log s)"
      using s n(2) c by (cases "p + n < length (cr_log s)") (simp_all add: min_absorb1)
    ultimately show ?thesis using sp by simp
  qed
  then show "log_ok H log'" "take (cr_commit_index s) log' = take (cr_commit_index s) (cr_log s)"
    "p + length es \<le> length log'" "take p log' = take p (cr_log s)" "agrees_upto H log' p es (length es)"
    by simp_all
qed

end
