(* ===== verification/Replication.thy ===== *)
theory Replication
  imports Core_Types
begin

text \<open>
  The abstract replication protocol that the consensus core implements under one fixed quorum plan: replicas
  with a term, a vote, a log, a commit index and a role; a network that never forgets a message; and small
  actions for campaigning, voting, counting votes, taking office, proposing, sending, accepting,
  acknowledging, committing, forgetting progress, learning of a newer term and restarting.

  The safety argument rests on a history of the run: who voted for whom with which log, who was elected in a
  term and by whom, the log of each term's leader, how far each replica acknowledged that log, and how far its
  leader committed it. The invariant says that every log is a piece of the logs of leaders, and leader
  completeness follows by induction on terms from the intersection of election and commit quorums. No property
  of the hash function is used.
\<close>

section \<open>Replicas, messages, actions\<close>

datatype replica_role =
    RFollower
  | RCandidate "node_id fset"
  | RLeader "node_id \<Rightarrow> nat"

record replica =
  rp_term :: nat
  rp_vote :: "node_id option"
  rp_log :: "log_entry list"
  rp_commit :: nat
  rp_role :: replica_role

datatype replica_message =
    MVoteRequest nat log_position
  | MVote nat
  | MAppend nat log_position "log_entry list" nat
  | MAck nat nat
  | MPrefix log_position "log_entry list" nat

type_synonym network = "(node_id \<times> node_id \<times> replica_message) set"

definition last_pos :: "log_entry list \<Rightarrow> log_position" where
  "last_pos l = (if l = [] then GENESIS else le_position (last l))"

text \<open>
  How a batch after index \<open>p\<close> changes a log: entries that agree in term are kept, and the first one that
  differs replaces the rest.
\<close>

definition splice :: "log_entry list \<Rightarrow> nat \<Rightarrow> log_entry list \<Rightarrow> log_entry list \<Rightarrow> bool" where
  "splice l p es l' \<longleftrightarrow>
     (\<exists>j \<le> length es. p + j \<le> length l \<and> (\<forall>i < j. entry_term (l ! (p + i)) = entry_term (es ! i)) \<and>
        (j = length es \<and> l' = l \<or>
         j < length es \<and> l' = take (p + j) l @ drop j es \<and> (p + j = length l \<or> l ! (p + j) \<noteq> es ! j)))"

inductive action ::
  "(node_id fset \<Rightarrow> bool) \<Rightarrow> (node_id fset \<Rightarrow> bool) \<Rightarrow> node_id \<Rightarrow> network \<Rightarrow> replica \<Rightarrow> replica \<Rightarrow> network \<Rightarrow> bool"
  for elect commitq n N where
  campaign:
    "sends \<subseteq> {(n, to, MVoteRequest (Suc (rp_term r)) (last_pos (rp_log r))) | to. True} \<Longrightarrow>
     action elect commitq n N r
       (r\<lparr>rp_term := Suc (rp_term r), rp_vote := Some n, rp_role := RCandidate {|n|}\<rparr>) sends"
| vote:
    "(c, n, MVoteRequest t pos) \<in> N \<Longrightarrow>
     rp_term r < t \<or> t = rp_term r \<and> (rp_vote r = None \<or> rp_vote r = Some c) \<Longrightarrow>
     position_le (last_pos (rp_log r)) pos \<Longrightarrow>
     role' = RFollower \<or> t = rp_term r \<and> rp_vote r = Some c \<and> role' = rp_role r \<Longrightarrow>
     sends \<subseteq> {(n, c, MVote t)} \<Longrightarrow>
     action elect commitq n N r (r\<lparr>rp_term := t, rp_vote := Some c, rp_role := role'\<rparr>) sends"
| tally:
    "(v, n, MVote (rp_term r)) \<in> N \<Longrightarrow> rp_role r = RCandidate V \<Longrightarrow>
     action elect commitq n N r (r\<lparr>rp_role := RCandidate (finsert v V)\<rparr>) {}"
| take_office:
    "rp_role r = RCandidate V \<Longrightarrow> elect V \<Longrightarrow>
     action elect commitq n N r
       (r\<lparr>rp_role := RLeader (\<lambda>m. if m = n then length (rp_log r) else 0)\<rparr>) {}"
| propose_entry:
    "rp_role r = RLeader M \<Longrightarrow> entry_term e = rp_term r \<Longrightarrow> entry_index e = Suc (length (rp_log r)) \<Longrightarrow>
     action elect commitq n N r
       (r\<lparr>rp_log := rp_log r @ [e], rp_role := RLeader (M(n := Suc (length (rp_log r))))\<rparr>) {}"
| send:
    "rp_role r = RLeader M \<Longrightarrow> p \<le> length (rp_log r) \<Longrightarrow> ci \<le> rp_commit r \<Longrightarrow>
     action elect commitq n N r r
       {(n, to, MAppend (rp_term r) (last_pos (take p (rp_log r))) (take j (drop p (rp_log r))) ci)}"
| accept:
    "(l, n, MAppend t prev es ci) \<in> N \<Longrightarrow> rp_term r \<le> t \<Longrightarrow>
     pos_index prev \<le> length (rp_log r) \<Longrightarrow>
     pos_index prev = 0 \<or> entry_term (rp_log r ! (pos_index prev - 1)) = pos_term prev \<Longrightarrow>
     splice (rp_log r) (pos_index prev) es log' \<Longrightarrow>
     take (rp_commit r) log' = take (rp_commit r) (rp_log r) \<Longrightarrow>
     k = pos_index prev + length es \<Longrightarrow>
     commit' = rp_commit r \<or> commit' = max (rp_commit r) (min ci k) \<Longrightarrow>
     sends \<subseteq> {(n, l, MAck t k)} \<Longrightarrow>
     action elect commitq n N r
       (r\<lparr>rp_term := t, rp_vote := (if rp_term r < t then None else rp_vote r), rp_log := log',
          rp_commit := commit', rp_role := RFollower\<rparr>) sends"
| acknowledge:
    "(m, n, MAck (rp_term r) k) \<in> N \<Longrightarrow> rp_role r = RLeader M \<Longrightarrow>
     action elect commitq n N r (r\<lparr>rp_role := RLeader (M(m := max (M m) k))\<rparr>) {}"
| advance:
    "rp_role r = RLeader M \<Longrightarrow> rp_commit r < i \<Longrightarrow> i \<le> length (rp_log r) \<Longrightarrow>
     entry_term (rp_log r ! (i - 1)) = rp_term r \<Longrightarrow> commitq A \<Longrightarrow> \<forall>m. m |\<in>| A \<longrightarrow> i \<le> M m \<Longrightarrow>
     action elect commitq n N r (r\<lparr>rp_commit := i\<rparr>) {}"
| forget:
    "rp_role r = RLeader M \<Longrightarrow> \<forall>m. M' m \<le> M m \<Longrightarrow>
     action elect commitq n N r (r\<lparr>rp_role := RLeader M'\<rparr>) {}"
| step_down:
    "rp_term r \<le> t \<Longrightarrow>
     action elect commitq n N r
       (r\<lparr>rp_term := t, rp_vote := (if rp_term r < t then None else rp_vote r), rp_role := RFollower\<rparr>) {}"
| restart:
    "c \<le> rp_commit r \<Longrightarrow>
     action elect commitq n N r (r\<lparr>rp_commit := c, rp_role := RFollower\<rparr>) {}"

inductive_cases actionE: "action elect commitq n N r r' sends"

type_synonym system = "(node_id \<Rightarrow> replica) \<times> network"

inductive sys_step :: "(node_id fset \<Rightarrow> bool) \<Rightarrow> (node_id fset \<Rightarrow> bool) \<Rightarrow> system \<Rightarrow> system \<Rightarrow> bool"
  for elect commitq where
  sys_stepI: "action elect commitq n N (R n) r' sends \<Longrightarrow>
    sys_step elect commitq (R, N) (R(n := r'), N \<union> sends)"

definition initial_replica :: replica where
  "initial_replica = \<lparr>rp_term = 0, rp_vote = None, rp_log = [], rp_commit = 0, rp_role = RFollower\<rparr>"

definition initial_system :: system where
  "initial_system = ((\<lambda>_. initial_replica), {})"

section \<open>History of a run\<close>

record history =
  hv :: "nat \<Rightarrow> node_id \<Rightarrow> (node_id \<times> log_entry list) option"
  hl :: "nat \<Rightarrow> node_id option"
  hq :: "nat \<Rightarrow> node_id fset"
  hg :: "nat \<Rightarrow> log_entry list"
  ha :: "nat \<Rightarrow> node_id \<Rightarrow> nat"
  hc :: "nat \<Rightarrow> nat"

definition initial_history :: history where
  "initial_history = \<lparr>hv = \<lambda>_ _. None, hl = \<lambda>_. None, hq = \<lambda>_. {||}, hg = \<lambda>_. [], ha = \<lambda>_ _. 0, hc = \<lambda>_. 0\<rparr>"

text \<open>A log all of whose prefixes are prefixes of the log of the leader of their last term.\<close>

definition traced :: "history \<Rightarrow> log_entry list \<Rightarrow> bool" where
  "traced h l \<longleftrightarrow> (\<forall>i < length l. hl h (entry_term (l ! i)) \<noteq> None \<and>
     i < length (hg h (entry_term (l ! i))) \<and> take (Suc i) l = take (Suc i) (hg h (entry_term (l ! i))))"

definition holds_prefix :: "history \<Rightarrow> nat \<Rightarrow> nat \<Rightarrow> log_entry list \<Rightarrow> bool" where
  "holds_prefix h t k l \<longleftrightarrow> take k l = take k (hg h t)"

text \<open>
  What is left of the prefix of length \<open>k\<close> acknowledged in term \<open>t\<close>: a log still holds it, or some leader of
  a later term below \<open>b\<close> was elected without it.
\<close>

definition kept :: "history \<Rightarrow> nat \<Rightarrow> nat \<Rightarrow> log_entry list \<Rightarrow> nat \<Rightarrow> bool" where
  "kept h t k l b \<longleftrightarrow> holds_prefix h t k l \<or>
     (\<exists>t''. t < t'' \<and> t'' < b \<and> hl h t'' \<noteq> None \<and> \<not> holds_prefix h t k (hg h t''))"

definition chosen :: "(node_id fset \<Rightarrow> bool) \<Rightarrow> history \<Rightarrow> nat \<Rightarrow> nat \<Rightarrow> bool" where
  "chosen commitq h t k \<longleftrightarrow> 0 < k \<and> k \<le> length (hg h t) \<and> entry_term (hg h t ! (k - 1)) = t \<and> k \<le> hc h t \<and>
     (\<exists>A. commitq A \<and> (\<forall>m. m |\<in>| A \<longrightarrow> k \<le> ha h t m))"

text \<open>A log committed by term \<open>b\<close>.\<close>

definition committed :: "(node_id fset \<Rightarrow> bool) \<Rightarrow> history \<Rightarrow> nat \<Rightarrow> log_entry list \<Rightarrow> bool" where
  "committed commitq h b l \<longleftrightarrow>
     l = [] \<or> (\<exists>t k. t \<le> b \<and> chosen commitq h t k \<and> length l \<le> k \<and> l = take (length l) (hg h t))"

text \<open>Facts about the history alone.\<close>

definition leaders_ok :: "(node_id fset \<Rightarrow> bool) \<Rightarrow> history \<Rightarrow> bool" where
  "leaders_ok elect h \<longleftrightarrow>
     (\<forall>t c. hl h t = Some c \<longrightarrow>
        elect (hq h t) \<and> (\<forall>v. v |\<in>| hq h t \<longrightarrow> (\<exists>l. hv h t v = Some (c, l))) \<and>
        (\<exists>lc. hv h t c = Some (c, lc) \<and> length lc \<le> length (hg h t) \<and> take (length lc) (hg h t) = lc \<and>
           (\<forall>i. length lc \<le> i \<longrightarrow> i < length (hg h t) \<longrightarrow> entry_term (hg h t ! i) = t))) \<and>
     (\<forall>t. hl h t = None \<longrightarrow> hg h t = [] \<and> hc h t = 0) \<and>
     (\<forall>t. traced h (hg h t) \<and> (\<forall>i < length (hg h t). entry_index (hg h t ! i) = Suc i))"

definition ballots_ok :: "history \<Rightarrow> bool" where
  "ballots_ok h \<longleftrightarrow>
     (\<forall>t n c l. hv h t n = Some (c, l) \<longrightarrow> traced h l \<and>
        (\<exists>lc. hv h t c = Some (c, lc) \<and> position_le (last_pos l) (last_pos lc))) \<and>
     (\<forall>t c lc. hv h t c = Some (c, lc) \<longrightarrow> (\<forall>e \<in> set lc. entry_term e < t))"

text \<open>
  A replica that acknowledged a prefix of term \<open>t\<close> still held it when it voted in a later term, unless a
  leader of a term in between had been elected without it.
\<close>

definition promises_ok :: "history \<Rightarrow> bool" where
  "promises_ok h \<longleftrightarrow>
     (\<forall>t n. ha h t n \<le> length (hg h t)) \<and>
     (\<forall>t n k t' c l. k \<le> ha h t n \<longrightarrow> t < t' \<longrightarrow> hv h t' n = Some (c, l) \<longrightarrow> hl h t' = None \<or> n |\<in>| hq h t' \<longrightarrow>
        kept h t k l t')"

definition history_ok :: "(node_id fset \<Rightarrow> bool) \<Rightarrow> history \<Rightarrow> bool" where
  "history_ok elect h \<longleftrightarrow> leaders_ok elect h \<and> ballots_ok h \<and> promises_ok h"

text \<open>Facts about one replica.\<close>

definition vote_ok :: "history \<Rightarrow> node_id \<Rightarrow> replica \<Rightarrow> bool" where
  "vote_ok h n r \<longleftrightarrow>
     (\<forall>c. rp_vote r = Some c \<longrightarrow> (\<exists>l. hv h (rp_term r) n = Some (c, l))) \<and>
     (\<forall>t c l. hv h t n = Some (c, l) \<longrightarrow> t \<le> rp_term r \<and> (t = rp_term r \<longrightarrow> rp_vote r = Some c))"

definition role_ok :: "history \<Rightarrow> node_id \<Rightarrow> replica \<Rightarrow> bool" where
  "role_ok h n r \<longleftrightarrow>
     (case rp_role r of
        RFollower \<Rightarrow> True
      | RCandidate V \<Rightarrow> hv h (rp_term r) n = Some (n, rp_log r) \<and> hl h (rp_term r) \<noteq> Some n \<and>
          (\<forall>v. v |\<in>| V \<longrightarrow> (\<exists>l. hv h (rp_term r) v = Some (n, l)))
      | RLeader M \<Rightarrow> hl h (rp_term r) = Some n \<and> hg h (rp_term r) = rp_log r \<and>
          (\<forall>m. M m \<le> ha h (rp_term r) m) \<and> hc h (rp_term r) \<le> rp_commit r)"

definition log_held :: "(node_id fset \<Rightarrow> bool) \<Rightarrow> history \<Rightarrow> node_id \<Rightarrow> replica \<Rightarrow> bool" where
  "log_held commitq h n r \<longleftrightarrow>
     traced h (rp_log r) \<and> (\<forall>e \<in> set (rp_log r). entry_term e \<le> rp_term r) \<and>
     rp_commit r \<le> length (rp_log r) \<and> committed commitq h (rp_term r) (take (rp_commit r) (rp_log r)) \<and>
     (\<forall>t. 0 < ha h t n \<longrightarrow> t \<le> rp_term r) \<and>
     (\<forall>t k. k \<le> ha h t n \<longrightarrow> kept h t k (rp_log r) (Suc (rp_term r)))"

definition replica_ok :: "(node_id fset \<Rightarrow> bool) \<Rightarrow> history \<Rightarrow> node_id \<Rightarrow> replica \<Rightarrow> bool" where
  "replica_ok commitq h n r \<longleftrightarrow> vote_ok h n r \<and> role_ok h n r \<and> log_held commitq h n r"

text \<open>Facts about one message. Committed prefixes of an earlier plan are not sent while there is one plan.\<close>

fun message_ok :: "(node_id fset \<Rightarrow> bool) \<Rightarrow> history \<Rightarrow> node_id \<times> node_id \<times> replica_message \<Rightarrow> bool" where
  "message_ok commitq h (c, to, MVoteRequest t pos) \<longleftrightarrow> (\<exists>lc. hv h t c = Some (c, lc) \<and> pos = last_pos lc)"
| "message_ok commitq h (v, c, MVote t) \<longleftrightarrow> (\<exists>l. hv h t v = Some (c, l))"
| "message_ok commitq h (l, to, MAppend t prev es ci) \<longleftrightarrow>
     hl h t = Some l \<and> pos_index prev + length es \<le> length (hg h t) \<and>
     prev = last_pos (take (pos_index prev) (hg h t)) \<and> es = take (length es) (drop (pos_index prev) (hg h t)) \<and>
     ci \<le> length (hg h t) \<and> committed commitq h t (take ci (hg h t))"
| "message_ok commitq h (v, l, MAck t k) \<longleftrightarrow> k \<le> ha h t v"
| "message_ok commitq h (v, l, MPrefix prev es k) \<longleftrightarrow> False"

definition system_ok :: "(node_id fset \<Rightarrow> bool) \<Rightarrow> (node_id fset \<Rightarrow> bool) \<Rightarrow> history \<Rightarrow> system \<Rightarrow> bool" where
  "system_ok elect commitq h S \<longleftrightarrow>
     history_ok elect h \<and> (\<forall>n. replica_ok commitq h n (fst S n)) \<and> (\<forall>m \<in> snd S. message_ok commitq h m)"

section \<open>Traced logs\<close>

lemma nth_take_eq: "take (Suc j) l = take (Suc j) g \<Longrightarrow> i \<le> j \<Longrightarrow> l ! i = g ! i"
  by (metis le_imp_less_Suc nth_take)

lemma take_le_eq: "take k l = take k g \<Longrightarrow> j \<le> k \<Longrightarrow> take j l = take j g"
  by (metis min.absorb1 take_take)

lemma tracedD:
  assumes "traced h l" "i < length l"
  shows "hl h (entry_term (l ! i)) \<noteq> None" "i < length (hg h (entry_term (l ! i)))"
    "take (Suc i) l = take (Suc i) (hg h (entry_term (l ! i)))"
  using assms by (auto simp: traced_def)

lemma traced_take: "traced h l \<Longrightarrow> traced h (take n l)"
  by (auto simp: traced_def min_def)

lemma traced_Nil [simp]: "traced h []"
  by (simp add: traced_def)

lemma leader_terms:
  assumes "leaders_ok elect h" "ballots_ok h" "i < length (hg h t)"
  shows "entry_term (hg h t ! i) \<le> t"
proof -
  have "hl h t \<noteq> None" using assms(1,3) by (auto simp: leaders_ok_def)
  then obtain c lc where lc: "hv h t c = Some (c, lc)" "take (length lc) (hg h t) = lc"
    "\<forall>i. length lc \<le> i \<longrightarrow> i < length (hg h t) \<longrightarrow> entry_term (hg h t ! i) = t"
    using assms(1) unfolding leaders_ok_def by blast
  show ?thesis
  proof (cases "i < length lc")
    case True
    then have "hg h t ! i \<in> set lc" using lc(2) by (metis nth_mem nth_take)
    then show ?thesis using assms(2) lc(1) by (fastforce simp: ballots_ok_def)
  next
    case False
    then show ?thesis using lc(3) assms(3) by simp
  qed
qed

lemma traced_sorted:
  assumes "leaders_ok elect h" "ballots_ok h" "traced h l" "i \<le> j" "j < length l"
  shows "entry_term (l ! i) \<le> entry_term (l ! j)"
proof -
  note t = tracedD[OF assms(3,5)]
  have "l ! i = hg h (entry_term (l ! j)) ! i"
    using nth_take_eq[OF t(3) assms(4)] .
  then show ?thesis
    using leader_terms[OF assms(1,2), of i "entry_term (l ! j)"] t(2) assms(4) by simp
qed

lemma traced_index:
  assumes "leaders_ok elect h" "traced h l" "i < length l"
  shows "entry_index (l ! i) = Suc i"
proof -
  note t = tracedD[OF assms(2,3)]
  have "l ! i = hg h (entry_term (l ! i)) ! i"
    using nth_take_eq[OF t(3) order_refl] .
  then show ?thesis using assms(1) t(2) by (metis leaders_ok_def)
qed

lemma traced_matching:
  assumes "traced h l" "traced h l'" "i < length l" "i < length l'" "entry_term (l ! i) = entry_term (l' ! i)"
  shows "take (Suc i) l = take (Suc i) l'"
  using tracedD(3)[OF assms(1,3)] tracedD(3)[OF assms(2,4)] assms(5) by simp

lemma last_pos_index:
  assumes "leaders_ok elect h" "traced h l"
  shows "pos_index (last_pos l) = length l"
  using traced_index[OF assms, of "length l - 1"] by (auto simp: last_pos_def GENESIS_def last_conv_nth)

lemma last_pos_term: "l \<noteq> [] \<Longrightarrow> pos_term (last_pos l) = entry_term (l ! (length l - 1))"
  by (simp add: last_pos_def last_conv_nth)

section \<open>Growth of the history\<close>

text \<open>What one action of replica \<open>n\<close> may add to the history.\<close>

definition grows :: "node_id \<Rightarrow> history \<Rightarrow> history \<Rightarrow> bool" where
  "grows n h h' \<longleftrightarrow>
     (\<forall>t m x. hv h t m = Some x \<longrightarrow> hv h' t m = Some x) \<and> (\<forall>t m. m \<noteq> n \<longrightarrow> hv h' t m = hv h t m) \<and>
     (\<forall>t c. hl h t = Some c \<longrightarrow> hl h' t = Some c) \<and>
     (\<forall>t c. hl h' t = Some c \<longrightarrow> hl h t = Some c \<or> hl h t = None \<and> c = n) \<and>
     (\<forall>t. hl h t \<noteq> None \<longrightarrow> hq h' t = hq h t) \<and>
     (\<forall>t. hl h t \<noteq> None \<longrightarrow> (\<exists>ext. hg h' t = hg h t @ ext \<and> (\<forall>e \<in> set ext. entry_term e = t) \<and>
        (ext \<noteq> [] \<longrightarrow> hl h t = Some n))) \<and>
     (\<forall>t m. ha h t m \<le> ha h' t m) \<and> (\<forall>t m. m \<noteq> n \<longrightarrow> ha h' t m = ha h t m) \<and>
     (\<forall>t. hc h t \<le> hc h' t) \<and> (\<forall>t. hc h' t = hc h t \<or> hl h t = Some n)"

lemma grows_refl: "grows n h h"
  by (simp add: grows_def)

lemma leaders_log_empty: "leaders_ok elect h \<Longrightarrow> hl h t = None \<Longrightarrow> hg h t = []"
  by (simp add: leaders_ok_def)

lemma grows_log:
  assumes "grows n h h'" "hl h t \<noteq> None"
  obtains ext where "hg h' t = hg h t @ ext" "\<forall>e \<in> set ext. entry_term e = t"
  using assms unfolding grows_def by blast

lemma grows_take:
  assumes "leaders_ok elect h" "grows n h h'" "k \<le> length (hg h t)"
  shows "take k (hg h' t) = take k (hg h t)" "k \<le> length (hg h' t)"
proof -
  have "take k (hg h' t) = take k (hg h t) \<and> k \<le> length (hg h' t)"
  proof (cases "hl h t = None")
    case True
    then have "k = 0" using assms(1,3) by (simp add: leaders_log_empty)
    then show ?thesis by simp
  next
    case False
    then obtain ext where "hg h' t = hg h t @ ext" by (rule grows_log[OF assms(2)])
    then show ?thesis using assms(3) by simp
  qed
  then show "take k (hg h' t) = take k (hg h t)" "k \<le> length (hg h' t)" by simp_all
qed

lemma grows_nth:
  assumes "leaders_ok elect h" "grows n h h'" "i < length (hg h t)"
  shows "hg h' t ! i = hg h t ! i"
  using grows_take(1)[OF assms(1,2), of "Suc i" t] assms(3) by (metis Suc_leI lessI nth_take)

lemma grows_elected: "grows n h h' \<Longrightarrow> hl h t \<noteq> None \<Longrightarrow> hl h' t \<noteq> None"
  unfolding grows_def by blast

lemma grows_traced:
  assumes "leaders_ok elect h" "grows n h h'" "traced h l"
  shows "traced h' l"
  unfolding traced_def
proof (intro allI impI)
  fix i assume i: "i < length l"
  note t = tracedD[OF assms(3) i]
  show "hl h' (entry_term (l ! i)) \<noteq> None \<and> i < length (hg h' (entry_term (l ! i))) \<and>
      take (Suc i) l = take (Suc i) (hg h' (entry_term (l ! i)))"
    using t grows_elected[OF assms(2) t(1)] grows_take[OF assms(1,2), of "Suc i" "entry_term (l ! i)"] by auto
qed

lemma grows_holds_prefix:
  assumes "leaders_ok elect h" "grows n h h'" "k \<le> length (hg h t)"
  shows "holds_prefix h' t k l = holds_prefix h t k l"
  using grows_take(1)[OF assms] by (simp add: holds_prefix_def)

text \<open>A leader that lacked a prefix when elected never acquires it: it appends entries of its own term.\<close>

lemma grows_lacks:
  assumes ok: "leaders_ok elect h" "ballots_ok h" and g: "grows n h h'" and k: "k \<le> length (hg h t)"
    and e: "hl h t'' \<noteq> None" "t < t''" and lacks: "\<not> holds_prefix h t k (hg h t'')"
  shows "\<not> holds_prefix h' t k (hg h' t'')"
proof
  assume a: "holds_prefix h' t k (hg h' t'')"
  obtain ext where ext: "hg h' t'' = hg h t'' @ ext" "\<forall>x \<in> set ext. entry_term x = t''"
    by (rule grows_log[OF g e(1)])
  have eq: "take k (hg h t'' @ ext) = take k (hg h t)"
    using a ext(1) grows_take(1)[OF ok(1) g k] by (simp add: holds_prefix_def)
  have "k \<le> length (hg h t'')"
  proof (rule ccontr)
    assume "\<not> k \<le> length (hg h t'')"
    then have lt: "length (hg h t'') < k" by simp
    let ?i = "length (hg h t'')"
    have "length (take k (hg h t'' @ ext)) = k" using eq k by simp
    with lt obtain x xs where x: "ext = x # xs" by (cases ext) auto
    have "hg h t ! ?i = x"
      using eq lt x by (metis nth_append_length nth_take)
    moreover have "entry_term x = t''" using ext(2) x by simp
    moreover have "entry_term (hg h t ! ?i) \<le> t"
      by (rule leader_terms[OF ok]) (use lt k in simp)
    ultimately show False using e(2) by simp
  qed
  then have "holds_prefix h t k (hg h t'')"
    using eq by (simp add: holds_prefix_def)
  with lacks show False by contradiction
qed

lemma grows_chosen:
  assumes "leaders_ok elect h" "grows n h h'" "chosen commitq h t k"
  shows "chosen commitq h' t k"
proof -
  have k: "0 < k" "k \<le> length (hg h t)" "entry_term (hg h t ! (k - 1)) = t"
    using assms(3) by (auto simp: chosen_def)
  obtain A where A: "commitq A" "\<forall>m. m |\<in>| A \<longrightarrow> k \<le> ha h t m"
    using assms(3) by (auto simp: chosen_def)
  have "k \<le> hc h' t" using assms(2,3) unfolding grows_def chosen_def by (meson order_trans)
  moreover have "\<forall>m. m |\<in>| A \<longrightarrow> k \<le> ha h' t m"
    using A(2) assms(2) unfolding grows_def by (meson order_trans)
  moreover have "hg h' t ! (k - 1) = hg h t ! (k - 1)"
    by (rule grows_nth[OF assms(1,2)]) (use k in simp)
  ultimately show ?thesis
    using k A(1) grows_take(2)[OF assms(1,2) k(2)] by (auto simp: chosen_def)
qed

lemma grows_committed:
  assumes "leaders_ok elect h" "grows n h h'" "committed commitq h b l"
  shows "committed commitq h' b l"
proof (cases "l = []")
  case False
  then obtain t k where *: "chosen commitq h t k" "length l \<le> k" "l = take (length l) (hg h t)" and b: "t \<le> b"
    using assms(3) by (auto simp: committed_def)
  have "length l \<le> length (hg h t)"
    using *(1,2) by (auto simp: chosen_def)
  then have "l = take (length l) (hg h' t)"
    using grows_take(1)[OF assms(1,2)] *(3) by metis
  then show ?thesis
    using grows_chosen[OF assms(1,2) *(1)] *(2) b by (auto simp: committed_def)
qed (simp add: committed_def)

lemma committed_take:
  assumes "committed commitq h u (take b l)" "a \<le> b"
  shows "committed commitq h u (take a l)"
proof (cases "take b l = []")
  case True
  then have "take a l = []" using assms(2) by auto
  then show ?thesis by (simp add: committed_def)
next
  case False
  then obtain t k where *: "chosen commitq h t k" "length (take b l) \<le> k" "take b l = take (length (take b l)) (hg h t)"
    and u: "t \<le> u"
    using assms(1) by (auto simp: committed_def)
  have "take a l = take a (take b l)" using assms(2) by (simp add: min_absorb1)
  also have "\<dots> = take (min a (length (take b l))) (hg h t)"
    by (subst *(3)) (simp add: take_take)
  finally have eq: "take a l = take (min a (length (take b l))) (hg h t)" .
  have "length (take a l) = min a (length (take b l))"
    using assms(2) by auto
  then have "length (take a l) \<le> k" "take a l = take (length (take a l)) (hg h t)"
    using eq *(2) by auto
  then show ?thesis
    using *(1) u unfolding committed_def by blast
qed

lemma committed_mono: "committed commitq h b l \<Longrightarrow> b \<le> b' \<Longrightarrow> committed commitq h b' l"
  by (auto simp: committed_def intro: order_trans)

text \<open>Facts about other replicas and about messages survive.\<close>

lemma grows_vote_ok: "grows n h h' \<Longrightarrow> m \<noteq> n \<Longrightarrow> vote_ok h m r \<Longrightarrow> vote_ok h' m r"
  unfolding grows_def vote_ok_def by metis

lemma grows_ballot: "grows n h h' \<Longrightarrow> hv h t m = Some x \<Longrightarrow> hv h' t m = Some x"
  unfolding grows_def by blast

lemma grows_role_ok:
  assumes g: "grows n h h'" and m: "m \<noteq> n" and r: "role_ok h m r"
  shows "role_ok h' m r"
proof (cases "rp_role r")
  case (RCandidate V)
  then have c: "hv h (rp_term r) m = Some (m, rp_log r)" "hl h (rp_term r) \<noteq> Some m"
    "\<forall>v. v |\<in>| V \<longrightarrow> (\<exists>l. hv h (rp_term r) v = Some (m, l))"
    using r by (auto simp: role_ok_def)
  have "hl h' (rp_term r) \<noteq> Some m"
    using g c(2) m unfolding grows_def by blast
  moreover have "\<forall>v. v |\<in>| V \<longrightarrow> (\<exists>l. hv h' (rp_term r) v = Some (m, l))"
    using c(3) grows_ballot[OF g] by blast
  ultimately show ?thesis
    using RCandidate grows_ballot[OF g c(1)] by (simp add: role_ok_def)
next
  case (RLeader M)
  then have l: "hl h (rp_term r) = Some m" "hg h (rp_term r) = rp_log r" "\<forall>k. M k \<le> ha h (rp_term r) k"
    "hc h (rp_term r) \<le> rp_commit r"
    using r by (auto simp: role_ok_def)
  have "hl h' (rp_term r) = Some m"
    using g l(1) unfolding grows_def by blast
  moreover have "hg h' (rp_term r) = rp_log r"
    using g l(1,2) m unfolding grows_def by (metis append_Nil2 option.distinct(1) option.inject)
  moreover have "\<forall>k. M k \<le> ha h' (rp_term r) k"
    using g l(3) unfolding grows_def by (meson order_trans)
  moreover have "hc h' (rp_term r) \<le> rp_commit r"
    using g l(1,4) m unfolding grows_def by (metis option.inject)
  ultimately show ?thesis using RLeader by (simp add: role_ok_def)
qed (simp add: role_ok_def)

lemma kept_mono: "kept h t k l b \<Longrightarrow> b \<le> b' \<Longrightarrow> kept h t k l b'"
  unfolding kept_def by (meson order_less_le_trans)

lemma grows_kept:
  assumes ok: "history_ok elect h" and g: "grows n h h'" and k: "k \<le> length (hg h t)" and kept: "kept h t k l b"
  shows "kept h' t k l b"
proof -
  have o: "leaders_ok elect h" "ballots_ok h"
    using ok by (auto simp: history_ok_def)
  from kept show ?thesis
    using grows_holds_prefix[OF o(1) g k] grows_lacks[OF o g k] grows_elected[OF g] unfolding kept_def by blast
qed

lemma acked_length: "history_ok elect h \<Longrightarrow> k \<le> ha h t m \<Longrightarrow> k \<le> length (hg h t)"
  by (auto simp: history_ok_def promises_ok_def intro: order_trans)

lemma grows_log_held:
  assumes ok: "history_ok elect h" and g: "grows n h h'" and m: "m \<noteq> n" and r: "log_held commitq h m r"
  shows "log_held commitq h' m r"
proof -
  have o: "leaders_ok elect h" using ok by (simp add: history_ok_def)
  have a: "ha h' t m = ha h t m" for t
    using g m by (simp add: grows_def)
  have "kept h' t k (rp_log r) (Suc (rp_term r))" if "k \<le> ha h' t m" for t k
    using grows_kept[OF ok g acked_length[OF ok]] that r a by (auto simp: log_held_def)
  then show ?thesis
    using r grows_traced[OF o g] grows_committed[OF o g] a by (auto simp: log_held_def)
qed

lemma grows_replica_ok:
  "history_ok elect h \<Longrightarrow> grows n h h' \<Longrightarrow> m \<noteq> n \<Longrightarrow> replica_ok commitq h m r \<Longrightarrow> replica_ok commitq h' m r"
  using grows_vote_ok grows_role_ok grows_log_held unfolding replica_ok_def by blast

lemma grows_message_ok:
  assumes ok: "history_ok elect h" and g: "grows n h h'" and m: "message_ok commitq h msg"
  shows "message_ok commitq h' msg"
proof -
  have o: "leaders_ok elect h" using ok by (simp add: history_ok_def)
  obtain src dst x where msg: "msg = (src, dst, x)" by (cases msg)
  show ?thesis
  proof (cases x)
    case (MAppend t prev es ci)
    let ?p = "pos_index prev"
    have h: "hl h t = Some src" "?p + length es \<le> length (hg h t)" "prev = last_pos (take ?p (hg h t))"
      "es = take (length es) (drop ?p (hg h t))" "ci \<le> length (hg h t)" "committed commitq h t (take ci (hg h t))"
      using m msg MAppend by auto
    have "take (?p + length es) (hg h' t) = take (?p + length es) (hg h t)" "?p + length es \<le> length (hg h' t)"
      "take ci (hg h' t) = take ci (hg h t)" "ci \<le> length (hg h' t)"
      using grows_take[OF o g h(2)] grows_take[OF o g h(5)] by auto
    moreover have "take (length es) (drop ?p (hg h' t)) = take (length es) (drop ?p (hg h t))"
      using calculation(1) by (simp add: take_drop add.commute)
    moreover have "take ?p (hg h' t) = take ?p (hg h t)"
      using take_le_eq[OF calculation(1)] by simp
    moreover have "hl h' t = Some src"
      using g h(1) unfolding grows_def by blast
    ultimately show ?thesis
      using h msg MAppend grows_committed[OF o g h(6)] by simp
  next
    case (MAck t k)
    then have "k \<le> ha h t src" using m msg by simp
    then have "k \<le> ha h' t src" using g unfolding grows_def by (meson order_trans)
    then show ?thesis using msg MAck by simp
  qed (use m msg grows_ballot[OF g] in auto)
qed

text \<open>The obligations of one action: the new history, the acting replica, and what it sends.\<close>

lemma system_okI:
  assumes "system_ok elect commitq h (R, N)" "grows n h h'" "history_ok elect h'"
    "replica_ok commitq h' n r'" "\<forall>m \<in> sends. message_ok commitq h' m"
  shows "system_ok elect commitq h' (R(n := r'), N \<union> sends)"
  using assms grows_replica_ok[OF _ assms(2)] grows_message_ok[OF _ assms(2)]
  unfolding system_ok_def by (auto simp: fun_upd_def)

end
