(* ===== verification/Replication_Safety.thy ===== *)
theory Replication_Safety
  imports Replication
begin

text \<open>
  Safety of the replication protocol. Every action preserves the invariant of a run (one lemma per action,
  each with the history it extends); the initial system satisfies it; and from it, for every quorum provider:
  one leader per term, leader completeness, and agreement of all committed logs, in one state and across time.
\<close>

section \<open>Preservation by each action\<close>

lemma log_held_same:
  assumes "log_held commitq h n r" "rp_log r' = rp_log r" "rp_commit r' \<le> rp_commit r" "rp_term r \<le> rp_term r'"
  shows "log_held commitq h n r'"
proof -
  have "committed commitq h (rp_term r') (take (rp_commit r') (rp_log r'))"
    using committed_mono[OF committed_take[of commitq h "rp_term r" "rp_commit r" "rp_log r" "rp_commit r'"] assms(4)] assms(1-3)
    by (simp add: log_held_def)
  moreover have "kept h t k (rp_log r') (Suc (rp_term r'))" if "k \<le> ha h t n" for t k
    using assms that kept_mono[of h t k "rp_log r" "Suc (rp_term r)" "Suc (rp_term r')"] by (simp add: log_held_def)
  moreover have "\<forall>e \<in> set (rp_log r'). entry_term e \<le> rp_term r'" "\<forall>t. 0 < ha h t n \<longrightarrow> t \<le> rp_term r'"
    using assms by (auto simp: log_held_def intro: order_trans)
  ultimately show ?thesis
    using assms by (simp add: log_held_def)
qed

subsection \<open>Ballots\<close>

definition add_ballot :: "history \<Rightarrow> nat \<Rightarrow> node_id \<Rightarrow> node_id \<Rightarrow> log_entry list \<Rightarrow> history" where
  "add_ballot h t n c l = h\<lparr>hv := (\<lambda>t' m. if t' = t \<and> m = n then Some (c, l) else hv h t' m)\<rparr>"

lemma add_ballot_simps [simp]:
  "hl (add_ballot h t n c l) = hl h" "hq (add_ballot h t n c l) = hq h" "hg (add_ballot h t n c l) = hg h"
  "ha (add_ballot h t n c l) = ha h"
  "hv (add_ballot h t n c l) t' m = (if t' = t \<and> m = n then Some (c, l) else hv h t' m)"
  "traced (add_ballot h t n c l) l' = traced h l'"
  "holds_prefix (add_ballot h t n c l) t' k l' = holds_prefix h t' k l'"
  "kept (add_ballot h t n c l) t' k l' b = kept h t' k l' b"
  "committed commitq (add_ballot h t n c l) b l' = committed commitq h b l'" "hc (add_ballot h t n c l) = hc h"
  by (simp_all add: add_ballot_def traced_def holds_prefix_def kept_def committed_def chosen_def)

lemma add_ballot_log_held [simp]: "log_held commitq (add_ballot h t n c l) m r = log_held commitq h m r"
  by (simp add: log_held_def)

lemma add_ballot_grows: "hv h t n = None \<Longrightarrow> grows n h (add_ballot h t n c l)"
  by (auto simp: grows_def)

lemma position_le_refl [simp]: "position_le p p"
  by (simp add: position_le_def)

lemma add_ballot_leaders:
  assumes ok: "leaders_ok elect h" and fresh: "hv h t n = None"
  shows "leaders_ok elect (add_ballot h t n c l)"
proof -
  have "\<forall>t' c'. hl h t' = Some c' \<longrightarrow> \<not> (t' = t \<and> c' = n)"
    using ok fresh unfolding leaders_ok_def by (metis option.distinct(1))
  moreover have "\<forall>t' c' v. hl h t' = Some c' \<longrightarrow> v |\<in>| hq h t' \<longrightarrow> \<not> (t' = t \<and> v = n)"
    using ok fresh unfolding leaders_ok_def by (metis option.distinct(1))
  ultimately show ?thesis
    using ok unfolding leaders_ok_def by simp blast
qed

lemma add_ballot_ballots:
  assumes ok: "ballots_ok h" and fresh: "hv h t n = None" and l: "traced h l"
    and own: "c = n \<longrightarrow> (\<forall>e \<in> set l. entry_term e < t)"
    and other: "c \<noteq> n \<longrightarrow> (\<exists>lc. hv h t c = Some (c, lc) \<and> position_le (last_pos l) (last_pos lc))"
  shows "ballots_ok (add_ballot h t n c l)"
proof -
  have "traced h l' \<and> (\<exists>lc. hv (add_ballot h t n c l) t' c' = Some (c', lc) \<and> position_le (last_pos l') (last_pos lc))"
    if "hv (add_ballot h t n c l) t' m = Some (c', l')" for t' m c' l'
  proof (cases "t' = t \<and> m = n")
    case True
    then show ?thesis using that l other by (cases "c = n") auto
  next
    case False
    then have old: "hv h t' m = Some (c', l')" using that by auto
    then obtain lc where "hv h t' c' = Some (c', lc)" "position_le (last_pos l') (last_pos lc)" "traced h l'"
      using ok unfolding ballots_ok_def by blast
    then show ?thesis using fresh by auto
  qed
  moreover have "\<forall>e \<in> set lc. entry_term e < t'"
    if "hv (add_ballot h t n c l) t' c' = Some (c', lc)" for t' c' lc
    using that own ok unfolding ballots_ok_def by (auto split: if_splits)
  ultimately show ?thesis unfolding ballots_ok_def by simp
qed

lemma add_ballot_promises:
  assumes ok: "leaders_ok elect h" "promises_ok h" and fresh: "hv h t n = None"
    and kept: "\<And>t0 k. k \<le> ha h t0 n \<Longrightarrow> t0 < t \<Longrightarrow> hl h t = None \<Longrightarrow> kept h t0 k l t"
  shows "promises_ok (add_ballot h t n c l)"
proof -
  have uncounted: "hl h t = None \<or> n |\<notin>| hq h t"
    using ok(1) fresh unfolding leaders_ok_def by (metis not_None_eq option.distinct(1))
  have "kept h t0 k l' t'"
    if "k \<le> ha h t0 m" "t0 < t'" "hv (add_ballot h t n c l) t' m = Some (c', l')" "hl h t' = None \<or> m |\<in>| hq h t'"
    for t0 m k t' c' l'
  proof (cases "t' = t \<and> m = n")
    case True
    then show ?thesis using that uncounted kept by auto
  next
    case False
    then have "hv h t' m = Some (c', l')" using that(3) by auto
    then show ?thesis using that(1,2,4) ok(2) unfolding promises_ok_def by blast
  qed
  then show ?thesis using ok(2) unfolding promises_ok_def by simp
qed

text \<open>A ballot cast with the log that the replica holds.\<close>

lemma cast_ballot:
  assumes ok: "history_ok elect h" and held: "log_held commitq h n r" and fresh: "hv h t n = None"
    and t: "rp_term r \<le> t"
    and own: "c = n \<longrightarrow> rp_term r < t"
    and other: "c \<noteq> n \<longrightarrow> (\<exists>lc. hv h t c = Some (c, lc) \<and> position_le (last_pos (rp_log r)) (last_pos lc))"
  shows "history_ok elect (add_ballot h t n c (rp_log r))"
proof -
  have k: "kept h t0 k (rp_log r) t" if "k \<le> ha h t0 n" "t0 < t" "hl h t = None" for t0 k
  proof -
    have "kept h t0 k (rp_log r) (Suc (rp_term r))"
      using held that(1) by (auto simp: log_held_def)
    then show ?thesis
      using t that(3) unfolding kept_def by (metis le_neq_implies_less less_Suc_eq order_less_le_trans)
  qed
  have own': "c = n \<longrightarrow> (\<forall>e \<in> set (rp_log r). entry_term e < t)"
    using held own by (auto simp: log_held_def)
  have "traced h (rp_log r)" using held by (simp add: log_held_def)
  then show ?thesis
    using ok add_ballot_leaders[OF _ fresh] add_ballot_ballots[OF _ fresh _ own' other]
      add_ballot_promises[OF _ _ fresh k] unfolding history_ok_def by blast
qed

subsection \<open>Campaign\<close>

lemma campaign_ok:
  assumes ok: "system_ok elect commitq h (R, N)"
    and r': "r' = (R n)\<lparr>rp_term := Suc (rp_term (R n)), rp_vote := Some n, rp_role := RCandidate {|n|}\<rparr>"
    and sends: "sends \<subseteq> {(n, to, MVoteRequest (Suc (rp_term (R n))) (last_pos (rp_log (R n)))) | to. True}"
  shows "\<exists>h'. grows n h h' \<and> system_ok elect commitq h' (R(n := r'), N \<union> sends)"
proof -
  let ?t = "Suc (rp_term (R n))" and ?l = "rp_log (R n)"
  let ?h = "add_ballot h ?t n n ?l"
  have rep: "vote_ok h n (R n)" "log_held commitq h n (R n)" and hist: "history_ok elect h"
    using ok by (auto simp: system_ok_def replica_ok_def)
  have fresh: "hv h ?t n = None"
    using rep(1) unfolding vote_ok_def by (metis not_None_eq not_less_eq_eq order_refl surj_pair)
  note g = add_ballot_grows[OF fresh, of n ?l]
  have h: "history_ok elect ?h"
    by (rule cast_ballot[OF hist rep(2) fresh]) simp_all
  have "hl h ?t \<noteq> Some n"
    using hist fresh by (force simp: history_ok_def leaders_ok_def)
  moreover have "vote_ok ?h n r'"
    using rep(1) unfolding vote_ok_def r' by (auto simp: le_Suc_eq)
  moreover have "log_held commitq ?h n r'"
    using log_held_same[OF rep(2), of r'] by (simp add: r')
  ultimately have "replica_ok commitq ?h n r'"
    by (simp add: replica_ok_def role_ok_def r')
  moreover have "\<forall>m \<in> sends. message_ok commitq ?h m"
    using sends by auto
  ultimately show ?thesis
    using system_okI[OF ok g h] g by blast
qed

subsection \<open>Steps that keep the history\<close>

lemma same_history:
  assumes ok: "system_ok elect commitq h (R, N)" and r: "replica_ok commitq h n r'"
    and m: "\<forall>m \<in> sends. message_ok commitq h m"
  shows "\<exists>h'. grows n h h' \<and> system_ok elect commitq h' (R(n := r'), N \<union> sends)"
  using system_okI[OF ok grows_refl _ r m] ok grows_refl by (metis system_ok_def)

lemma system_parts:
  assumes "system_ok elect commitq h (R, N)"
  shows "history_ok elect h" "leaders_ok elect h" "ballots_ok h" "promises_ok h"
    "vote_ok h n (R n)" "role_ok h n (R n)" "log_held commitq h n (R n)"
    "m \<in> N \<Longrightarrow> message_ok commitq h m"
  using assms by (auto simp: system_ok_def replica_ok_def history_ok_def)

lemma tally_ok:
  assumes ok: "system_ok elect commitq h (R, N)"
    and m: "(v, n, MVote (rp_term (R n))) \<in> N" "rp_role (R n) = RCandidate V"
  shows "\<exists>h'. grows n h h' \<and> system_ok elect commitq h' (R(n := (R n)\<lparr>rp_role := RCandidate (finsert v V)\<rparr>), N \<union> {})"
proof (rule same_history[OF ok])
  note p = system_parts[OF ok]
  have "\<exists>l. hv h (rp_term (R n)) v = Some (n, l)" using p(8)[OF m(1)] by simp
  then show "replica_ok commitq h n ((R n)\<lparr>rp_role := RCandidate (finsert v V)\<rparr>)"
    using p(5,6)[of n] m(2) log_held_same[OF p(7)[of n]]
    by (auto simp: replica_ok_def role_ok_def vote_ok_def)
qed simp

lemma acknowledge_ok:
  assumes ok: "system_ok elect commitq h (R, N)"
    and m: "(v, n, MAck (rp_term (R n)) k) \<in> N" "rp_role (R n) = RLeader M"
  shows "\<exists>h'. grows n h h' \<and>
    system_ok elect commitq h' (R(n := (R n)\<lparr>rp_role := RLeader (M(v := max (M v) k))\<rparr>), N \<union> {})"
proof (rule same_history[OF ok])
  note p = system_parts[OF ok]
  have "k \<le> ha h (rp_term (R n)) v" using p(8)[OF m(1)] by simp
  then show "replica_ok commitq h n ((R n)\<lparr>rp_role := RLeader (M(v := max (M v) k))\<rparr>)"
    using p(5,6)[of n] m(2) log_held_same[OF p(7)[of n]]
    by (auto simp: replica_ok_def role_ok_def vote_ok_def)
qed simp

lemma forget_ok:
  assumes ok: "system_ok elect commitq h (R, N)" and M: "rp_role (R n) = RLeader M" "\<forall>m. M' m \<le> M m"
  shows "\<exists>h'. grows n h h' \<and> system_ok elect commitq h' (R(n := (R n)\<lparr>rp_role := RLeader M'\<rparr>), N \<union> {})"
proof (rule same_history[OF ok])
  note p = system_parts[OF ok]
  have "\<forall>m. M' m \<le> ha h (rp_term (R n)) m"
    using p(6)[of n] M by (auto simp: role_ok_def intro: order_trans)
  then show "replica_ok commitq h n ((R n)\<lparr>rp_role := RLeader M'\<rparr>)"
    using p(5,6)[of n] M(1) log_held_same[OF p(7)[of n]]
    by (simp add: replica_ok_def role_ok_def vote_ok_def)
qed simp

lemma step_down_ok:
  assumes ok: "system_ok elect commitq h (R, N)" and t: "rp_term (R n) \<le> t"
    and r': "r' = (R n)\<lparr>rp_term := t, rp_vote := (if rp_term (R n) < t then None else rp_vote (R n)), rp_role := RFollower\<rparr>"
  shows "\<exists>h'. grows n h h' \<and> system_ok elect commitq h' (R(n := r'), N \<union> {})"
proof (rule same_history[OF ok])
  note p = system_parts[OF ok]
  have "vote_ok h n r'"
    using p(5)[of n] t by (cases "rp_term (R n) < t") (fastforce simp: vote_ok_def r')+
  then show "replica_ok commitq h n r'"
    using log_held_same[OF p(7)[of n], of r'] t by (simp add: replica_ok_def role_ok_def r')
qed simp

lemma restart_ok:
  assumes ok: "system_ok elect commitq h (R, N)" and c: "c \<le> rp_commit (R n)"
  shows "\<exists>h'. grows n h h' \<and> system_ok elect commitq h' (R(n := (R n)\<lparr>rp_commit := c, rp_role := RFollower\<rparr>), N \<union> {})"
proof (rule same_history[OF ok])
  note p = system_parts[OF ok]
  show "replica_ok commitq h n ((R n)\<lparr>rp_commit := c, rp_role := RFollower\<rparr>)"
    using p(5)[of n] log_held_same[OF p(7)[of n], of "(R n)\<lparr>rp_commit := c, rp_role := RFollower\<rparr>"] c
    by (simp add: replica_ok_def role_ok_def vote_ok_def)
qed simp

text \<open>The leader of term \<open>t\<close> has committed its log up to \<open>i\<close>.\<close>

definition add_commit :: "history \<Rightarrow> nat \<Rightarrow> nat \<Rightarrow> history" where
  "add_commit h t i = h\<lparr>hc := (hc h)(t := max (hc h t) i)\<rparr>"

lemma add_commit_simps [simp]:
  "hl (add_commit h t i) = hl h" "hq (add_commit h t i) = hq h" "hg (add_commit h t i) = hg h"
  "hv (add_commit h t i) = hv h" "ha (add_commit h t i) = ha h"
  "hc (add_commit h t i) t' = (if t' = t then max (hc h t) i else hc h t')"
  "traced (add_commit h t i) l = traced h l" "kept (add_commit h t i) t' j l b = kept h t' j l b"
  "ballots_ok (add_commit h t i) = ballots_ok h" "promises_ok (add_commit h t i) = promises_ok h"
  by (simp_all add: add_commit_def traced_def kept_def holds_prefix_def ballots_ok_def promises_ok_def)

lemma add_commit_grows: "hl h t = Some n \<Longrightarrow> grows n h (add_commit h t i)"
  by (simp add: grows_def)

lemma add_commit_leaders: "hl h t = Some n \<Longrightarrow> leaders_ok elect h \<Longrightarrow> leaders_ok elect (add_commit h t i)"
  by (simp add: leaders_ok_def)

lemma advance_ok:
  assumes ok: "system_ok elect commitq h (R, N)" and M: "rp_role (R n) = RLeader M"
    and i: "rp_commit (R n) < i" "i \<le> length (rp_log (R n))" "entry_term (rp_log (R n) ! (i - 1)) = rp_term (R n)"
    and A: "commitq A" "\<forall>m. m |\<in>| A \<longrightarrow> i \<le> M m"
  shows "\<exists>h'. grows n h h' \<and> system_ok elect commitq h' (R(n := (R n)\<lparr>rp_commit := i\<rparr>), N \<union> {})"
proof -
  note p = system_parts[OF ok]
  let ?t = "rp_term (R n)" and ?r = "(R n)\<lparr>rp_commit := i\<rparr>"
  let ?h = "add_commit h ?t i"
  have l: "hl h ?t = Some n" "hg h ?t = rp_log (R n)" "\<forall>m. M m \<le> ha h ?t m" "hc h ?t \<le> rp_commit (R n)"
    using p(6)[of n] M by (simp_all add: role_ok_def)
  have "chosen commitq ?h ?t i"
    using i A l(2,3) unfolding chosen_def by (auto intro: order_trans)
  then have "committed commitq ?h ?t (take i (rp_log (R n)))"
    using l(2) i(2) unfolding committed_def by (metis add_commit_simps(3) length_take min.absorb2 order_refl)
  then have "replica_ok commitq ?h n ?r"
    using p(5-7)[of n] i M l by (simp add: replica_ok_def role_ok_def vote_ok_def log_held_def)
  moreover have "history_ok elect ?h"
    using p(1) add_commit_leaders[OF l(1) p(2)] by (simp add: history_ok_def)
  ultimately show ?thesis
    using system_okI[OF ok add_commit_grows[OF l(1)], of i ?r "{}"] add_commit_grows[OF l(1)] by auto
qed

lemma send_ok:
  assumes ok: "system_ok elect commitq h (R, N)" and M: "rp_role (R n) = RLeader M"
    and b: "p \<le> length (rp_log (R n))" "ci \<le> rp_commit (R n)"
  shows "\<exists>h'. grows n h h' \<and> system_ok elect commitq h' (R(n := R n), N \<union>
    {(n, to, MAppend (rp_term (R n)) (last_pos (take p (rp_log (R n)))) (take j (drop p (rp_log (R n)))) ci)})"
proof (rule same_history[OF ok])
  note q = system_parts[OF ok]
  have l: "hl h (rp_term (R n)) = Some n" "hg h (rp_term (R n)) = rp_log (R n)"
    using q(6)[of n] M by (simp_all add: role_ok_def)
  have "pos_index (last_pos (take p (rp_log (R n)))) = p"
    using last_pos_index[OF q(2) traced_take, of "rp_log (R n)" p] q(7)[of n] b(1) by (simp add: log_held_def)
  moreover have "ci \<le> length (rp_log (R n))" "committed commitq h (rp_term (R n)) (take ci (rp_log (R n)))"
    using q(7)[of n] b(2) committed_take by (auto simp: log_held_def)
  ultimately show "\<forall>m \<in> {(n, to, MAppend (rp_term (R n)) (last_pos (take p (rp_log (R n))))
      (take j (drop p (rp_log (R n)))) ci)}. message_ok commitq h m"
    using l b(1) by (auto simp: min_def)
  show "replica_ok commitq h n (R n)"
    using ok by (simp add: system_ok_def)
qed

subsection \<open>Voting\<close>

lemma vote_action_ok:
  assumes ok: "system_ok elect commitq h (R, N)" and m: "(c, n, MVoteRequest t pos) \<in> N"
    and g: "rp_term (R n) < t \<or> t = rp_term (R n) \<and> (rp_vote (R n) = None \<or> rp_vote (R n) = Some c)"
    and le: "position_le (last_pos (rp_log (R n))) pos"
    and role: "role' = RFollower \<or> t = rp_term (R n) \<and> rp_vote (R n) = Some c \<and> role' = rp_role (R n)"
    and sends: "sends \<subseteq> {(n, c, MVote t)}"
    and r': "r' = (R n)\<lparr>rp_term := t, rp_vote := Some c, rp_role := role'\<rparr>"
  shows "\<exists>h'. grows n h h' \<and> system_ok elect commitq h' (R(n := r'), N \<union> sends)"
proof -
  note p = system_parts[OF ok]
  obtain lc where lc: "hv h t c = Some (c, lc)" "pos = last_pos lc"
    using p(8)[OF m] by auto
  have held: "log_held commitq h n r'"
    by (rule log_held_same[OF p(7)[of n]]) (use g r' in auto)
  show ?thesis
  proof (cases "hv h t n = None")
    case True
    have cn: "c \<noteq> n" using True lc(1) by auto
    have new: "\<not> (t = rp_term (R n) \<and> rp_vote (R n) = Some c)"
      using p(5)[of n] True by (auto simp: vote_ok_def)
    let ?h = "add_ballot h t n c (rp_log (R n))"
    have h: "history_ok elect ?h"
      by (rule cast_ballot[OF p(1) p(7)[of n] True]) (use g lc le cn in auto)
    have "vote_ok ?h n r'"
      using p(5)[of n] g True unfolding vote_ok_def r' by auto (meson leD le_trans order.strict_implies_order)+
    moreover have "role_ok ?h n r'"
      using role new by (auto simp: role_ok_def r')
    ultimately have "replica_ok commitq ?h n r'"
      using held by (simp add: replica_ok_def)
    moreover have "\<forall>m \<in> sends. message_ok commitq ?h m"
      using sends by auto
    ultimately show ?thesis
      using system_okI[OF ok add_ballot_grows[OF True] h] add_ballot_grows[OF True] by blast
  next
    case False
    then have same: "t = rp_term (R n)" "rp_vote (R n) = Some c"
      using p(5)[of n] g unfolding vote_ok_def by (metis leD not_None_eq surj_pair option.distinct(1))+
    obtain l where l: "hv h t n = Some (c, l)"
      using p(5)[of n] same unfolding vote_ok_def by blast
    have "role_ok h n r'"
      using role p(6)[of n] same by (auto simp: role_ok_def r' split: replica_role.splits)
    moreover have "vote_ok h n r'"
      using p(5)[of n] same by (simp add: vote_ok_def r')
    ultimately have "replica_ok commitq h n r'"
      using held by (simp add: replica_ok_def)
    then show ?thesis
      by (rule same_history[OF ok]) (use sends l in auto)
  qed
qed

subsection \<open>Taking office and proposing\<close>

text \<open>The log of the leader of term \<open>t\<close>, all of which it has acknowledged itself.\<close>

definition lead :: "history \<Rightarrow> nat \<Rightarrow> node_id \<Rightarrow> node_id fset \<Rightarrow> log_entry list \<Rightarrow> history" where
  "lead h t n V l = h\<lparr>hl := (hl h)(t := Some n), hq := (hq h)(t := V), hg := (hg h)(t := l),
     ha := (ha h)(t := (ha h t)(n := length l))\<rparr>"

lemma lead_simps [simp]:
  "hv (lead h t n V l) = hv h"
  "hl (lead h t n V l) t' = (if t' = t then Some n else hl h t')"
  "hq (lead h t n V l) t' = (if t' = t then V else hq h t')"
  "hg (lead h t n V l) t' = (if t' = t then l else hg h t')"
  "ha (lead h t n V l) t' m = (if t' = t \<and> m = n then length l else ha h t' m)"
  "hc (lead h t n V l) = hc h"
  by (simp_all add: lead_def)

lemma vote_later: "vote_ok h n r \<Longrightarrow> hv h t n = Some x \<Longrightarrow> t \<le> rp_term r"
  unfolding vote_ok_def by (metis surj_pair)

lemma lead_promises:
  assumes ok: "history_ok elect h" and g: "grows n h (lead h t n V l)" and v: "vote_ok h n r" "rp_term r = t"
    and q: "hl h t \<noteq> None \<longrightarrow> V = hq h t" and len: "\<forall>m. ha h t m \<le> length l"
  shows "promises_ok (lead h t n V l)"
  unfolding promises_ok_def
proof (intro conjI allI impI)
  have p: "promises_ok h" using ok by (simp add: history_ok_def)
  show "ha (lead h t n V l) t' m \<le> length (hg (lead h t n V l) t')" for t' m
    using p len by (simp add: promises_ok_def)
  fix t0 m k t' c b
  assume a: "k \<le> ha (lead h t n V l) t0 m" "t0 < t'" "hv (lead h t n V l) t' m = Some (c, b)"
    "hl (lead h t n V l) t' = None \<or> m |\<in>| hq (lead h t n V l) t'"
  have "\<not> (t0 = t \<and> m = n)"
    using vote_later[OF v(1), of t' "(c, b)"] a(2,3) v(2) by auto
  then have k: "k \<le> ha h t0 m" using a(1) by auto
  have "hl h t' = None \<or> m |\<in>| hq h t'"
    using a(4) q by (auto split: if_splits)
  then have "kept h t0 k b t'"
    using p k a(2,3) unfolding promises_ok_def lead_simps by blast
  then show "kept (lead h t n V l) t0 k b t'"
    by (rule grows_kept[OF ok g acked_length[OF ok k]])
qed

lemma lead_leaders:
  assumes ok: "leaders_ok elect h" and g: "grows n h (lead h t n V l)" and V: "elect V"
    and votes: "\<forall>v. v |\<in>| V \<longrightarrow> (\<exists>b. hv h t v = Some (n, b))"
    and own: "\<exists>lc. hv h t n = Some (n, lc) \<and> length lc \<le> length l \<and> take (length lc) l = lc \<and>
      (\<forall>i. length lc \<le> i \<longrightarrow> i < length l \<longrightarrow> entry_term (l ! i) = t)"
    and l: "traced (lead h t n V l) l" "\<forall>i < length l. entry_index (l ! i) = Suc i"
  shows "leaders_ok elect (lead h t n V l)"
proof -
  have "traced (lead h t n V l) (hg h t')" for t'
    using grows_traced[OF ok g] ok by (simp add: leaders_ok_def)
  then have "traced (lead h t n V l) (hg (lead h t n V l) t') \<and>
      (\<forall>i < length (hg (lead h t n V l) t'). entry_index (hg (lead h t n V l) t' ! i) = Suc i)" for t'
    using l ok by (cases "t' = t") (simp_all add: leaders_ok_def)
  moreover have "elect (hq (lead h t n V l) t') \<and>
      (\<forall>v. v |\<in>| hq (lead h t n V l) t' \<longrightarrow> (\<exists>b. hv h t' v = Some (c, b))) \<and>
      (\<exists>lc. hv h t' c = Some (c, lc) \<and> length lc \<le> length (hg (lead h t n V l) t') \<and>
         take (length lc) (hg (lead h t n V l) t') = lc \<and>
         (\<forall>i. length lc \<le> i \<longrightarrow> i < length (hg (lead h t n V l) t') \<longrightarrow> entry_term (hg (lead h t n V l) t' ! i) = t'))"
    if "hl (lead h t n V l) t' = Some c" for t' c
  proof (cases "t' = t")
    case True
    then have "c = n" using that by simp
    then show ?thesis using True V votes own by simp
  next
    case False
    then show ?thesis using that ok unfolding leaders_ok_def by simp
  qed
  moreover have "hl (lead h t n V l) t' = None \<longrightarrow> hg (lead h t n V l) t' = [] \<and> hc (lead h t n V l) t' = 0" for t'
    using ok by (simp add: leaders_ok_def)
  ultimately show ?thesis
    unfolding leaders_ok_def lead_simps(1) by blast
qed

lemma lead_ballots:
  assumes "leaders_ok elect h" "grows n h (lead h t n V l)" "ballots_ok h"
  shows "ballots_ok (lead h t n V l)"
  unfolding ballots_ok_def lead_simps
  using assms(3) grows_traced[OF assms(1,2)] unfolding ballots_ok_def by blast

lemma lead_kept:
  assumes ok: "history_ok elect h" and g: "grows n h (lead h t n V l)" and held: "log_held commitq h n r"
    and l: "l = rp_log r @ ext" and k: "k \<le> ha (lead h t n V l) t0 n"
  shows "kept (lead h t n V l) t0 k l (Suc (rp_term r))"
proof (cases "t0 = t")
  case True
  then show ?thesis by (simp add: kept_def holds_prefix_def)
next
  case False
  then have k': "k \<le> ha h t0 n" using k by simp
  then have "kept h t0 k (rp_log r) (Suc (rp_term r))"
    using held by (simp add: log_held_def)
  moreover have "holds_prefix h t0 k l" if "holds_prefix h t0 k (rp_log r)"
    using that acked_length[OF ok k'] l unfolding holds_prefix_def
    by (metis append_Nil2 diff_is_0_eq length_take min.absorb2 min.cobounded1 take0 take_append)
  ultimately have "kept h t0 k l (Suc (rp_term r))"
    unfolding kept_def by blast
  then show ?thesis
    by (rule grows_kept[OF ok g acked_length[OF ok k']])
qed

lemma lead_ok:
  assumes ok: "system_ok elect commitq h (R, N)" and l: "l = rp_log (R n) @ ext"
    and t: "t = rp_term (R n)" "\<forall>e \<in> set ext. entry_term e = t"
    and len: "\<forall>m. ha h t m \<le> length (rp_log (R n))"
    and q: "hl h t = Some n \<and> V = hq h t \<and> hg h t = rp_log (R n) \<or> hl h t = None"
    and leaders: "leaders_ok elect (lead h t n V l)"
    and M: "\<forall>m. M m \<le> ha (lead h t n V l) t m" and c: "hc h t \<le> rp_commit (R n)"
  shows "\<exists>h'. grows n h h' \<and> system_ok elect commitq h' (R(n := (R n)\<lparr>rp_log := l, rp_role := RLeader M\<rparr>), N \<union> {})"
proof -
  let ?h = "lead h t n V l" and ?r = "(R n)\<lparr>rp_log := l, rp_role := RLeader M\<rparr>"
  note p = system_parts[OF ok]
  have g: "grows n h ?h"
    using q l t(2) trans_le_add1[OF len[rule_format]] by (auto simp: grows_def)
  have lk: "traced ?h l"
    using leaders by (auto simp: leaders_ok_def dest: spec[of _ t])
  have "\<forall>m. ha h t m \<le> length l"
    using len l by (simp add: trans_le_add1)
  moreover have "hl h t \<noteq> None \<longrightarrow> V = hq h t" using q by auto
  ultimately have hist: "history_ok elect ?h"
    unfolding history_ok_def
    using leaders lead_ballots[OF p(2) g p(3)] lead_promises[OF p(1) g p(5)[of n] t(1)[symmetric]] by blast
  have "committed commitq ?h (rp_term (R n)) (take (rp_commit (R n)) l)"
    using grows_committed[OF p(2) g] p(7)[of n] l by (simp add: log_held_def)
  moreover have "\<forall>t0. 0 < ha ?h t0 n \<longrightarrow> t0 \<le> rp_term (R n)"
    using p(7)[of n] t(1) by (simp add: log_held_def)
  ultimately have "log_held commitq ?h n ?r"
    using p(7)[of n] lk lead_kept[OF p(1) g p(7)[of n] l] l t unfolding log_held_def by auto
  moreover have "vote_ok ?h n ?r" using p(5)[of n] by (simp add: vote_ok_def)
  moreover have "role_ok ?h n ?r" using M t(1) c by (simp add: role_ok_def)
  ultimately show ?thesis
    using system_okI[OF ok g hist, of ?r "{}"] g by (auto simp: replica_ok_def)
qed

lemma take_office_ok:
  assumes ok: "system_ok elect commitq h (R, N)" and V: "rp_role (R n) = RCandidate V" "elect V"
    and meet: "\<And>A B. elect A \<Longrightarrow> elect B \<Longrightarrow> \<exists>v. v |\<in>| A \<and> v |\<in>| B"
  shows "\<exists>h'. grows n h h' \<and> system_ok elect commitq h'
    (R(n := (R n)\<lparr>rp_role := RLeader (\<lambda>m. if m = n then length (rp_log (R n)) else 0)\<rparr>), N \<union> {})"
proof -
  note p = system_parts[OF ok]
  let ?t = "rp_term (R n)" and ?l = "rp_log (R n)"
  let ?h = "lead h ?t n V ?l"
  have c: "hv h ?t n = Some (n, ?l)" "hl h ?t \<noteq> Some n" "\<forall>v. v |\<in>| V \<longrightarrow> (\<exists>l. hv h ?t v = Some (n, l))"
    using p(6)[of n] V(1) by (auto simp: role_ok_def)
  have none: "hl h ?t = None"
  proof (rule ccontr)
    assume "hl h ?t \<noteq> None"
    then obtain c' where c': "hl h ?t = Some c'" by blast
    then have "elect (hq h ?t)" "\<forall>v. v |\<in>| hq h ?t \<longrightarrow> (\<exists>l. hv h ?t v = Some (c', l))"
      using p(2) by (auto simp: leaders_ok_def)
    then have "c' = n"
      using meet[OF _ V(2)] c(3) by (metis Pair_inject option.inject)
    with c' c(2) show False by simp
  qed
  have zero: "ha h ?t m = 0" for m
    using acked_length[OF p(1) order_refl, of ?t m] leaders_log_empty[OF p(2) none] by simp
  have start: "hc h ?t = 0" using p(2) none by (simp add: leaders_ok_def)
  have g: "grows n h ?h"
    using none zero p(2) by (auto simp: grows_def)
  have "traced ?h ?l" "\<forall>i < length ?l. entry_index (?l ! i) = Suc i"
    using grows_traced[OF p(2) g] traced_index[OF p(2)] p(7)[of n] by (auto simp: log_held_def)
  then have "leaders_ok elect ?h"
    using lead_leaders[OF p(2) g V(2) c(3)] c(1) by auto
  moreover have "(R n)\<lparr>rp_log := ?l, rp_role := x\<rparr> = (R n)\<lparr>rp_role := x\<rparr>" for x
    by (cases "R n") simp
  ultimately show ?thesis
    using lead_ok[OF ok, of ?l n "[]" ?t V "\<lambda>m. if m = n then length ?l else 0"] none zero start by simp
qed

lemma propose_entry_ok:
  assumes ok: "system_ok elect commitq h (R, N)" and M: "rp_role (R n) = RLeader M"
    and e: "entry_term e = rp_term (R n)" "entry_index e = Suc (length (rp_log (R n)))"
  shows "\<exists>h'. grows n h h' \<and> system_ok elect commitq h'
    (R(n := (R n)\<lparr>rp_log := rp_log (R n) @ [e], rp_role := RLeader (M(n := Suc (length (rp_log (R n)))))\<rparr>), N \<union> {})"
proof -
  note p = system_parts[OF ok]
  let ?t = "rp_term (R n)" and ?l = "rp_log (R n) @ [e]"
  let ?h = "lead h ?t n (hq h ?t) ?l"
  have o: "hl h ?t = Some n" "hg h ?t = rp_log (R n)" "\<forall>m. M m \<le> ha h ?t m" "hc h ?t \<le> rp_commit (R n)"
    using p(6)[of n] M by (auto simp: role_ok_def)
  have len: "ha h ?t m \<le> length (rp_log (R n))" for m
    using acked_length[OF p(1) order_refl, of ?t m] o(2) by simp
  have g: "grows n h ?h"
    unfolding grows_def using o le_SucI[OF len] e(1) by simp
  have old: "traced ?h (hg h t')" "\<forall>i < length (hg h t'). entry_index (hg h t' ! i) = Suc i" for t'
    using grows_traced[OF p(2) g] p(2) by (auto simp: leaders_ok_def)
  have "traced ?h ?l"
    unfolding traced_def
  proof (intro allI impI)
    fix i assume "i < length ?l"
    then consider "i < length (rp_log (R n))" | "i = length (rp_log (R n))" by force
    then show "hl ?h (entry_term (?l ! i)) \<noteq> None \<and> i < length (hg ?h (entry_term (?l ! i))) \<and>
        take (Suc i) ?l = take (Suc i) (hg ?h (entry_term (?l ! i)))"
    proof cases
      case 1
      then show ?thesis
        using tracedD[OF old(1)[of ?t], of i] o(2) by (simp add: nth_append)
    qed (use e(1) in simp)
  qed
  moreover have "\<forall>i < length ?l. entry_index (?l ! i) = Suc i"
    using old(2)[of ?t] o e(2) by (auto simp: nth_append less_Suc_eq)
  moreover obtain lc where "hv h ?t n = Some (n, lc)" "length lc \<le> length (rp_log (R n))"
      "take (length lc) (rp_log (R n)) = lc"
      "\<forall>i. length lc \<le> i \<longrightarrow> i < length (rp_log (R n)) \<longrightarrow> entry_term (rp_log (R n) ! i) = ?t"
    using p(2) o(1,2) unfolding leaders_ok_def by metis
  then have "\<exists>lc. hv h ?t n = Some (n, lc) \<and> length lc \<le> length ?l \<and> take (length lc) ?l = lc \<and>
      (\<forall>i. length lc \<le> i \<longrightarrow> i < length ?l \<longrightarrow> entry_term (?l ! i) = ?t)"
    using e(1) by (intro exI[of _ lc]) (auto simp: nth_append less_Suc_eq)
  moreover have "elect (hq h ?t)" "\<forall>v. v |\<in>| hq h ?t \<longrightarrow> (\<exists>b. hv h ?t v = Some (n, b))"
    using p(2) o(1) unfolding leaders_ok_def by blast+
  ultimately have "leaders_ok elect ?h"
    using lead_leaders[OF p(2) g] by blast
  moreover have "(M(n := Suc (length (rp_log (R n))))) m \<le> ha ?h ?t m" for m
    using o(3) by simp
  ultimately show ?thesis
    using lead_ok[OF ok refl refl, of "[e]" n "hq h ?t" "M(n := Suc (length (rp_log (R n))))"] o(1,2,4) len e(1) by simp
qed

subsection \<open>Accepting entries\<close>

definition add_ack :: "history \<Rightarrow> nat \<Rightarrow> node_id \<Rightarrow> nat \<Rightarrow> history" where
  "add_ack h t n k = h\<lparr>ha := (\<lambda>t' m. if t' = t \<and> m = n then max (ha h t n) k else ha h t' m)\<rparr>"

lemma add_ack_simps [simp]:
  "hl (add_ack h t n k) = hl h" "hq (add_ack h t n k) = hq h" "hg (add_ack h t n k) = hg h"
  "hv (add_ack h t n k) = hv h"
  "ha (add_ack h t n k) t' m = (if t' = t \<and> m = n then max (ha h t n) k else ha h t' m)"
  "traced (add_ack h t n k) l = traced h l"
  "kept (add_ack h t n k) t' j l b = kept h t' j l b"
  "leaders_ok elect (add_ack h t n k) = leaders_ok elect h"
  "ballots_ok (add_ack h t n k) = ballots_ok h"
  "vote_ok (add_ack h t n k) = vote_ok h" "hc (add_ack h t n k) = hc h"
  by (simp_all add: add_ack_def traced_def holds_prefix_def kept_def leaders_ok_def ballots_ok_def vote_ok_def fun_eq_iff)

lemma add_ack_grows: "grows n h (add_ack h t n k)"
  by (simp add: grows_def)

lemma add_ack_history:
  assumes ok: "history_ok elect h" and v: "vote_ok h n r" "rp_term r \<le> t" and k: "k \<le> length (hg h t)"
  shows "history_ok elect (add_ack h t n k)"
proof -
  have p: "promises_ok h" using ok by (simp add: history_ok_def)
  have "kept h t0 j b t'"
    if "j \<le> ha (add_ack h t n k) t0 m" "t0 < t'" "hv h t' m = Some (c, b)" "hl h t' = None \<or> m |\<in>| hq h t'"
    for t0 m j t' c b
  proof -
    have "\<not> (t0 = t \<and> m = n)"
      using vote_later[OF v(1), of t' "(c, b)"] that(2,3) v(2) by auto
    then have "j \<le> ha h t0 m" using that(1) by auto
    then show ?thesis using p that(2-4) unfolding promises_ok_def by blast
  qed
  moreover have "ha (add_ack h t n k) t' m \<le> length (hg h t')" for t' m
    using p k by (simp add: promises_ok_def)
  ultimately have "promises_ok (add_ack h t n k)"
    unfolding promises_ok_def add_ack_simps(1-4,7) by blast
  then show ?thesis using ok by (simp add: history_ok_def)
qed

text \<open>
  The batch continues the log of the leader at a position where the replica agrees with it, so the result
  agrees with the leader through the end of the batch, and what it drops differs from the leader.
\<close>

lemma splice_agrees:
  assumes l: "traced h l" and g: "traced h g" and agree: "take p l = take p g" "p \<le> length l"
    and es: "es = take (length es) (drop p g)" "p + length es \<le> length g" and s: "splice l p es l'"
  shows "take (p + length es) l' = take (p + length es) g"
    and "l' = l \<or> l' = take (p + length es) g \<and>
      (\<exists>d < p + length es. take d l = take d g \<and> d \<le> length l \<and> (d = length l \<or> l ! d \<noteq> g ! d))"
proof -
  have es_nth: "es ! i = g ! (p + i)" if "i < length es" for i
    using es that by (metis add_leD1 nth_drop nth_take)
  obtain j where j: "j \<le> length es" "p + j \<le> length l" "\<forall>i < j. entry_term (l ! (p + i)) = entry_term (es ! i)"
    and l': "j = length es \<and> l' = l \<or>
         j < length es \<and> l' = take (p + j) l @ drop j es \<and> (p + j = length l \<or> l ! (p + j) \<noteq> es ! j)"
    using s unfolding splice_def by blast
  have same: "take (p + j) l = take (p + j) g"
  proof (cases j)
    case 0
    then show ?thesis using agree(1) by simp
  next
    case (Suc i)
    then have "entry_term (l ! (p + i)) = entry_term (g ! (p + i))"
      using j(1,3) es_nth by simp
    then show ?thesis
      using traced_matching[OF l g, of "p + i"] Suc j(1,2) es(2) by simp
  qed
  have "take (p + j) g @ drop j es = take (p + length es) g"
  proof -
    have "drop j es = take (length es - j) (drop (p + j) g)"
      by (subst es(1)) (simp add: drop_take add.commute)
    then show ?thesis
      using j(1) by (metis (no_types, lifting) add.assoc le_add_diff_inverse take_add)
  qed
  then have full: "take (p + j) l @ drop j es = take (p + length es) g"
    by (simp add: same)
  show "take (p + length es) l' = take (p + length es) g"
    using l' same full by auto
  show "l' = l \<or> l' = take (p + length es) g \<and>
      (\<exists>d < p + length es. take d l = take d g \<and> d \<le> length l \<and> (d = length l \<or> l ! d \<noteq> g ! d))"
    using l' same full j(2) es_nth by (metis add_less_cancel_left)
qed

lemma accept_kept:
  assumes ok: "history_ok elect h" and leader: "hl h t \<noteq> None" and t0: "t0 \<le> t" and j: "j \<le> length (hg h t0)"
    and kept: "kept h t0 j l (Suc t)" and d: "take d l = take d (hg h t)" "d \<le> length l" "d \<le> m"
    and m: "m \<le> length (hg h t)" and diff: "d = length l \<or> l ! d \<noteq> hg h t ! d"
  shows "kept h t0 j (take m (hg h t)) (Suc t)"
proof (cases "holds_prefix h t0 j l")
  case False
  then show ?thesis using kept by (auto simp: kept_def)
next
  case True
  then have eq: "take j l = take j (hg h t0)" by (simp add: holds_prefix_def)
  then have jl: "j \<le> length l" using j by (metis length_take min.absorb2 min.bounded_iff order_refl)
  show ?thesis
  proof (cases "j \<le> d")
    case True
    then have "take j (take m (hg h t)) = take j (hg h t0)"
      using d(1,3) eq take_le_eq[OF d(1)] by simp
    then show ?thesis by (simp add: kept_def holds_prefix_def)
  next
    case False
    then have "l ! d \<noteq> hg h t ! d" using diff jl by auto
    then have "\<not> holds_prefix h t0 j (hg h t)"
      using eq False unfolding holds_prefix_def by (metis not_le_imp_less nth_take)
    moreover from this have "t0 \<noteq> t" by (auto simp: holds_prefix_def)
    ultimately show ?thesis using t0 leader unfolding kept_def by (metis le_neq_implies_less lessI)
  qed
qed

lemma accept_prefix:
  assumes ok: "history_ok elect h" and l: "traced h l" and p: "p \<le> length l" "p \<le> length (hg h t)"
    and prev: "p = 0 \<or> entry_term (l ! (p - 1)) = pos_term (last_pos (take p (hg h t)))"
  shows "take p l = take p (hg h t)"
proof (cases "p = 0")
  case False
  have o: "leaders_ok elect h" using ok by (simp add: history_ok_def)
  then have g: "traced h (hg h t)" by (simp add: leaders_ok_def)
  have "take p (hg h t) \<noteq> []" using False p(2) by auto
  then have "entry_term (l ! (p - 1)) = entry_term (hg h t ! (p - 1))"
    using prev False p(2) by (simp add: last_pos_term min_absorb2)
  then show ?thesis
    using traced_matching[OF l g, of "p - 1"] False p by simp
qed simp

lemma accept_keeps:
  assumes ok: "history_ok elect h" and held: "log_held commitq h n r" and t: "rp_term r \<le> t" and leader: "hl h t \<noteq> None"
    and k: "k \<le> length (hg h t)" and upto: "take k log' = take k (hg h t)"
    and new: "log' = rp_log r \<or> log' = take k (hg h t) \<and> (\<exists>d < k. take d (rp_log r) = take d (hg h t) \<and>
        d \<le> length (rp_log r) \<and> (d = length (rp_log r) \<or> rp_log r ! d \<noteq> hg h t ! d))"
    and j: "j \<le> ha (add_ack h t n k) t0 n"
  shows "kept h t0 j log' (Suc t)"
proof (cases "t0 = t \<and> j \<le> k")
  case True
  then show ?thesis using take_le_eq[OF upto] by (simp add: kept_def holds_prefix_def)
next
  case False
  then have j: "j \<le> ha h t0 n" using j by (auto split: if_splits)
  have old: "kept h t0 j (rp_log r) (Suc t)"
    using kept_mono[of h t0 j "rp_log r" "Suc (rp_term r)"] held j t by (simp add: log_held_def)
  show ?thesis
  proof (cases "j = 0 \<or> log' = rp_log r")
    case True
    then show ?thesis using old by (auto simp: kept_def holds_prefix_def)
  next
    case False
    then have "0 < ha h t0 n" using j by auto
    then have t0: "t0 \<le> t" using held t by (auto simp: log_held_def intro: order_trans)
    obtain d where "d < k" "take d (rp_log r) = take d (hg h t)" "d \<le> length (rp_log r)"
        "d = length (rp_log r) \<or> rp_log r ! d \<noteq> hg h t ! d" "log' = take k (hg h t)"
      using False new by blast
    then show ?thesis
      using accept_kept[OF ok leader t0 acked_length[OF ok j] old, of d k] k by auto
  qed
qed

lemma length_of_take: "take k l = take k g \<Longrightarrow> k \<le> length g \<Longrightarrow> k \<le> length l"
  by (metis length_take min.absorb2 min.bounded_iff order_refl)

lemma accept_commit:
  assumes held: "log_held commitq h n r" and c: "take (rp_commit r) log' = take (rp_commit r) (rp_log r)"
    and c': "commit' = rp_commit r \<or> commit' = max (rp_commit r) (min ci k)"
    and upto: "take k log' = take k g" "k \<le> length g" and ci: "committed commitq h t (take ci g)"
    and t: "rp_term r \<le> t"
  shows "committed commitq h t (take commit' log') \<and> commit' \<le> length log'"
proof -
  have "committed commitq h t (take (rp_commit r) log')" "rp_commit r \<le> length log'"
    using c held length_of_take[OF c] committed_mono[OF _ t] by (auto simp: log_held_def)
  moreover have "k \<le> length log'" by (rule length_of_take[OF upto])
  moreover have "take (min ci k) log' = take (min ci k) g" using take_le_eq[OF upto(1)] by simp
  moreover have "committed commitq h t (take (min ci k) g)" by (rule committed_take[OF ci]) simp
  ultimately show ?thesis
    using c' by (auto simp: max_def)
qed

lemma accept_ok:
  assumes ok: "system_ok elect commitq h (R, N)" and m: "(ld, n, MAppend t prev es ci) \<in> N"
    and t: "rp_term (R n) \<le> t" and p: "pos_index prev \<le> length (rp_log (R n))"
    and prev: "pos_index prev = 0 \<or> entry_term (rp_log (R n) ! (pos_index prev - 1)) = pos_term prev"
    and s: "splice (rp_log (R n)) (pos_index prev) es log'"
    and c: "take (rp_commit (R n)) log' = take (rp_commit (R n)) (rp_log (R n))"
    and k: "k = pos_index prev + length es"
    and c': "commit' = rp_commit (R n) \<or> commit' = max (rp_commit (R n)) (min ci k)"
    and sends: "sends \<subseteq> {(n, ld, MAck t k)}"
    and r': "r' = (R n)\<lparr>rp_term := t, rp_vote := (if rp_term (R n) < t then None else rp_vote (R n)), rp_log := log',
          rp_commit := commit', rp_role := RFollower\<rparr>"
  shows "\<exists>h'. grows n h h' \<and> system_ok elect commitq h' (R(n := r'), N \<union> sends)"
proof -
  note q = system_parts[OF ok]
  let ?g = "hg h t" and ?l = "rp_log (R n)" and ?p = "pos_index prev" and ?h = "add_ack h t n k"
  have g: "traced h ?g" using q(2) by (simp add: leaders_ok_def)
  have l: "traced h ?l" using q(7)[of n] by (simp add: log_held_def)
  have msg: "hl h t = Some ld" "k \<le> length ?g" "prev = last_pos (take ?p ?g)" "es = take (length es) (drop ?p ?g)"
    "ci \<le> length ?g" "committed commitq h t (take ci ?g)"
    using q(8)[OF m] k by auto
  have "take ?p ?l = take ?p ?g"
    using accept_prefix[OF q(1) l p, of t] prev msg(2,3) k by auto
  note sp = splice_agrees[OF l g this p msg(4) _ s, folded k, OF msg(2)]
  have new: "log' = ?l \<or> log' = take k ?g" and upto: "take k log' = take k ?g"
    using sp by auto
  have keeps: "kept h t0 j log' (Suc t)" if "j \<le> ha ?h t0 n" for t0 j
    using accept_keeps[OF q(1) q(7) t _ msg(2) upto sp(2) that] msg(1) by simp
  have "traced h log'" using new l traced_take[OF g] by auto
  moreover have "\<forall>e \<in> set log'. entry_term e \<le> t"
  proof -
    have "\<forall>e \<in> set ?g. entry_term e \<le> t"
      using leader_terms[OF q(2,3)] by (metis in_set_conv_nth)
    moreover have "\<forall>e \<in> set ?l. entry_term e \<le> t"
      using q(7)[of n] t by (auto simp: log_held_def)
    ultimately show ?thesis using new by (auto dest: in_set_takeD)
  qed
  moreover have "committed commitq h t (take commit' log') \<and> commit' \<le> length log'"
    by (rule accept_commit[OF q(7) c c' upto msg(2,6) t])
  moreover have "committed commitq h b x \<Longrightarrow> committed commitq ?h b x" for b x
    by (rule grows_committed[OF q(2) add_ack_grows])
  moreover have "\<forall>t0. 0 < ha ?h t0 n \<longrightarrow> t0 \<le> t"
    using q(7)[of n] t by (auto simp: log_held_def intro: order_trans)
  ultimately have "log_held commitq ?h n r'"
    using keeps by (simp add: log_held_def r')
  moreover have "vote_ok h n r'"
    using q(5)[of n] t by (cases "rp_term (R n) < t") (fastforce simp: vote_ok_def r')+
  ultimately have "replica_ok commitq ?h n r'"
    by (simp add: replica_ok_def role_ok_def r')
  moreover have "\<forall>x \<in> sends. message_ok commitq ?h x" using sends by auto
  ultimately show ?thesis
    using system_okI[OF ok add_ack_grows add_ack_history[OF q(1) q(5) t msg(2)]] add_ack_grows by blast
qed

section \<open>Safety of the protocol\<close>

lemma initial_ok: "system_ok elect commitq initial_history initial_system"
  by (simp add: system_ok_def initial_system_def initial_history_def initial_replica_def history_ok_def
      leaders_ok_def ballots_ok_def promises_ok_def replica_ok_def vote_ok_def role_ok_def log_held_def
      committed_def kept_def holds_prefix_def)

lemma action_ok:
  assumes ok: "system_ok elect commitq h (R, N)"
    and meet: "\<And>A B. elect A \<Longrightarrow> elect B \<Longrightarrow> \<exists>v. v |\<in>| A \<and> v |\<in>| B"
    and a: "action elect commitq n N (R n) r' sends"
  shows "\<exists>h'. grows n h h' \<and> system_ok elect commitq h' (R(n := r'), N \<union> sends)"
  using a
proof cases
  case campaign
  show ?thesis by (rule campaign_ok[OF ok campaign])
next
  case (vote c t pos role')
  show ?thesis by (rule vote_action_ok[OF ok vote(2-6,1)])
next
  case (tally v V)
  show ?thesis unfolding tally(1,2) by (rule tally_ok[OF ok tally(3,4)])
next
  case (take_office V)
  show ?thesis unfolding take_office(1,2) by (rule take_office_ok[OF ok take_office(3,4) meet])
next
  case (propose_entry M e)
  show ?thesis unfolding propose_entry(1,2) by (rule propose_entry_ok[OF ok propose_entry(3-5)])
next
  case (send M p ci to j)
  show ?thesis unfolding send(1,2) by (rule send_ok[OF ok send(3-5)])
next
  case (accept ld t prev es ci log' k commit')
  show ?thesis by (rule accept_ok[OF ok accept(2-10,1)])
next
  case (acknowledge m k M)
  show ?thesis unfolding acknowledge(1,2) by (rule acknowledge_ok[OF ok acknowledge(3,4)])
next
  case (advance M i A)
  show ?thesis unfolding advance(1,2) by (rule advance_ok[OF ok advance(3-8)])
next
  case (forget M M')
  show ?thesis unfolding forget(1,2) by (rule forget_ok[OF ok forget(3,4)])
next
  case (step_down t)
  show ?thesis unfolding step_down(2) by (rule step_down_ok[OF ok step_down(3,1)])
next
  case (restart c)
  show ?thesis unfolding restart(1,2) by (rule restart_ok[OF ok restart(3)])
qed

text \<open>What later histories keep of an earlier one.\<close>

definition extends :: "(node_id fset \<Rightarrow> bool) \<Rightarrow> history \<Rightarrow> history \<Rightarrow> bool" where
  "extends commitq h h' \<longleftrightarrow>
     (\<forall>b l. committed commitq h b l \<longrightarrow> committed commitq h' b l) \<and> (\<forall>t c. hl h t = Some c \<longrightarrow> hl h' t = Some c)"

lemma extends_refl: "extends commitq h h"
  by (simp add: extends_def)

lemma extends_trans: "extends commitq h h' \<Longrightarrow> extends commitq h' h'' \<Longrightarrow> extends commitq h h''"
  by (simp add: extends_def)

lemma grows_extends:
  assumes "history_ok elect h" "grows n h h'"
  shows "extends commitq h h'"
proof -
  have "leaders_ok elect h" using assms(1) by (simp add: history_ok_def)
  then have "committed commitq h b l \<Longrightarrow> committed commitq h' b l" for b l
    by (rule grows_committed[OF _ assms(2)])
  moreover have "\<forall>t c. hl h t = Some c \<longrightarrow> hl h' t = Some c" using assms(2) by (simp add: grows_def)
  ultimately show ?thesis by (simp add: extends_def)
qed

lemma prefix_take: "l = take (length l) g \<Longrightarrow> k \<le> length l \<Longrightarrow> take k l = take k g"
  by (metis min.absorb1 take_take)

lemma prefix_nth: "l = take (length l) g \<Longrightarrow> i < length l \<Longrightarrow> l ! i = g ! i"
  by (metis nth_take)

lemma traced_whole:
  assumes "traced h l" "l \<noteq> []"
  shows "l = take (length l) (hg h (entry_term (l ! (length l - 1))))" "hl h (entry_term (l ! (length l - 1))) \<noteq> None"
proof -
  have "Suc (length l - 1) = length l" "length l - 1 < length l" using assms(2) by auto
  then show "l = take (length l) (hg h (entry_term (l ! (length l - 1))))"
    "hl h (entry_term (l ! (length l - 1))) \<noteq> None"
    using tracedD[OF assms(1), of "length l - 1"] by auto
qed

lemma ballotD:
  assumes "ballots_ok h" "hv h t n = Some (c, l)" "hv h t c = Some (c, lc)"
  shows "traced h l" "traced h lc" "position_le (last_pos l) (last_pos lc)" "\<forall>e \<in> set lc. entry_term e < t"
proof -
  show "traced h l" using assms(1,2) unfolding ballots_ok_def by blast
  show "traced h lc" using assms(1,3) unfolding ballots_ok_def by blast
  show "position_le (last_pos l) (last_pos lc)"
    using assms unfolding ballots_ok_def by fastforce
  show "\<forall>e \<in> set lc. entry_term e < t" using assms(1,3) unfolding ballots_ok_def by blast
qed

lemma leaderD:
  assumes "leaders_ok elect h" "hl h t = Some c"
  shows "elect (hq h t)" "\<forall>v. v |\<in>| hq h t \<longrightarrow> (\<exists>l. hv h t v = Some (c, l))"
    "\<exists>lc. hv h t c = Some (c, lc) \<and> lc = take (length lc) (hg h t)"
proof -
  have *: "elect (hq h t) \<and> (\<forall>v. v |\<in>| hq h t \<longrightarrow> (\<exists>l. hv h t v = Some (c, l))) \<and>
      (\<exists>lc. hv h t c = Some (c, lc) \<and> length lc \<le> length (hg h t) \<and> take (length lc) (hg h t) = lc \<and>
         (\<forall>i. length lc \<le> i \<longrightarrow> i < length (hg h t) \<longrightarrow> entry_term (hg h t ! i) = t))"
    using assms(1)[unfolded leaders_ok_def, THEN conjunct1, rule_format, OF assms(2)] by blast
  then show "elect (hq h t)" "\<forall>v. v |\<in>| hq h t \<longrightarrow> (\<exists>l. hv h t v = Some (c, l))" by auto
  from * obtain lc where "hv h t c = Some (c, lc)" "take (length lc) (hg h t) = lc" by blast
  then show "\<exists>lc. hv h t c = Some (c, lc) \<and> lc = take (length lc) (hg h t)" by metis
qed

lemma promiseD:
  assumes "promises_ok h" "k \<le> ha h t n" "t < t'" "hv h t' n = Some (c, l)" "n |\<in>| hq h t'"
  shows "kept h t k l t'"
  using assms(1)[unfolded promises_ok_def, THEN conjunct2, rule_format, OF assms(2-4)] assms(5) by blast

lemma later_log_nonempty:
  assumes "leaders_ok elect h" "traced h l" "l \<noteq> []" "position_le (last_pos l) (last_pos lc)"
  shows "lc \<noteq> []"
proof
  assume "lc = []"
  then have "pos_index (last_pos l) = 0"
    using assms(4) by (simp add: position_le_def last_pos_def GENESIS_def split: if_splits)
  then show False using last_pos_index[OF assms(1,2)] assms(3) by simp
qed

context quorum_provider
begin

lemma elections_meet: "valid p \<Longrightarrow> sat p Election A \<Longrightarrow> sat p Election B \<Longrightarrow> \<exists>v. v |\<in>| A \<and> v |\<in>| B"
  using shared_elector by blast

lemma run_ok:
  assumes p: "valid p" and run: "(sys_step (sat p Election) (sat p Commit))\<^sup>*\<^sup>* S S'"
    and ok: "system_ok (sat p Election) (sat p Commit) h S"
  shows "\<exists>h'. extends (sat p Commit) h h' \<and> system_ok (sat p Election) (sat p Commit) h' S'"
  using run
proof (induction rule: rtranclp_induct)
  case base
  then show ?case using ok extends_refl by blast
next
  case (step S' S'')
  then obtain h' where h': "extends (sat p Commit) h h'" "system_ok (sat p Election) (sat p Commit) h' S'"
    by blast
  from step(2) show ?case
  proof cases
    case (sys_stepI n N R r' sends)
    then obtain h'' where "grows n h' h''" "system_ok (sat p Election) (sat p Commit) h'' S''"
      using action_ok[OF _ elections_meet[OF p]] h'(2) by blast
    moreover have "history_ok (sat p Election) h'" using h'(2) by (simp add: system_ok_def)
    ultimately show ?thesis
      using extends_trans[OF h'(1)] grows_extends by blast
  qed
qed

lemma prefix_carried:
  assumes ok: "history_ok (sat p Election) h" and c: "chosen (sat p Commit) h t k" and lt: "t < t'"
    and IH: "\<And>u. t < u \<Longrightarrow> u < t' \<Longrightarrow> hl h u \<noteq> None \<Longrightarrow> holds_prefix h t k (hg h u)"
    and b: "traced h l" "traced h lc" "position_le (last_pos l) (last_pos lc)" "\<forall>e \<in> set lc. entry_term e < t'"
    and l: "holds_prefix h t k l"
  shows "holds_prefix h t k lc" "k \<le> length lc"
proof -
  have o: "leaders_ok (sat p Election) h" "ballots_ok h" using ok by (auto simp: history_ok_def)
  have k: "0 < k" "k \<le> length (hg h t)" "entry_term (hg h t ! (k - 1)) = t"
    using c by (auto simp: chosen_def)
  have eq: "take k l = take k (hg h t)" using l by (simp add: holds_prefix_def)
  then have kl: "k \<le> length l" using k(2) by (metis length_take min.absorb2 min.bounded_iff order_refl)
  then have "entry_term (l ! (k - 1)) = t"
    using eq k by (metis diff_less less_one nth_take)
  then have tl: "t \<le> entry_term (l ! (length l - 1))"
    using traced_sorted[OF o b(1), of "k - 1" "length l - 1"] kl k(1) by auto
  let ?tl = "entry_term (l ! (length l - 1))" and ?tc = "entry_term (lc ! (length lc - 1))"
  have ne: "l \<noteq> []" using kl k(1) by auto
  then have ne': "lc \<noteq> []" by (rule later_log_nonempty[OF o(1) b(1) _ b(3)])
  have cmp: "?tl < ?tc \<or> ?tl = ?tc \<and> length l \<le> length lc"
    using b(3) last_pos_index[OF o(1) b(1)] last_pos_index[OF o(1) b(2)]
    by (simp add: position_le_def last_pos_term[OF ne] last_pos_term[OF ne'])
  note wl = traced_whole[OF b(1) ne] and wc = traced_whole[OF b(2) ne']
  have "take k lc = take k (hg h t) \<and> k \<le> length lc"
  proof (cases "?tl = ?tc")
    case True
    then have len: "k \<le> length lc" using cmp kl by simp
    then show ?thesis
      using prefix_take[OF wl(1) kl] prefix_take[OF wc(1) len] eq True by simp
  next
    case False
    then have *: "t < ?tc" using cmp tl by auto
    moreover have "?tc < t'" using b(4) ne' by (simp add: last_conv_nth[symmetric])
    ultimately have g: "take k (hg h ?tc) = take k (hg h t)"
      using IH wc(2) by (simp add: holds_prefix_def)
    have "k \<le> length lc"
    proof (rule ccontr)
      assume short: "\<not> k \<le> length lc"
      have "lc ! (length lc - 1) = hg h ?tc ! (length lc - 1)"
        by (rule prefix_nth[OF wc(1)]) (use ne' in simp)
      also have "\<dots> = hg h t ! (length lc - 1)"
        using g short by (metis diff_le_self not_le_imp_less nth_take order_le_less_trans)
      finally show False
        using leader_terms[OF o, of "length lc - 1" t] short k(2) * by force
    qed
    then show ?thesis using g prefix_take[OF wc(1)] by simp
  qed
  then show "holds_prefix h t k lc" "k \<le> length lc" by (simp_all add: holds_prefix_def)
qed

lemma leader_complete:
  assumes p: "valid p" and ok: "history_ok (sat p Election) h" and c: "chosen (sat p Commit) h t k"
  shows "t < t' \<Longrightarrow> hl h t' \<noteq> None \<Longrightarrow> holds_prefix h t k (hg h t')"
proof (induction t' rule: less_induct)
  case (less t')
  have o: "leaders_ok (sat p Election) h" "ballots_ok h" "promises_ok h" using ok by (auto simp: history_ok_def)
  obtain c' where c': "hl h t' = Some c'" using less.prems(2) by auto
  note q = leaderD[OF o(1) c']
  obtain lc where lc: "hv h t' c' = Some (c', lc)" "lc = take (length lc) (hg h t')" using q(3) by blast
  obtain A where A: "sat p Commit A" "\<forall>m. m |\<in>| A \<longrightarrow> k \<le> ha h t m"
    using c by (auto simp: chosen_def)
  obtain m where m: "m |\<in>| hq h t'" "m |\<in>| A" using shared_elector[OF p q(1) A(1)] by blast
  obtain l where l: "hv h t' m = Some (c', l)" using q(2) m(1) by blast
  have IH: "holds_prefix h t k (hg h u)" if "t < u" "u < t'" "hl h u \<noteq> None" for u
    using less.IH that by blast
  have "kept h t k l t'"
    by (rule promiseD[OF o(3) _ less.prems(1) l m(1)]) (use A(2) m(2) in blast)
  then have hold: "holds_prefix h t k l" using IH unfolding kept_def by blast
  note b = ballotD[OF o(2) l lc(1)]
  have "holds_prefix h t k lc" "k \<le> length lc"
    using prefix_carried[OF ok c less.prems(1) IH b hold] by auto
  then show ?case
    using prefix_take[OF lc(2)] by (simp add: holds_prefix_def)
qed

lemma chosen_agree:
  assumes "valid p" "history_ok (sat p Election) h" "chosen (sat p Commit) h t k" "chosen (sat p Commit) h t' k'" "t \<le> t'"
  shows "take k (hg h t') = take k (hg h t)"
proof (cases "t = t'")
  case False
  have "hg h t' \<noteq> []" using assms(4) by (auto simp: chosen_def)
  then have "hl h t' \<noteq> None" using assms(2) by (auto simp: history_ok_def leaders_ok_def)
  then show ?thesis
    using leader_complete[OF assms(1-3), of t'] assms(5) False by (simp add: holds_prefix_def)
qed simp

text \<open>A leader holds everything committed by its term.\<close>

lemma committed_leader:
  assumes p: "valid p" and ok: "history_ok (sat p Election) h" and c: "committed (sat p Commit) h b l"
    and ld: "hl h t \<noteq> None" "b \<le> t"
  shows "take (length l) (hg h t) = l"
proof (cases "l = []")
  case False
  then obtain t0 k where t0: "chosen (sat p Commit) h t0 k" "length l \<le> k" "l = take (length l) (hg h t0)" "t0 \<le> b"
    using c by (auto simp: committed_def)
  have "take k (hg h t) = take k (hg h t0)"
  proof (cases "t0 = t")
    case False
    then show ?thesis using leader_complete[OF p ok t0(1), of t] t0(4) ld by (simp add: holds_prefix_def)
  qed simp
  then show ?thesis using take_le_eq[OF _ t0(2)] t0(3) by metis
qed simp

text \<open>Any two committed logs agree on their common length.\<close>

lemma committed_agree:
  assumes "valid p" "history_ok (sat p Election) h" "committed (sat p Commit) h b l" "committed (sat p Commit) h b' l'"
    "length l \<le> length l'"
  shows "l = take (length l) l'"
proof (cases "l = []")
  case False
  then obtain t k where t: "chosen (sat p Commit) h t k" "length l \<le> k" "l = take (length l) (hg h t)"
    using assms(3) by (auto simp: committed_def)
  have "l' \<noteq> []" using False assms(5) by auto
  then obtain t' k' where t': "chosen (sat p Commit) h t' k'" "length l' \<le> k'" "l' = take (length l') (hg h t')"
    using assms(4) by (auto simp: committed_def)
  have "take (length l) (hg h t) = take (length l) (hg h t')"
  proof (cases "t \<le> t'")
    case True
    then show ?thesis
      using take_le_eq[OF chosen_agree[OF assms(1,2) t(1) t'(1)] t(2)] by simp
  next
    case False
    then show ?thesis
      using take_le_eq[OF chosen_agree[OF assms(1,2) t'(1) t(1)], of "length l"] t'(2) assms(5) by simp
  qed
  then show ?thesis
    using t(3) t'(3) assms(5) by (metis min.absorb1 take_take)
qed simp

end

end
