(* ===== verification/Core_Refinement.thy ===== *)
theory Core_Refinement
  imports Core_Log Replication_Safety
begin

text \<open>
  The consensus core implements the replication protocol. The abstraction reads a replica off the core and a
  protocol message off each message that carries a vote, an acknowledgement or entries. A durable mutation
  that is still pending is not visible: the protocol step happens when it completes.

  For every core that satisfies \<open>node_ok\<close>, every input and every message the network may hold, a step of the
  core is a sequence of protocol steps that sends everything the core sends, and \<open>node_ok\<close> holds again. The
  two steps that replay history across membership phases are kept apart from the protocol proper.
\<close>

section \<open>Abstraction\<close>

fun abs_role :: "role_state \<Rightarrow> replica_role" where
  "abs_role FollowerState = RFollower"
| "abs_role (CandidateState V) = RCandidate V"
| "abs_role (LeaderState l) = RLeader (\<lambda>m. lookup_or 0 m (ls_matched l))"

definition abs_core :: "core \<Rightarrow> replica" where
  "abs_core s = \<lparr>rp_term = cr_current_term s, rp_vote = cr_voted_for s, rp_log = cr_log s,
     rp_commit = cr_commit_index s, rp_role = abs_role (cr_role s)\<rparr>"

lemma abs_core_simps [simp]:
  "rp_term (abs_core s) = cr_current_term s" "rp_vote (abs_core s) = cr_voted_for s"
  "rp_log (abs_core s) = cr_log s" "rp_commit (abs_core s) = cr_commit_index s"
  "rp_role (abs_core s) = abs_role (cr_role s)"
  by (simp_all add: abs_core_def)

fun abs_message :: "node_id \<Rightarrow> node_id \<Rightarrow> core_message \<Rightarrow> network" where
  "abs_message n to (VoteRequest q) = {(n, to, MVoteRequest (vreq_term q) (vreq_last_log q))}"
| "abs_message n to (VoteResponse q) = (if vres_granted q then {(n, to, MVote (vres_term q))} else {})"
| "abs_message n to (AppendRequest q) =
     {(n, to, MAppend (areq_term q) (areq_previous q) (areq_entries q) (areq_leader_commit_index q))}"
| "abs_message n to (AppendResponse q) =
     (if ares_accepted q then {(n, to, MAck (ares_term q) (ares_matched_index q))} else {})"
| "abs_message n to (CommittedPrefix q) = {(n, to, MPrefix (pre_previous q) (pre_entries q) (pre_committed_index q))}"

fun effect_sends :: "node_id \<Rightarrow> core_effect \<Rightarrow> network" where
  "effect_sends n (Send to m) = abs_message n to m"
| "effect_sends n _ = {}"

definition sends_of :: "node_id \<Rightarrow> core_effect list \<Rightarrow> network" where
  "sends_of n effects = (\<Union>e \<in> set effects. effect_sends n e)"

lemma sends_of_simps [simp]:
  "sends_of n [] = {}" "sends_of n (e # es) = effect_sends n e \<union> sends_of n es"
  "sends_of n (xs @ ys) = sends_of n xs \<union> sends_of n ys"
  by (auto simp: sends_of_def)

lemma finite_sends: "finite (sends_of n es)"
proof -
  have "finite (abs_message n to m)" for to m by (cases m) auto
  then have "finite (effect_sends n e)" for e by (cases e) auto
  then show ?thesis by (simp add: sends_of_def)
qed

section \<open>Steps of a node\<close>

text \<open>
  Protocol steps, and under a flag the two steps of historical replay: sending a committed piece of the log,
  and adopting one.
\<close>

inductive node_action ::
  "bool \<Rightarrow> (node_id fset \<Rightarrow> bool) \<Rightarrow> (node_id fset \<Rightarrow> bool) \<Rightarrow> node_id \<Rightarrow> network \<Rightarrow> replica \<Rightarrow> replica \<Rightarrow> network \<Rightarrow> bool"
  for phased elect commitq n N where
  protocol: "action elect commitq n N r r' sends \<Longrightarrow> node_action phased elect commitq n N r r' sends"
| replay: "phased \<Longrightarrow> p + j \<le> rp_commit r \<Longrightarrow>
    node_action phased elect commitq n N r r
      {(n, to, MPrefix (last_pos (take p (rp_log r))) (take j (drop p (rp_log r))) (p + j))}"
| adopt: "phased \<Longrightarrow> (src, n, MPrefix prev es k) \<in> N \<Longrightarrow> rp_term r \<le> t \<Longrightarrow>
    pos_index prev \<le> length (rp_log r) \<Longrightarrow>
    pos_index prev = 0 \<or> entry_term (rp_log r ! (pos_index prev - 1)) = pos_term prev \<Longrightarrow>
    splice (rp_log r) (pos_index prev) es log' \<Longrightarrow>
    take (rp_commit r) log' = take (rp_commit r) (rp_log r) \<Longrightarrow> k = pos_index prev + length es \<Longrightarrow>
    commit' = rp_commit r \<or> commit' = max (rp_commit r) k \<Longrightarrow>
    node_action phased elect commitq n N r
      (r\<lparr>rp_term := t, rp_vote := (if rp_term r < t then None else rp_vote r), rp_log := log',
         rp_commit := commit', rp_role := RFollower\<rparr>) {}"

inductive runs ::
  "bool \<Rightarrow> (node_id fset \<Rightarrow> bool) \<Rightarrow> (node_id fset \<Rightarrow> bool) \<Rightarrow> node_id \<Rightarrow> network \<Rightarrow> replica \<Rightarrow> replica \<Rightarrow> network \<Rightarrow> bool"
  for phased elect commitq n N where
  runs_refl: "runs phased elect commitq n N r r {}"
| runs_step: "runs phased elect commitq n N r r' out \<Longrightarrow> node_action phased elect commitq n N r' r'' sends \<Longrightarrow>
    runs phased elect commitq n N r r'' (out \<union> sends)"

lemma runs_one: "node_action phased elect commitq n N r r' sends \<Longrightarrow> runs phased elect commitq n N r r' sends"
  using runs_step[OF runs_refl] by fastforce

lemma runs_action: "action elect commitq n N r r' sends \<Longrightarrow> runs phased elect commitq n N r r' sends"
  by (rule runs_one[OF protocol])

lemma runs_trans:
  assumes "runs phased elect commitq n N r r' out" "runs phased elect commitq n N r' r'' out'"
  shows "runs phased elect commitq n N r r'' (out \<union> out')"
  using assms(2,1)
proof (induction rule: runs.induct)
  case (runs_step a b out' c sends)
  then show ?case using runs.runs_step by (metis Un_assoc)
qed simp

text \<open>Everything a leader may send a peer from its log.\<close>

definition leader_sends :: "node_id \<Rightarrow> replica \<Rightarrow> network" where
  "leader_sends n r =
     {(n, to, MAppend (rp_term r) (last_pos (take p (rp_log r))) (take j (drop p (rp_log r))) (rp_commit r)) | to p j.
        p \<le> length (rp_log r) \<and> (\<exists>M. rp_role r = RLeader M)}"

lemma runs_leader_sends:
  assumes "finite X" "X \<subseteq> leader_sends n r"
  shows "runs phased elect commitq n N r r X"
  using assms
proof (induction X rule: finite_induct)
  case empty
  then show ?case by (simp add: runs_refl)
next
  case (insert x X)
  then obtain to p j M where x: "x = (n, to, MAppend (rp_term r) (last_pos (take p (rp_log r)))
      (take j (drop p (rp_log r))) (rp_commit r))" "p \<le> length (rp_log r)" "rp_role r = RLeader M"
    unfolding leader_sends_def by blast
  have "runs phased elect commitq n N r r X"
    using insert.IH insert.prems by blast
  then have "runs phased elect commitq n N r r (X \<union> {x})"
    using runs_step[OF _ protocol[OF send[OF x(3,2) order_refl]]] x(1) by simp
  then show ?case by simp
qed

section \<open>Invariant of a node\<close>

fun matched_of :: "role_state \<Rightarrow> role_state + (node_id, nat) fmap" where
  "matched_of (LeaderState l) = Inr (ls_matched l)"
| "matched_of r = Inl r"

text \<open>Two cores that differ only in what the protocol does not see.\<close>

definition alike :: "core \<Rightarrow> core \<Rightarrow> bool" where
  "alike s s' \<longleftrightarrow>
     cr_config s' = cr_config s \<and> cr_active_plan s' = cr_active_plan s \<and>
     cr_current_term s' = cr_current_term s \<and> cr_voted_for s' = cr_voted_for s \<and> cr_log s' = cr_log s \<and>
     cr_commit_index s' = cr_commit_index s \<and> matched_of (cr_role s') = matched_of (cr_role s)"

definition frame :: "core \<Rightarrow> core \<Rightarrow> bool" where
  "frame s s' \<longleftrightarrow> alike s s' \<and> cr_history s' = cr_history s \<and> cr_applied_index s' = cr_applied_index s \<and>
     cr_pending s' = cr_pending s"

lemmas frame_defs = frame_def alike_def

lemma frame_refl [simp]: "frame s s"
  by (simp add: frame_defs)

lemma frame_trans: "frame s s' \<Longrightarrow> frame s' s'' \<Longrightarrow> frame s s''"
  by (simp add: frame_defs)

lemma matched_of_leader: "matched_of r = Inr m \<longleftrightarrow> (\<exists>l. r = LeaderState l \<and> ls_matched l = m)"
  by (cases r) auto

lemma abs_role_matched: "matched_of r = matched_of r' \<Longrightarrow> abs_role r = abs_role r'"
  by (cases r; cases r') auto

lemma alike_abs: "alike s s' \<Longrightarrow> abs_core s' = abs_core s"
  using abs_role_matched[of "cr_role s'" "cr_role s"] by (simp add: alike_def abs_core_def)

lemma frame_abs: "frame s s' \<Longrightarrow> abs_core s' = abs_core s"
  using alike_abs by (simp add: frame_def)

lemma frame_set_leader:
  "cr_role s = LeaderState l \<Longrightarrow> ls_matched l' = ls_matched l \<Longrightarrow> frame s (set_leader l' s)"
  by (simp add: frame_defs set_leader_def)


text \<open>What the core has checked of a batch whose mutation is pending.\<close>

definition extends_log :: "core \<Rightarrow> log_position \<Rightarrow> log_entry list \<Rightarrow> durable_mutation \<Rightarrow> nat \<Rightarrow> bool" where
  "extends_log s prev es m t \<longleftrightarrow>
     pos_index prev \<le> length (cr_log s) \<and>
     (pos_index prev = 0 \<or> entry_term (cr_log s ! (pos_index prev - 1)) = pos_term prev) \<and>
     splice (cr_log s) (pos_index prev) es (new_log s m) \<and>
     take (cr_commit_index s) (new_log s m) = take (cr_commit_index s) (cr_log s) \<and>
     pos_index prev + length es \<le> length (new_log s m) \<and>
     cr_current_term s \<le> t \<and> new_term s m = t \<and>
     new_vote s m = (if cr_current_term s < t then None else cr_voted_for s)"

definition action_ok_for :: "(bytes \<Rightarrow> bytes) \<Rightarrow> bool \<Rightarrow> network \<Rightarrow> core \<Rightarrow> durable_mutation \<Rightarrow> after_persistence \<Rightarrow> bool" where
  "action_ok_for H phased N s m a =
     (case a of
        Campaign \<Rightarrow> m = vote_mutation (Suc (cr_current_term s)) (Some (cr_local s))
      | VoteReply to granted \<Rightarrow>
          (\<exists>t pos. m = vote_mutation t (if granted then Some to else None) \<and>
             (if granted then (to, cr_local s, MVoteRequest t pos) \<in> N \<and> position_le (last_pos (cr_log s)) pos \<and>
                (cr_current_term s < t \<or> t = cr_current_term s \<and> cr_voted_for s \<in> {None, Some to})
              else cr_current_term s < t))
      | AppendReply to leader ci reply \<Rightarrow>
          (if ares_accepted reply
           then \<exists>t prev es. (to, cr_local s, MAppend t prev es ci) \<in> N \<and> extends_log s prev es m t \<and>
              ares_matched_index reply = pos_index prev + length es
           else \<exists>t. m = vote_mutation t None \<and> cr_current_term s < t)
      | Proposal _ position \<Rightarrow>
          (\<exists>e l. m = append_mutation None None [e] \<and> le_position e = position \<and>
             position = \<lparr>pos_term = cr_current_term s, pos_index = Suc (length (cr_log s))\<rparr> \<and> cr_role s = LeaderState l)
      | StepDown \<Rightarrow> \<exists>t. m = vote_mutation t None \<and> cr_current_term s < t
      | AfterCommittedPrefix from k \<Rightarrow>
          phased \<and> (\<exists>prev es. (from, cr_local s, MPrefix prev es k) \<in> N \<and> extends_log s prev es m (new_term s m) \<and>
             k = pos_index prev + length es)
      | ActivateJoint _ _ \<Rightarrow> phased \<and> mut_vote_state m = None \<and> mut_truncate_from m = None \<and> mut_append m = []
      | ActivateStable _ _ \<Rightarrow> phased \<and> mut_vote_state m = None \<and> mut_truncate_from m = None \<and> mut_append m = [])"

definition activates :: "after_persistence \<Rightarrow> bool" where
  "activates a = (case a of ActivateJoint _ _ \<Rightarrow> True | ActivateStable _ _ \<Rightarrow> True | _ \<Rightarrow> False)"

definition pending_ok :: "(bytes \<Rightarrow> bytes) \<Rightarrow> bool \<Rightarrow> network \<Rightarrow> core \<Rightarrow> bool" where
  "pending_ok H phased N s \<longleftrightarrow>
     (\<forall>p. cr_pending s = Some p \<longrightarrow>
        action_ok_for H phased N s (pend_mutation p) (pend_action p) \<and>
        (\<not> activates (pend_action p) \<longrightarrow> mutation_ok H s (pend_mutation p)))"

definition node_ok :: "(bytes \<Rightarrow> bytes) \<Rightarrow> bool \<Rightarrow> network \<Rightarrow> core \<Rightarrow> bool" where
  "node_ok H phased N s \<longleftrightarrow>
     log_ok H (cr_log s) \<and> (\<forall>e \<in> set (cr_log s). entry_term e \<le> cr_current_term s) \<and>
     cr_applied_index s \<le> cr_commit_index s \<and> cr_commit_index s \<le> length (cr_log s) \<and>
     (\<forall>l. cr_role s = LeaderState l \<longrightarrow> fmlookup (ls_matched l) (cr_local s) = Some (length (cr_log s))) \<and>
     (cr_history s \<noteq> fmempty \<longrightarrow> phased) \<and> pending_ok H phased N s"

lemma alike_new:
  assumes "alike s s'"
  shows "new_term s' m = new_term s m" "new_vote s' m = new_vote s m" "new_log s' m = new_log s m"
    "mutation_ok H s' m = mutation_ok H s m" "extends_log s' prev es m t = extends_log s prev es m t"
proof -
  have f: "cr_current_term s' = cr_current_term s" "cr_voted_for s' = cr_voted_for s" "cr_log s' = cr_log s"
    "cr_commit_index s' = cr_commit_index s" "cr_active_plan s' = cr_active_plan s"
    using assms by (simp_all add: alike_def)
  show "new_term s' m = new_term s m" "new_vote s' m = new_vote s m" "new_log s' m = new_log s m"
    "mutation_ok H s' m = mutation_ok H s m" "extends_log s' prev es m t = extends_log s prev es m t"
    unfolding mutation_ok_def extends_log_def new_term_def new_vote_def new_log_def f by (rule refl)+
qed

lemma alike_leader: "alike s s' \<Longrightarrow> (\<exists>l. cr_role s' = LeaderState l) = (\<exists>l. cr_role s = LeaderState l)"
  unfolding alike_def by (cases "cr_role s"; cases "cr_role s'") auto

lemma alike_action_ok:
  assumes "alike s s'"
  shows "action_ok_for H phased N s' m a = action_ok_for H phased N s m a"
proof -
  have f: "cr_current_term s' = cr_current_term s" "cr_local s' = cr_local s" "cr_log s' = cr_log s"
    "cr_voted_for s' = cr_voted_for s"
    using assms by (simp_all add: alike_def)
  show ?thesis
    using alike_leader[OF assms] by (cases a) (simp_all add: action_ok_for_def f alike_new[OF assms])
qed

lemma frame_node_ok:
  assumes f: "frame s s'" and ok: "node_ok H phased N s"
  shows "node_ok H phased N s'"
proof -
  have a: "alike s s'" using f by (simp add: frame_def)
  have "\<forall>l. cr_role s' = LeaderState l \<longrightarrow> fmlookup (ls_matched l) (cr_local s') = Some (length (cr_log s'))"
  proof (intro allI impI)
    fix l assume "cr_role s' = LeaderState l"
    then have "matched_of (cr_role s) = Inr (ls_matched l)" using f by (simp add: frame_defs)
    then obtain l' where "cr_role s = LeaderState l'" "ls_matched l' = ls_matched l"
      using matched_of_leader by blast
    then show "fmlookup (ls_matched l) (cr_local s') = Some (length (cr_log s'))"
      using f ok by (auto simp: node_ok_def frame_defs)
  qed
  moreover have "pending_ok H phased N s'"
    using ok f by (simp add: node_ok_def pending_ok_def alike_action_ok[OF a] alike_new(4)[OF a]) (simp add: frame_def)
  moreover have "cr_current_term s' = cr_current_term s" "cr_log s' = cr_log s" "cr_history s' = cr_history s"
      "cr_commit_index s' = cr_commit_index s" "cr_applied_index s' = cr_applied_index s"
    using f by (simp_all add: frame_defs)
  ultimately show ?thesis
    using ok unfolding node_ok_def by simp
qed

section \<open>Composition\<close>

text \<open>An operation that only sends from the log of a leader.\<close>

definition quiet :: "core \<Rightarrow> 'a core_op \<Rightarrow> ('a \<Rightarrow> network) \<Rightarrow> bool" where
  "quiet s m S \<longleftrightarrow>
     frame s (snd (m s)) \<and>
     (\<forall>x. fst (m s) = Inr x \<longrightarrow> finite (S x) \<and> S x \<subseteq> leader_sends (cr_local s) (abs_core s))"

text \<open>An operation whose effect is a sequence of node steps that send at least what it sends.\<close>

definition refines ::
  "(bytes \<Rightarrow> bytes) \<Rightarrow> bool \<Rightarrow> network \<Rightarrow> active_quorum_plan \<Rightarrow> core \<Rightarrow> 'a core_op \<Rightarrow> ('a \<Rightarrow> network) \<Rightarrow> bool" where
  "refines H phased N plan s m S \<longleftrightarrow>
     node_ok H phased N (snd (m s)) \<and> cr_local (snd (m s)) = cr_local s \<and>
     (\<exists>out. runs phased (active_satisfies plan Election) (active_satisfies plan Commit) (cr_local s) N
          (abs_core s) (abs_core (snd (m s))) out \<and>
        (\<forall>x. fst (m s) = Inr x \<longrightarrow> S x \<subseteq> out))"

lemma frame_local: "frame s s' \<Longrightarrow> cr_local s' = cr_local s"
  by (simp add: frame_defs)

lemma quiet_refines:
  assumes "quiet s m S" "node_ok H phased N s"
  shows "refines H phased N plan s m S"
proof -
  have f: "frame s (snd (m s))" using assms(1) by (simp add: quiet_def)
  have "runs phased (active_satisfies plan Election) (active_satisfies plan Commit) (cr_local s) N
      (abs_core s) (abs_core s) (case fst (m s) of Inl _ \<Rightarrow> {} | Inr x \<Rightarrow> S x)"
    using assms(1) by (auto simp: quiet_def runs_refl runs_leader_sends split: sum.splits)
  then have "\<exists>out. runs phased (active_satisfies plan Election) (active_satisfies plan Commit) (cr_local s) N
      (abs_core s) (abs_core (snd (m s))) out \<and> (\<forall>x. fst (m s) = Inr x \<longrightarrow> S x \<subseteq> out)"
    using frame_abs[OF f] by (intro exI[of _ "case fst (m s) of Inl _ \<Rightarrow> {} | Inr x \<Rightarrow> S x"]) auto
  then show ?thesis
    using frame_node_ok[OF f assms(2)] frame_local[OF f] by (simp add: refines_def)
qed

lemma quiet_ret [simp]: "quiet s (ret x) S \<longleftrightarrow> finite (S x) \<and> S x \<subseteq> leader_sends (cr_local s) (abs_core s)"
  by (simp add: quiet_def ret_def)

lemma quiet_bind:
  assumes "quiet s m S1"
    and "\<And>x s'. m s = (Inr x, s') \<Longrightarrow> frame s s' \<Longrightarrow> finite (S1 x) \<Longrightarrow> S1 x \<subseteq> leader_sends (cr_local s') (abs_core s') \<Longrightarrow>
      quiet s' (f x) S"
  shows "quiet s (cbind m f) S"
proof (cases "m s")
  case (Pair res s')
  then have f: "frame s s'" using assms(1) by (simp add: quiet_def)
  show ?thesis
  proof (cases res)
    case (Inl e)
    then show ?thesis using Pair f by (simp add: quiet_def cbind_def)
  next
    case (Inr x)
    then have "quiet s' (f x) S"
      using assms Pair f frame_abs[OF f] frame_local[OF f] by (simp add: quiet_def)
    then show ?thesis
      using Pair Inr f frame_abs[OF f] frame_local[OF f] frame_trans[OF f] by (simp add: quiet_def cbind_def)
  qed
qed

lemma quiet_for_each:
  assumes "\<And>x s'. x \<in> set xs \<Longrightarrow> frame s s' \<Longrightarrow> quiet s' (f x) S"
  shows "quiet s (for_each f xs) (\<lambda>ys. \<Union>y \<in> set ys. S y)"
  using assms
proof (induction xs arbitrary: s)
  case (Cons x xs)
  show ?case
    unfolding for_each.simps
  proof (rule quiet_bind)
    show "quiet s (f x) S" using Cons.prems by simp
    fix y s1 assume f1: "frame s s1" and y: "finite (S y)" "S y \<subseteq> leader_sends (cr_local s1) (abs_core s1)"
    show "quiet s1 (cbind (for_each f xs) (\<lambda>ys. ret (y # ys))) (\<lambda>ys. \<Union>y \<in> set ys. S y)"
    proof (rule quiet_bind)
      show "quiet s1 (for_each f xs) (\<lambda>ys. \<Union>y \<in> set ys. S y)"
        by (rule Cons.IH) (use Cons.prems frame_trans[OF f1] in auto)
      fix ys s2 assume "frame s1 s2" "finite (\<Union>y \<in> set ys. S y)"
        "(\<Union>y \<in> set ys. S y) \<subseteq> leader_sends (cr_local s2) (abs_core s2)"
      then show "quiet s2 (ret (y # ys)) (\<lambda>ys. \<Union>y \<in> set ys. S y)"
        using y frame_abs[of s1 s2] frame_local[of s1 s2] by simp
    qed
  qed
qed simp

lemma refines_bind:
  assumes m: "refines H phased N plan s m S1"
    and f: "\<And>x s'. m s = (Inr x, s') \<Longrightarrow> node_ok H phased N s' \<Longrightarrow> cr_local s' = cr_local s \<Longrightarrow>
      refines H phased N plan s' (f x) (\<lambda>y. S y - S1 x)"
  shows "refines H phased N plan s (cbind m f) S"
proof (cases "m s")
  case (Pair res s')
  let ?runs = "runs phased (active_satisfies plan Election) (active_satisfies plan Commit)"
  obtain out where ok: "node_ok H phased N s'" "cr_local s' = cr_local s"
    and out: "?runs (cr_local s) N (abs_core s) (abs_core s') out" "\<forall>x. res = Inr x \<longrightarrow> S1 x \<subseteq> out"
    using m Pair by (auto simp: refines_def)
  show ?thesis
  proof (cases res)
    case (Inl e)
    then show ?thesis using Pair ok out by (auto simp: refines_def cbind_def)
  next
    case (Inr x)
    obtain res' s'' where f': "f x s' = (res', s'')" by (cases "f x s'")
    then obtain out' where ok': "node_ok H phased N s''" "cr_local s'' = cr_local s'"
      and out': "?runs (cr_local s') N (abs_core s') (abs_core s'') out'" "\<forall>y. res' = Inr y \<longrightarrow> S y - S1 x \<subseteq> out'"
      using f[of x s'] Pair Inr ok by (auto simp: refines_def)
    have "?runs (cr_local s) N (abs_core s) (abs_core s'') (out \<union> out')"
      using runs_trans[OF out(1)] out'(1) ok(2) by simp
    moreover have "\<forall>y. res' = Inr y \<longrightarrow> S y \<subseteq> out \<union> out'"
      using out(2) out'(2) Inr by blast
    ultimately show ?thesis
      using Pair Inr f' ok ok' by (auto simp: refines_def cbind_def)
  qed
qed

lemma refines_unchanged:
  "node_ok H phased N s \<Longrightarrow> fst (m s) = Inl e \<Longrightarrow> snd (m s) = s \<Longrightarrow> refines H phased N plan s m S"
  using runs_refl by (fastforce simp: refines_def)

section \<open>Sending from the log\<close>

lemma budget_scan_take: "\<exists>j. budget_scan overhead a b es = take j es"
proof (induction es arbitrary: a b)
  case (Cons e es)
  show ?case
  proof (cases "budget_scan overhead a b (e # es) = []")
    case True
    then show ?thesis by (metis take0)
  next
    case False
    then obtain a' b' where "budget_scan overhead a b (e # es) = e # budget_scan overhead a' b' es"
      by (auto split: option.splits)
    then show ?thesis using Cons.IH[of a' b'] by (metis take_Suc_Cons)
  qed
qed simp

lemma filter_range:
  assumes "log_ok H log"
  shows "filter (\<lambda>e. entry_index e \<ge> Suc p \<and> entry_index e \<le> k) log = drop p (take k log)"
proof -
  have idx: "entry_index (take k log ! i) = Suc i" if "i < length (take k log)" for i
    using assms that by (simp add: log_ok_def)
  have "filter (\<lambda>e. entry_index e \<ge> Suc p \<and> entry_index e \<le> k) log =
      filter (\<lambda>e. entry_index e \<ge> Suc p) (filter (\<lambda>e. entry_index e < Suc k) log)"
    by (simp add: less_Suc_eq_le conj_commute)
  also have "\<dots> = filter (\<lambda>e. entry_index e \<ge> Suc p) (take k log)"
    using filter_below_take[OF assms, of "Suc k"] by simp
  also have "\<dots> = filter (\<lambda>e. entry_index e \<ge> Suc p) (take p (take k log)) @
      filter (\<lambda>e. entry_index e \<ge> Suc p) (drop p (take k log))"
    by (metis append_take_drop_id filter_append)
  also have "filter (\<lambda>e. entry_index e \<ge> Suc p) (take p (take k log)) = []"
    using idx by (auto simp: filter_empty_conv in_set_conv_nth)
  also have "filter (\<lambda>e. entry_index e \<ge> Suc p) (drop p (take k log)) = drop p (take k log)"
  proof (rule filter_True, rule ballI)
    fix e assume "e \<in> set (drop p (take k log))"
    then obtain i where "i < length (take k log) - p" "e = take k log ! (p + i)"
      by (auto simp: in_set_conv_nth simp del: length_take nth_take)
    then have "p + i < length (take k log)" "e = take k log ! (p + i)"
      by (simp_all only: less_diff_conv add.commute)
    then show "entry_index e \<ge> Suc p" using idx[of "p + i"] by (simp del: nth_take length_take)
  qed
  finally show ?thesis by simp
qed

lemma replication_entries_take:
  assumes "log_ok H (cr_log s)"
  shows "\<exists>j. replication_entries s peer (Suc p) k = take j (drop p (cr_log s)) \<and> (p \<le> k \<longrightarrow> p + j \<le> k)"
proof -
  let ?es = "take MAXIMUM_APPEND_ENTRIES (drop p (take k (cr_log s)))"
  obtain j where "replication_entries s peer (Suc p) k = take j ?es"
    unfolding replication_entries_def Let_def filter_range[OF assms] using budget_scan_take by metis
  then have "replication_entries s peer (Suc p) k = take (min j (min MAXIMUM_APPEND_ENTRIES (k - p))) (drop p (cr_log s))"
    by (simp add: drop_take min.commute min.left_commute)
  then show ?thesis by (intro exI[of _ "min j (min MAXIMUM_APPEND_ENTRIES (k - p))"]) auto
qed

lemma last_pos_entry:
  assumes "log_ok H (cr_log s)" "entry s p = Some e"
  shows "le_position e = last_pos (take p (cr_log s))" "p \<le> length (cr_log s)"
  using assms(2) by (auto simp: entry_Some[OF assms(1)] last_pos_def last_conv_nth min_def)

lemma last_position_last_pos: "last_position s = last_pos (cr_log s)"
  by (cases "cr_log s" rule: rev_cases) (simp_all add: last_position_def last_pos_def)

lemma probe_position:
  assumes ok: "log_ok H (cr_log s)"
    and prev: "(if p = 0 then Inr (GENESIS, ZERO_DIGEST)
       else try_r (ok_or InvalidInput (entry s p)) (\<lambda>e. Inr (le_position e, entry_digest H e))) = Inr (previous, digest)"
  shows "p \<le> length (cr_log s) \<and> previous = last_pos (take p (cr_log s))"
proof (cases "p = 0")
  case True
  then show ?thesis using prev by (auto simp: last_pos_def)
next
  case False
  then obtain e where "entry s p = Some e" "previous = le_position e"
    using prev by (auto simp: result_simps)
  then show ?thesis using last_pos_entry[OF ok] by simp
qed

lemma probe_request_shape:
  assumes ok: "log_ok H (cr_log s)" and r: "probe_request H s leader peer kind rb = Inr request"
  shows "\<exists>p j. p \<le> length (cr_log s) \<and> areq_term request = cr_current_term s \<and>
    areq_leader_commit_index request = cr_commit_index s \<and>
    areq_previous request = last_pos (take p (cr_log s)) \<and> areq_entries request = take j (drop p (cr_log s))"
proof (cases kind)
  case Replication
  obtain p where suc: "max (lookup_or (Suc 0) peer (ls_next leader)) (Suc 0) = Suc p"
    by (metis max.cobounded2 Suc_le_D)
  obtain previous digest where
    prev: "(if p = 0 then Inr (GENESIS, ZERO_DIGEST)
       else try_r (ok_or InvalidInput (entry s p)) (\<lambda>e. Inr (le_position e, entry_digest H e))) = Inr (previous, digest)"
    and req: "areq_term request = cr_current_term s" "areq_leader_commit_index request = cr_commit_index s"
      "areq_previous request = previous" "areq_entries request = replication_entries s peer (Suc p) u64_max"
    using r Replication unfolding probe_request_def by (auto simp: result_simps suc)
  obtain j where "areq_entries request = take j (drop p (cr_log s))"
    using req(4) replication_entries_take[OF ok] by metis
  then show ?thesis
    using req probe_position[OF ok prev] by (intro exI[of _ p] exI[of _ j]) simp
next
  case Contact
  let ?p = "lookup_or 0 peer (ls_matched leader)"
  obtain previous digest where
    prev: "(if ?p = 0 then Inr (GENESIS, ZERO_DIGEST)
       else try_r (ok_or InvalidInput (entry s ?p)) (\<lambda>e. Inr (le_position e, entry_digest H e))) = Inr (previous, digest)"
    and req: "areq_term request = cr_current_term s" "areq_leader_commit_index request = cr_commit_index s"
      "areq_previous request = previous" "areq_entries request = take 0 (drop ?p (cr_log s))"
    using r Contact unfolding probe_request_def by (auto simp: result_simps)
  then show ?thesis
    using probe_position[OF ok prev] by (intro exI[of _ ?p] exI[of _ 0]) simp
qed

lemma leader_sendsI:
  "p \<le> length (rp_log r) \<Longrightarrow> rp_role r = RLeader M \<Longrightarrow>
     (n, to, MAppend (rp_term r) (last_pos (take p (rp_log r))) (take j (drop p (rp_log r))) (rp_commit r)) \<in> leader_sends n r"
  unfolding leader_sends_def by blast

lemma probe_emit_quiet:
  assumes role: "cr_role s = LeaderState leader" and f: "frame s s'" "cr_role s' = LeaderState leader"
    and r: "p \<le> length (cr_log s)" "areq_term request = cr_current_term s"
      "areq_leader_commit_index request = cr_commit_index s"
      "areq_previous request = last_pos (take p (cr_log s))" "areq_entries request = take j (drop p (cr_log s))"
  shows "frame s (snd (probe_emit H leader peer kind request s'))"
    "fst (probe_emit H leader peer kind request s') = Inr e \<Longrightarrow>
      finite (effect_sends (cr_local s) e) \<and> effect_sends (cr_local s) e \<subseteq> leader_sends (cr_local s) (abs_core s)"
proof -
  show "frame s (snd (probe_emit H leader peer kind request s'))"
    using f by (simp add: probe_emit_def frame_defs)
  assume "fst (probe_emit H leader peer kind request s') = Inr e"
  then have "e = Send peer (AppendRequest request)" by (simp add: probe_emit_def)
  then show "finite (effect_sends (cr_local s) e) \<and> effect_sends (cr_local s) e \<subseteq> leader_sends (cr_local s) (abs_core s)"
    using r(2-5) leader_sendsI[of p "abs_core s" "\<lambda>m. lookup_or 0 m (ls_matched leader)" "cr_local s" peer j] r(1) role
    by simp
qed

lemma probe_effect_quiet:
  assumes ok: "log_ok H (cr_log s)"
  shows "quiet s (probe_effect H peer kind rb) (effect_sends (cr_local s))"
proof (cases "cr_role s")
  case (LeaderState leader)
  show ?thesis
  proof (cases "probe_request H s leader peer kind rb")
    case (Inl e)
    then show ?thesis using LeaderState by (simp add: quiet_def probe_effect_def)
  next
    case (Inr request)
    obtain p j where r: "p \<le> length (cr_log s)" "areq_term request = cr_current_term s"
      "areq_leader_commit_index request = cr_commit_index s"
      "areq_previous request = last_pos (take p (cr_log s))" "areq_entries request = take j (drop p (cr_log s))"
      using probe_request_shape[OF ok Inr] by auto
    have emit: "probe_effect H peer kind rb s = (Inl Exhausted, s) \<or>
      (\<exists>i. probe_effect H peer kind rb s = probe_emit H leader peer kind (request\<lparr>areq_probe_id := i\<rparr>) s) \<or>
      (\<exists>n. probe_effect H peer kind rb s = probe_emit H leader peer kind request (s\<lparr>cr_next_append_probe_id := n\<rparr>))"
      using LeaderState Inr by (auto simp: probe_effect_def split: option.splits probe_kind.splits)
    have f: "frame s (s\<lparr>cr_next_append_probe_id := n\<rparr>)" for n by (simp add: frame_defs)
    note e1 = probe_emit_quiet[OF LeaderState frame_refl LeaderState, of p "request\<lparr>areq_probe_id := i\<rparr>" j for i]
    note e2 = probe_emit_quiet[OF LeaderState f _ r]
    show ?thesis
      using emit
    proof (elim disjE exE)
      fix i assume *: "probe_effect H peer kind rb s = probe_emit H leader peer kind (request\<lparr>areq_probe_id := i\<rparr>) s"
      show ?thesis unfolding quiet_def * using e1[of i] r by simp
    next
      fix n assume *: "probe_effect H peer kind rb s = probe_emit H leader peer kind request (s\<lparr>cr_next_append_probe_id := n\<rparr>)"
      show ?thesis unfolding quiet_def * using e2[of n] LeaderState by simp
    qed (simp add: quiet_def)
  qed
qed (simp_all add: quiet_def probe_effect_def)

lemma frame_log: "frame s s' \<Longrightarrow> log_ok H (cr_log s) \<Longrightarrow> log_ok H (cr_log s')"
  by (simp add: frame_defs)

lemma probes_quiet:
  assumes ok: "log_ok H (cr_log s)"
  shows "quiet s (for_each (\<lambda>peer. probe_effect H peer kind rb) ps) (sends_of (cr_local s))"
  unfolding sends_of_def
proof (rule quiet_for_each)
  fix x s' assume f: "frame s s'"
  then show "quiet s' (probe_effect H x kind rb) (effect_sends (cr_local s))"
    using probe_effect_quiet[OF frame_log[OF f ok], of x kind rb] frame_local[OF f] by simp
qed

lemma heartbeat_peer_quiet:
  assumes ok: "log_ok H (cr_log s)"
  shows "quiet s (heartbeat_peer H k peer) (sends_of (cr_local s))"
proof -
  let ?n = "cr_local s"
  have 1: "quiet s (cbind (probe_effect H peer Replication None) (\<lambda>probe. ret [probe])) (sends_of ?n)"
    by (rule quiet_bind[OF probe_effect_quiet[OF ok]]) simp
  have 2: "quiet s' (cbind (probe_effect H peer Contact None) (\<lambda>contact. ret (replication @ [contact]))) (sends_of ?n)"
    if f: "frame s s'" and r: "finite (sends_of ?n replication)"
      "sends_of ?n replication \<subseteq> leader_sends (cr_local s') (abs_core s')" for s' replication
  proof (rule quiet_bind[where ?S1.0 = "effect_sends ?n"])
    show "quiet s' (probe_effect H peer Contact None) (effect_sends ?n)"
      using probe_effect_quiet[OF frame_log[OF f ok], of peer Contact None] frame_local[OF f] by simp
    fix x s2 assume "frame s' s2" "finite (effect_sends ?n x)" "effect_sends ?n x \<subseteq> leader_sends (cr_local s2) (abs_core s2)"
    then show "quiet s2 (ret (replication @ [x])) (sends_of ?n)"
      using r frame_abs[of s' s2] frame_local[of s' s2] by simp
  qed
  have 0: "quiet s (if b then cbind (probe_effect H peer Replication None) (\<lambda>probe. ret [probe]) else ret []) (sends_of ?n)" for b
    using 1 by simp
  have "quiet s (cbind (if b then cbind (probe_effect H peer Replication None) (\<lambda>probe. ret [probe]) else ret [])
     (\<lambda>replication. cbind (probe_effect H peer Contact None) (\<lambda>contact. ret (replication @ [contact])))) (sends_of ?n)" for b
    by (rule quiet_bind[OF 0]) (rule 2)
  then show "quiet s (heartbeat_peer H k peer) (sends_of ?n)"
    by (simp add: quiet_def heartbeat_peer_def)
qed

lemma heartbeat_quiet:
  assumes ok: "log_ok H (cr_log s)"
  shows "quiet s (heartbeat H) (sends_of (cr_local s))"
proof (cases "role_of s = Leader")
  case True
  let ?n = "cr_local s" and ?k = "pos_index (last_position s)"
  have each: "quiet s (for_each (heartbeat_peer H ?k) ps) (\<lambda>ys. \<Union>y \<in> set ys. sends_of ?n y)" for ps
  proof (rule quiet_for_each)
    fix x s' assume f: "frame s s'"
    then show "quiet s' (heartbeat_peer H ?k x) (sends_of ?n)"
      using heartbeat_peer_quiet[OF frame_log[OF f ok], of ?k x] frame_local[OF f] by simp
  qed
  have "quiet s (cbind (for_each (heartbeat_peer H ?k) ps) (\<lambda>effects. ret (concat effects))) (sends_of ?n)" for ps
  proof (rule quiet_bind[OF each])
    fix x s' assume "finite (\<Union>y \<in> set x. sends_of ?n y)" "(\<Union>y \<in> set x. sends_of ?n y) \<subseteq> leader_sends (cr_local s') (abs_core s')"
    moreover have "sends_of ?n (concat x) = (\<Union>y \<in> set x. sends_of ?n y)" by (auto simp: sends_of_def)
    ultimately show "quiet s' (ret (concat x)) (sends_of ?n)" by simp
  qed
  then show ?thesis using True by (simp add: quiet_def heartbeat_def)
qed (simp add: quiet_def heartbeat_def)

section \<open>Results\<close>

text \<open>The same statement for a result, from any replica.\<close>

definition achieves ::
  "(bytes \<Rightarrow> bytes) \<Rightarrow> bool \<Rightarrow> network \<Rightarrow> active_quorum_plan \<Rightarrow> node_id \<Rightarrow> replica \<Rightarrow> ('a \<Rightarrow> network) \<Rightarrow>
     (core_error + 'a) \<times> core \<Rightarrow> bool" where
  "achieves H phased N plan n r S rs \<longleftrightarrow>
     node_ok H phased N (snd rs) \<and> cr_local (snd rs) = n \<and>
     (\<exists>out. runs phased (active_satisfies plan Election) (active_satisfies plan Commit) n N r (abs_core (snd rs)) out \<and>
        (\<forall>x. fst rs = Inr x \<longrightarrow> S x \<subseteq> out))"

lemma refines_achieves: "refines H phased N plan s m S = achieves H phased N plan (cr_local s) (abs_core s) S (m s)"
  by (simp add: refines_def achieves_def)

lemma achieves_runs:
  assumes "runs phased (active_satisfies plan Election) (active_satisfies plan Commit) n N r r' out"
    "achieves H phased N plan n r' S rs" "\<And>x. S' x \<subseteq> out \<union> S x"
  shows "achieves H phased N plan n r S' rs"
proof -
  obtain out' where o: "node_ok H phased N (snd rs)" "cr_local (snd rs) = n"
    "runs phased (active_satisfies plan Election) (active_satisfies plan Commit) n N r' (abs_core (snd rs)) out'"
    "\<forall>x. fst rs = Inr x \<longrightarrow> S x \<subseteq> out'"
    using assms(2) unfolding achieves_def by blast
  have "\<forall>x. fst rs = Inr x \<longrightarrow> S' x \<subseteq> out \<union> out'"
    using o(4) assms(3) by blast
  then show ?thesis
    unfolding achieves_def using o(1,2) runs_trans[OF assms(1) o(3)] by blast
qed

lemma achieves_here:
  assumes "node_ok H phased N s'" "cr_local s' = n" "abs_core s' = r" "\<And>x. res = Inr x \<Longrightarrow> S x = {}"
  shows "achieves H phased N plan n r S (res, s')"
  unfolding achieves_def using assms runs_refl by fastforce

lemma achieves_action:
  assumes "action (active_satisfies plan Election) (active_satisfies plan Commit) n N r (abs_core s') sends"
    "node_ok H phased N s'" "cr_local s' = n" "\<And>x. res = Inr x \<Longrightarrow> S x \<subseteq> sends"
  shows "achieves H phased N plan n r S (res, s')"
  unfolding achieves_def using assms runs_action[OF assms(1)] by (metis fst_conv snd_conv)

lemma achieves_if:
  "(b \<Longrightarrow> achieves H phased N plan n r S x) \<Longrightarrow> (\<not> b \<Longrightarrow> achieves H phased N plan n r S y) \<Longrightarrow>
     achieves H phased N plan n r S (if b then x else y)"
  by simp

lemma achieves_sum:
  "(\<And>e. m = Inl e \<Longrightarrow> achieves H phased N plan n r S (f e)) \<Longrightarrow> (\<And>x. m = Inr x \<Longrightarrow> achieves H phased N plan n r S (g x)) \<Longrightarrow>
     achieves H phased N plan n r S (case m of Inl e \<Rightarrow> f e | Inr x \<Rightarrow> g x)"
  by (cases m) simp_all

lemma achieves_pair:
  "(\<And>a b. x = (a, b) \<Longrightarrow> achieves H phased N plan n r S (f a b)) \<Longrightarrow>
     achieves H phased N plan n r S (case x of (a, b) \<Rightarrow> f a b)"
  by (cases x) simp

lemma refines_error:
  "node_ok H phased N s \<Longrightarrow> m s = (Inl e, s) \<Longrightarrow> refines H phased N plan s m S"
  by (auto simp: refines_achieves intro!: achieves_here)

lemma refines_silent:
  "node_ok H phased N s \<Longrightarrow> m s = (Inr x, s) \<Longrightarrow> S x = {} \<Longrightarrow> refines H phased N plan s m S"
  by (auto simp: refines_achieves intro!: achieves_here)

lemma node_okD:
  assumes "node_ok H phased N s"
  shows "log_ok H (cr_log s)" "e \<in> set (cr_log s) \<Longrightarrow> entry_term e \<le> cr_current_term s"
    "cr_applied_index s \<le> cr_commit_index s" "cr_commit_index s \<le> length (cr_log s)"
    "cr_role s = LeaderState l \<Longrightarrow> fmlookup (ls_matched l) (cr_local s) = Some (length (cr_log s))"
    "cr_history s \<noteq> fmempty \<Longrightarrow> phased" "pending_ok H phased N s"
  using assms by (auto simp: node_ok_def)

lemma pending_ok_None [simp]: "cr_pending s = None \<Longrightarrow> pending_ok H phased N s"
  by (simp add: pending_ok_def)

lemma begin_refines:
  assumes ok: "node_ok H phased N s" and a: "action_ok_for H phased N s m a"
    and m: "\<not> activates a \<Longrightarrow> mutation_ok H s m"
  shows "refines H phased N plan s (begin_persistence m a) (sends_of n)"
proof (cases "checked_add u64_max (cr_next_persistence_id s) 1")
  case None
  then show ?thesis
    by (intro refines_error[OF ok]) (simp only: begin_persistence_def None option.case)
next
  case (Some k)
  let ?p = "\<lparr>pend_id = PersistenceId (cr_next_persistence_id s), pend_mutation = m, pend_action = a\<rparr>"
  let ?s = "s\<lparr>cr_next_persistence_id := k, cr_pending := Some ?p\<rparr>"
  have al: "alike s ?s" by (simp add: alike_def)
  have "pending_ok H phased N ?s"
    using a m by (simp add: pending_ok_def alike_action_ok[OF al] alike_new(4)[OF al])
  then have "node_ok H phased N ?s"
    using ok by (simp add: node_ok_def)
  then show ?thesis
    using alike_abs[OF al] unfolding refines_achieves begin_persistence_def Some option.case
    by (intro achieves_here) auto
qed

section \<open>Read barriers\<close>

lemma complete_read_barriers_frame:
  "frame s (snd (complete_read_barriers s)) \<and> sends_of n (fst (complete_read_barriers s)) = {}"
proof (cases "commit_is_current s")
  case True
  have "sends_of n (map (\<lambda>(i, b). ReadBarrierReady i (f b)) xs) = {}" for f and xs :: "(read_barrier_id \<times> read_barrier_state) list"
    by (induction xs) auto
  then show ?thesis
    using True by (cases "cr_role s") (simp_all add: complete_read_barriers_def Let_def frame_set_leader)
qed (simp add: complete_read_barriers_def)

lemma acknowledge_read_barrier_quiet: "quiet s (acknowledge_read_barrier from rb) (sends_of n)"
proof -
  have "frame s (snd (complete_read_barriers (set_leader l' s)))"
    if "cr_role s = LeaderState l" "ls_matched l' = ls_matched l" for l l'
    using frame_trans[OF frame_set_leader[OF that]] complete_read_barriers_frame by blast
  then show ?thesis
    using complete_read_barriers_frame
    by (auto simp: quiet_def acknowledge_read_barrier_def Let_def case_prod_beta split: option.splits role_state.splits)
qed

lemma begin_read_barrier_quiet:
  assumes ok: "log_ok H (cr_log s)"
  shows "quiet s (begin_read_barrier H i) (sends_of (cr_local s))"
proof (cases "cr_role s")
  case (LeaderState l)
  let ?c = "active_satisfies (cr_active_plan s) Read {|cr_local s|}"
  let ?req = "case entry s (cr_commit_index s) of None \<Rightarrow> None
     | Some e \<Rightarrow> if entry_term e = cr_current_term s then Some (entry_index e) else None"
  let ?s = "set_leader (l\<lparr>ls_read_barriers := fmupd i
     \<lparr>rb_acknowledgements = {|cr_local s|}, rb_required_applied_index = ?req, rb_quorum_confirmed = ?c\<rparr>
       (ls_read_barriers l)\<rparr>) s"
  have f: "frame s ?s" by (rule frame_set_leader[OF LeaderState]) simp
  consider "begin_read_barrier H i s = (Inl InvalidInput, s)"
    | "begin_read_barrier H i s = (let (effects, s'') = complete_read_barriers ?s in (Inr effects, s''))"
    | "begin_read_barrier H i s = for_each (\<lambda>peer. probe_effect H peer Contact (Some i)) (btree_iter (peers ?s)) ?s"
    unfolding begin_read_barrier_def Let_def LeaderState role_state.case by presburger
  then show ?thesis
  proof cases
    case 2
    then show ?thesis
      using complete_read_barriers_frame[of ?s] frame_trans[OF f] by (simp add: quiet_def case_prod_beta Let_def)
  next
    case 3
    then show ?thesis
      using probes_quiet[OF frame_log[OF f ok], of Contact "Some i" "btree_iter (peers ?s)"]
        frame_trans[OF f] frame_abs[OF f] frame_local[OF f] by (simp add: quiet_def)
  qed (simp add: quiet_def)
qed (simp_all add: quiet_def begin_read_barrier_def Let_def)

lemma cancel_read_barrier_quiet: "quiet s (cancel_read_barrier i) (sends_of n)"
  by (auto simp: quiet_def cancel_read_barrier_def frame_set_leader split: role_state.splits)

lemma applied_through_refines:
  assumes ok: "node_ok H phased N s" and p: "cr_pending s = None"
  shows "refines H phased N plan s (applied_through k) (sends_of n)"
proof (cases "k < cr_applied_index s \<or> k > cr_commit_index s")
  case True
  then show ?thesis by (intro refines_error[OF ok]) (simp add: applied_through_def)
next
  case False
  let ?s = "s\<lparr>cr_applied_index := k\<rparr>"
  have "node_ok H phased N ?s"
    using ok False p by (simp add: node_ok_def)
  then have "node_ok H phased N (snd (complete_read_barriers ?s))"
    using frame_node_ok complete_read_barriers_frame by blast
  moreover have "cr_local (snd (complete_read_barriers ?s)) = cr_local s" "abs_core (snd (complete_read_barriers ?s)) = abs_core s"
    using complete_read_barriers_frame[of ?s] frame_local[of ?s] frame_abs[of ?s] by (auto simp: abs_core_def)
  moreover have "applied_through k s = (Inr (fst (complete_read_barriers ?s)), snd (complete_read_barriers ?s))"
    using False by (simp add: applied_through_def case_prod_beta)
  ultimately show ?thesis
    using complete_read_barriers_frame[of ?s n] unfolding refines_achieves by (intro achieves_here | simp)+
qed

end
