(* ===== verification/Core_Handlers.thy ===== *)
theory Core_Handlers
  imports Core_Refinement
begin

text \<open>
  Every handler of the consensus core refines the replication protocol: campaigns and votes, entries from a
  leader, committed prefixes and historical replay, responses, proposals and plan activation. A handler that
  stages a durable mutation changes nothing the protocol sees and records what its completion will do.
\<close>

section \<open>Commit by a leader\<close>

lemma commit_scan_found:
  assumes "log_ok H (cr_log s)" "commit_scan matched s ks = Inr (Some i)"
  shows "i \<in> set ks" "entry s i = Some (cr_log s ! (i - 1))" "entry_term (cr_log s ! (i - 1)) = cr_current_term s"
    "active_satisfies (cr_active_plan s) Commit (acknowledged_through matched i)"
proof -
  have "i \<in> set ks \<and> entry s i = Some (cr_log s ! (i - 1)) \<and> entry_term (cr_log s ! (i - 1)) = cr_current_term s \<and>
    active_satisfies (cr_active_plan s) Commit (acknowledged_through matched i)"
    using assms(2)
  proof (induction ks)
    case (Cons k ks)
    then show ?case
      using entry_Some[OF assms(1)] by (auto split: option.splits if_splits)
  qed simp
  then show "i \<in> set ks" "entry s i = Some (cr_log s ! (i - 1))" "entry_term (cr_log s ! (i - 1)) = cr_current_term s"
    "active_satisfies (cr_active_plan s) Commit (acknowledged_through matched i)"
    by auto
qed

lemma commit_effects_silent: "commit_effects s k = Inr es \<Longrightarrow> sends_of n es = {}"
  by (auto simp: commit_effects_def result_simps split: if_splits)

lemma advance_leader_commit_refines:
  assumes ok: "node_ok H phased N s" and p: "cr_pending s = None" and plan: "cr_active_plan s = plan"
  shows "refines H phased N plan s advance_leader_commit (sends_of n)"
proof (cases "cr_role s")
  case (LeaderState l)
  let ?ks = "rev [cr_commit_index s + 1 ..< Suc (pos_index (last_position s))]"
  note log = node_okD(1)[OF ok]
  show ?thesis
  proof (cases "commit_scan (ls_matched l) s ?ks")
    case (Inl e)
    then show ?thesis
      using LeaderState by (intro refines_error[OF ok]) (simp add: advance_leader_commit_def)
  next
    case (Inr found)
    show ?thesis
    proof (cases found)
      case None
      then show ?thesis
        using LeaderState Inr ok commit_effects_silent[of s]
        by (auto simp: refines_achieves advance_leader_commit_def Let_def intro!: achieves_here)
    next
      case (Some i)
      let ?s = "s\<lparr>cr_commit_index := i\<rparr>"
      note f = commit_scan_found[OF log Inr[unfolded Some]]
      have i: "cr_commit_index s < i" "i \<le> length (cr_log s)"
        using f(1) last_position_index[OF log] by auto
      have "action (active_satisfies plan Election) (active_satisfies plan Commit) (cr_local s) N (abs_core s)
          ((abs_core s)\<lparr>rp_commit := i\<rparr>) {}"
      proof (rule advance)
        show "rp_role (abs_core s) = RLeader (\<lambda>m. lookup_or 0 m (ls_matched l))" using LeaderState by simp
        show "\<forall>m. m |\<in>| acknowledged_through (ls_matched l) i \<longrightarrow> i \<le> lookup_or 0 m (ls_matched l)"
          by (simp add: acknowledged_through_def)
      qed (use i f plan in simp_all)
      moreover have "(abs_core s)\<lparr>rp_commit := i\<rparr> = abs_core ?s" by (simp add: abs_core_def)
      moreover have "node_ok H phased N ?s"
        using ok i p by (simp add: node_ok_def)
      moreover have "advance_leader_commit s = (commit_effects ?s (cr_commit_index s), ?s)"
        using LeaderState Inr Some by (simp add: advance_leader_commit_def Let_def)
      ultimately show ?thesis
        unfolding refines_achieves using commit_effects_silent[of ?s "cr_commit_index s"] by (simp add: achieves_action)
    qed
  qed
qed (use ok in \<open>auto simp: advance_leader_commit_def intro!: refines_silent\<close>)

section \<open>Elections\<close>

lemma fold_entry_or_insert:
  "fmlookup (fold (\<lambda>m. entry_or_insert m (v m)) xs f) k =
     (case fmlookup f k of Some x \<Rightarrow> Some x | None \<Rightarrow> if k \<in> set xs then Some (v k) else None)"
  by (induction xs arbitrary: f) (auto simp: fmlookup_entry_or_insert split: option.splits)

lemma initial_matched:
  "fmlookup (ls_matched (initial_leader_state s k n)) m =
     (if m = cr_local s then Some k else if m |\<in>| core_members s then Some 0 else None)"
  by (simp add: initial_leader_state_def fold_entry_or_insert)

lemma become_leader_refines:
  assumes ok: "node_ok H phased N s" and p: "cr_pending s = None" and plan: "cr_active_plan s = plan"
    and V: "cr_role s = CandidateState V" "active_satisfies plan Election V"
  shows "refines H phased N plan s (become_leader H) (sends_of (cr_local s))"
proof (cases "checked_add u64_max (length (cr_log s)) 1")
  case None
  then show ?thesis
    by (intro refines_error[OF ok])
      (simp only: become_leader_def Let_def last_position_index[OF node_okD(1)[OF ok]] None option.case)
next
  case (Some next_index)
  note log = node_okD(1)[OF ok]
  let ?k = "length (cr_log s)"
  let ?s = "s\<lparr>cr_role := LeaderState (initial_leader_state s ?k next_index), cr_leader_id := Some (cr_local s)\<rparr>"
  let ?sends = "for_each (\<lambda>peer. probe_effect H peer Replication None) (btree_iter (peers ?s))"
  have "abs_core ?s = (abs_core s)\<lparr>rp_role := RLeader (\<lambda>m. if m = cr_local s then length (rp_log (abs_core s)) else 0)\<rparr>"
    by (simp add: abs_core_def lookup_or_def initial_matched fun_eq_iff)
  then have a: "action (active_satisfies plan Election) (active_satisfies plan Commit) (cr_local s) N (abs_core s) (abs_core ?s) {}"
    using take_office[of "abs_core s" V "active_satisfies plan Election"] V by simp
  have ok': "node_ok H phased N ?s"
    using ok p by (simp add: node_ok_def initial_matched)
  have "quiet ?s (cbind ?sends (\<lambda>sends. ret (RoleChanged Leader (cr_current_term s) # sends))) (sends_of (cr_local s))"
    using probes_quiet[of H ?s Replication None "btree_iter (peers ?s)"] log by (intro quiet_bind) auto
  then have "achieves H phased N plan (cr_local s) (abs_core ?s) (sends_of (cr_local s))
      (cbind ?sends (\<lambda>sends. ret (RoleChanged Leader (cr_current_term s) # sends)) ?s)"
    using quiet_refines[OF _ ok'] by (simp add: refines_achieves)
  moreover have "become_leader H s = cbind ?sends (\<lambda>sends. ret (RoleChanged Leader (cr_current_term s) # sends)) ?s"
    unfolding become_leader_def Let_def last_position_index[OF log] Some option.case by (rule refl)
  ultimately show ?thesis
    unfolding refines_achieves using achieves_runs[OF runs_action[OF a]] by (metis Un_empty_left order_refl)
qed

lemma mutation_vote:
  assumes "log_ok H (cr_log s)" "cr_current_term s < t \<or> t = cr_current_term s \<and> 0 < t \<and> cr_voted_for s \<in> {None, v}"
  shows "mutation_ok H s (vote_mutation t v)"
  using assms by (auto simp: mutation_ok_def vote_mutation_def new_term_def new_vote_def new_log_def mutated_log_def)

lemma start_election_refines:
  assumes ok: "node_ok H phased N s"
  shows "refines H phased N plan s start_election (sends_of n)"
proof -
  have "refines H phased N plan s (begin_persistence (vote_mutation (Suc (cr_current_term s)) (Some (cr_local s))) Campaign) (sends_of n)"
    using ok mutation_vote[OF node_okD(1)[OF ok], of "Suc (cr_current_term s)"]
    by (intro begin_refines) (auto simp: action_ok_for_def)
  then show ?thesis
    using ok unfolding start_election_def refines_achieves
    by (auto simp: checked_add_def intro!: achieves_here)
qed

lemma step_down_refines:
  assumes ok: "node_ok H phased N s" and t: "cr_current_term s < t"
  shows "refines H phased N plan s (persist_step_down t) (sends_of n)"
  unfolding persist_step_down_def
  using ok t mutation_vote[OF node_okD(1)[OF ok], of t None]
  by (intro begin_refines) (auto simp: action_ok_for_def)

lemma vote_response_refines:
  assumes ok: "node_ok H phased N s" and p: "cr_pending s = None" and plan: "cr_active_plan s = plan"
    and net: "abs_message from (cr_local s) (VoteResponse response) \<subseteq> N"
  shows "refines H phased N plan s (vote_response_received H from response) (sends_of (cr_local s))"
proof -
  let ?achieves = "achieves H phased N plan (cr_local s) (abs_core s) (sends_of (cr_local s))"
  have here: "?achieves (Inl e, s)" "?achieves (Inr [], s)" for e
    using ok by (auto intro: achieves_here)
  have down: "?achieves (persist_step_down (vres_term response) s)" if "cr_current_term s < vres_term response"
    using step_down_refines[OF ok that] by (simp add: refines_achieves)
  have count: "?achieves (if active_satisfies plan Election V' then become_leader H (s\<lparr>cr_role := CandidateState V'\<rparr>)
      else (Inr [], s\<lparr>cr_role := CandidateState V'\<rparr>))"
    if V: "cr_role s = CandidateState V" "vres_term response = cr_current_term s"
      "V' = (if vres_granted response then finsert from V else V)" for V V'
  proof -
    let ?s = "s\<lparr>cr_role := CandidateState V'\<rparr>"
    have ok': "node_ok H phased N ?s"
      using ok p by (simp add: node_ok_def)
    have r: "runs phased (active_satisfies plan Election) (active_satisfies plan Commit) (cr_local s) N (abs_core s) (abs_core ?s) {}"
    proof (cases "vres_granted response")
      case True
      then have "action (active_satisfies plan Election) (active_satisfies plan Commit) (cr_local s) N (abs_core s)
          ((abs_core s)\<lparr>rp_role := RCandidate (finsert from V)\<rparr>) {}"
        using net V(1,2) by (intro tally) auto
      moreover have "(abs_core s)\<lparr>rp_role := RCandidate (finsert from V)\<rparr> = abs_core ?s"
        using True V(3) by (simp add: abs_core_def)
      ultimately show ?thesis using runs_action by metis
    next
      case False
      then have "abs_core ?s = abs_core s" using V(1,3) by (simp add: abs_core_def)
      then show ?thesis using runs_refl by metis
    qed
    have "achieves H phased N plan (cr_local s) (abs_core ?s) (sends_of (cr_local s))
       (if active_satisfies plan Election V' then become_leader H ?s else (Inr [], ?s))"
      using become_leader_refines[OF ok', of plan V'] p plan ok' by (auto simp: refines_achieves intro!: achieves_here)
    then show ?thesis
      by (rule achieves_runs[OF r]) simp
  qed
  show ?thesis
    unfolding refines_achieves vote_response_received_def Let_def
    using here down count plan by (auto split: sum.split role_state.split)
qed

section \<open>Vote requests and historical replay\<close>

lemma last_index_take:
  assumes "log_ok H log" "p + length es \<le> length log" "es = take (length es) (drop p log)" "es \<noteq> []"
  shows "entry_index (last es) = p + length es"
proof -
  let ?i = "length es - 1"
  have i: "?i < length es" using assms(4) by simp
  have "last es = es ! ?i" using assms(4) by (simp add: last_conv_nth)
  also have "\<dots> = take (length es) (drop p log) ! ?i" using assms(3) by (rule arg_cong)
  also have "\<dots> = log ! (p + ?i)" using i assms(2) by simp
  finally have "last es = log ! (p + ?i)" .
  then show ?thesis using assms(1,2) i by (simp add: log_ok_def)
qed

lemma replay_prefix_shape:
  assumes ok: "node_ok H phased N s" and r: "replay_membership_prefix H s peer response = Inr effects"
  shows "phased \<and> (\<exists>p j. p + j \<le> cr_commit_index s \<and>
    sends_of n effects = {(n, peer, MPrefix (last_pos (take p (cr_log s))) (take j (drop p (cr_log s))) (p + j))})"
proof -
  note log = node_okD(1)[OF ok]
  obtain b where b: "history_find (ares_membership_epoch response) (ares_plan_digest response) (cr_history s) = Some b"
    and hint: "ares_next_index_hint response \<noteq> 0"
    and bound: "pos_index (pb_committed_position b) \<le> cr_applied_index s"
    using r unfolding replay_membership_prefix_def by (auto simp: result_simps split: if_splits)
  let ?k = "pos_index (pb_committed_position b)"
  let ?next = "min (ares_next_index_hint response) (saturating_add u64_max ?k 1)"
  let ?out = "\<lambda>previous digest. [Send peer (CommittedPrefix
     \<lparr>pre_previous = previous, pre_previous_digest = digest, pre_entries = replication_entries s peer ?next ?k,
      pre_committed_index = min (case last_opt (replication_entries s peer ?next ?k) of
          None \<Rightarrow> pos_index previous | Some e \<Rightarrow> entry_index e) ?k,
      pre_membership_epoch = active_membership_epoch (pb_plan b),
      pre_plan_digest = active_proof_digest (pb_plan b)\<rparr>)]"
  have "try_r (if ?next = 1 then Inr GENESIS else try_r (ok_or InvalidInput (entry s (?next - 1))) (\<lambda>e. Inr (le_position e)))
     (\<lambda>previous. try_r (if previous = GENESIS then Inr ZERO_DIGEST
        else try_r (ok_or InvalidInput (entry s (pos_index previous))) (\<lambda>e. Inr (entry_digest H e)))
     (\<lambda>digest. Inr (?out previous digest))) = Inr effects"
    using r b unfolding replay_membership_prefix_def Let_def by (auto simp: result_simps split: if_splits)
  then obtain previous digest where
    prev: "(if ?next = 1 then Inr GENESIS else try_r (ok_or InvalidInput (entry s (?next - 1))) (\<lambda>e. Inr (le_position e))) = Inr previous"
    and eff: "effects = ?out previous digest"
    by (simp only: try_r_Inr sum.inject) blast
  have "0 < min (ares_next_index_hint response) (saturating_add u64_max ?k 1)"
    using hint by (simp add: saturating_add_def u64_max_def)
  then obtain p where p: "min (ares_next_index_hint response) (saturating_add u64_max ?k 1) = Suc p"
    by (metis Suc_pred)
  then have pk: "p \<le> ?k" by (simp add: saturating_add_def min_def split: if_splits)
  have previous: "previous = last_pos (take p (cr_log s))"
  proof (cases "p = 0")
    case True
    then show ?thesis using prev p by (simp add: last_pos_def)
  next
    case False
    then obtain e where "entry s p = Some e" "previous = le_position e"
      using prev p by (auto simp: result_simps)
    then show ?thesis using last_pos_entry[OF log] by simp
  qed
  define es where "es = replication_entries s peer (Suc p) ?k"
  obtain j where j: "es = take j (drop p (cr_log s))" "p + j \<le> ?k"
    using replication_entries_take[OF log, of peer p ?k] pk es_def by auto
  have len: "?k \<le> cr_commit_index s" "?k \<le> length (cr_log s)" "p + length es \<le> ?k"
    using bound node_okD(3,4)[OF ok] j by auto
  have es: "es = take (length es) (drop p (cr_log s))" using j(1) by (auto simp: min_def)
  have pidx: "pos_index previous = p"
    using previous last_position_index[of H "s\<lparr>cr_log := take p (cr_log s)\<rparr>"] log_ok_take[OF log] len pk
    by (simp add: last_position_last_pos)
  have "(case last_opt es of None \<Rightarrow> pos_index previous | Some e \<Rightarrow> entry_index e) = p + length es"
  proof (cases "es = []")
    case True
    then show ?thesis using pidx by simp
  next
    case False
    then have "last_opt es = Some (last es)" by (metis append_butlast_last_id last_opt_snoc)
    then show ?thesis using last_index_take[OF log _ es False] len by simp
  qed
  then have "sends_of n effects = {(n, peer, MPrefix (last_pos (take p (cr_log s))) es (p + length es))}"
    using eff p previous len(3) es_def by (simp add: min_absorb1)
  then have "sends_of n effects =
      {(n, peer, MPrefix (last_pos (take p (cr_log s))) (take (length es) (drop p (cr_log s))) (p + length es))}"
    using es by simp
  moreover have "cr_history s \<noteq> fmempty" using b by (auto simp: history_find_def)
  moreover have "p + length es \<le> cr_commit_index s" using len by simp
  ultimately show ?thesis using node_okD(6)[OF ok] by blast
qed

lemma replay_prefix_achieves:
  assumes ok: "node_ok H phased N s"
  shows "achieves H phased N plan (cr_local s) (abs_core s) (sends_of (cr_local s)) (replay_membership_prefix H s peer response, s)"
proof (cases "replay_membership_prefix H s peer response")
  case (Inl e)
  then show ?thesis using ok by (auto intro!: achieves_here)
next
  case (Inr effects)
  obtain p j where pj: "phased" "p + j \<le> cr_commit_index s"
    "sends_of (cr_local s) effects = {(cr_local s, peer, MPrefix (last_pos (take p (cr_log s))) (take j (drop p (cr_log s))) (p + j))}"
    using replay_prefix_shape[OF ok Inr, of "cr_local s"] by blast
  have "node_action phased (active_satisfies plan Election) (active_satisfies plan Commit) (cr_local s) N (abs_core s) (abs_core s)
      {(cr_local s, peer, MPrefix (last_pos (take p (rp_log (abs_core s)))) (take j (drop p (rp_log (abs_core s)))) (p + j))}"
    by (rule replay) (use pj in simp_all)
  then show ?thesis
    using runs_one[of phased] ok pj(3) unfolding achieves_def Inr by fastforce
qed

lemma notice_silent [simp]: "effect_sends n (membership_notice_effect s to) = {}"
  by (simp add: membership_notice_effect_def membership_notice_def)

lemma vote_request_refines:
  assumes ok: "node_ok H phased N s"
    and net: "abs_message from (cr_local s) (VoteRequest request) \<subseteq> N"
  shows "refines H phased N plan s (vote_request_received H from request) (sends_of (cr_local s))"
proof -
  let ?achieves = "achieves H phased N plan (cr_local s) (abs_core s) (sends_of (cr_local s))"
  have here: "?achieves (Inl e, s)" "?achieves (Inr [membership_notice_effect s from], s)"
    "?achieves (Inr [vote_effect s from False], s)" for e
    using ok by (auto intro!: achieves_here simp: vote_effect_def)
  have stale: "?achieves (vote_request_stale H s from request, s)"
  proof (cases "vote_request_stale H s from request")
    case (Inr effects)
    then have "effects = [membership_notice_effect s from] \<or>
        (\<exists>response. replay_membership_prefix H s from response = Inr effects)"
      unfolding vote_request_stale_def by (auto simp: result_simps split: if_splits)
    then show ?thesis using here replay_prefix_achieves[OF ok, of plan "from"] Inr by metis
  qed (simp add: here)
  have again: "?achieves (Inr [vote_effect s from True], s)"
    if "vreq_term request = cr_current_term s" "cr_voted_for s = Some from"
      "position_le (last_position s) (vreq_last_log request)"
  proof -
    have "action (active_satisfies plan Election) (active_satisfies plan Commit) (cr_local s) N (abs_core s)
       ((abs_core s)\<lparr>rp_term := vreq_term request, rp_vote := Some from, rp_role := rp_role (abs_core s)\<rparr>)
       {(cr_local s, from, MVote (vreq_term request))}"
      by (rule vote[where pos = "vreq_last_log request"]) (use net that in \<open>simp_all add: last_position_last_pos\<close>)
    moreover have "(abs_core s)\<lparr>rp_term := vreq_term request, rp_vote := Some from, rp_role := rp_role (abs_core s)\<rparr> = abs_core s"
      using that by (simp add: abs_core_def)
    ultimately have a: "action (active_satisfies plan Election) (active_satisfies plan Commit) (cr_local s) N (abs_core s)
       (abs_core s) {(cr_local s, from, MVote (vreq_term request))}" by metis
    show ?thesis
      using that by (intro achieves_action[OF a ok]) (auto simp: vote_effect_def)
  qed
  have persist: "?achieves (begin_persistence (vote_mutation (vreq_term request) (if granted then Some from else None)) (VoteReply from granted) s)"
    if t: "vreq_term request \<noteq> 0" "\<not> vreq_term request < cr_current_term s"
      and g: "granted = (position_le (last_position s) (vreq_last_log request) \<and>
        (vreq_term request > cr_current_term s \<or> cr_voted_for s = None \<or> cr_voted_for s = Some from))"
      and b: "vreq_term request > cr_current_term s \<or> granted \<and> cr_voted_for s \<noteq> Some from" for granted
  proof -
    let ?v = "if granted then Some from else None"
    have c: "cr_current_term s < vreq_term request \<or> vreq_term request = cr_current_term s \<and> cr_voted_for s = None \<and> granted"
      using t(2) g b by auto
    have "mutation_ok H s (vote_mutation (vreq_term request) ?v)"
      by (rule mutation_vote[OF node_okD(1)[OF ok]]) (use t(1) c in auto)
    moreover have "action_ok_for H phased N s (vote_mutation (vreq_term request) ?v) (VoteReply from granted)"
    proof (cases granted)
      case True
      then have "(from, cr_local s, MVoteRequest (vreq_term request) (vreq_last_log request)) \<in> N"
        "position_le (last_pos (cr_log s)) (vreq_last_log request)"
        using net g by (simp_all add: last_position_last_pos)
      then show ?thesis
        using True c unfolding action_ok_for_def by auto
    next
      case False
      then show ?thesis using c by (auto simp: action_ok_for_def)
    qed
    ultimately show ?thesis
      using begin_refines[OF ok] by (simp add: refines_achieves)
  qed
  show ?thesis
    unfolding refines_achieves vote_request_received_def Let_def
  proof (intro achieves_if achieves_sum here stale persist, goal_cases)
    case (5 inc)
    then have "vreq_term request = cr_current_term s" by linarith
    then show ?case
      using 5 here(3) again by (cases "position_le (last_position s) (vreq_last_log request)") auto
  qed (auto simp: not_less)
qed

section \<open>Entries from a leader\<close>

lemma position_matches_shape:
  assumes "log_ok H (cr_log s)" "position_matches H s prev d" "position_valid prev"
  shows "pos_index prev \<le> length (cr_log s)"
    "pos_index prev = 0 \<or> entry_term (cr_log s ! (pos_index prev - 1)) = pos_term prev"
  using position_matches_bound[OF assms] assms(2)
  by (auto simp: position_matches_def GENESIS_def entry_eq[OF assms(1)] split: if_splits)

lemma log_delta_splice:
  assumes inv: "log_ok H (cr_log s)" and b: "batch_ok H p es" and p: "p \<le> length (cr_log s)"
    and d: "log_delta H s es = Inr (tr, app)"
  shows "splice (cr_log s) p es (mutated_log tr app (cr_log s))"
proof -
  obtain n where n: "n \<le> length es" "app = drop n es" "agrees_upto H (cr_log s) p es n"
    "tr = None \<longrightarrow> app = [] \<or> p + n = length (cr_log s)"
    "\<forall>k. tr = Some k \<longrightarrow> k = Suc (p + n) \<and> n < length es \<and> p + n < length (cr_log s) \<and>
       cr_commit_index s < k \<and> \<not> agree H (cr_log s ! (p + n)) (es ! n)"
    by (rule log_delta_cases[OF inv b p d]) blast
  have terms: "\<forall>i < n. entry_term (cr_log s ! (p + i)) = entry_term (es ! i)"
    using n(3) by (simp add: agrees_upto_def agree_def)
  have pn: "p + n \<le> length (cr_log s)"
    using n(3) p by (cases n) (auto simp: agrees_upto_def)
  have "n = length es \<and> mutated_log tr app (cr_log s) = cr_log s \<or>
    n < length es \<and> mutated_log tr app (cr_log s) = take (p + n) (cr_log s) @ drop n es \<and>
      (p + n = length (cr_log s) \<or> cr_log s ! (p + n) \<noteq> es ! n)"
  proof (cases tr)
    case None
    then show ?thesis
      using n(1,2,4) by (cases "n = length es") (auto simp: mutated_log_def)
  next
    case (Some k)
    then show ?thesis
      using n(2) n(5)[rule_format, OF Some] by (auto simp: mutated_log_def agree_def)
  qed
  then show ?thesis
    unfolding splice_def using n(1) pn terms by blast
qed

lemma append_mutation_simps [simp]:
  "mut_vote_state (append_mutation v tr app) = v" "mut_truncate_from (append_mutation v tr app) = tr"
  "mut_append (append_mutation v tr app) = app" "mut_membership_epoch (append_mutation v tr app) = None"
  "mut_quorum_plan (append_mutation v tr app) = None"
  by (simp_all add: append_mutation_def)

lemma delta_extends:
  assumes ok: "node_ok H phased N s" and b: "batch_ok H (pos_index prev) es"
    and prev: "position_matches H s prev d" "position_valid prev"
    and delta: "log_delta H s es = Inr (tr, app)" and terms: "\<forall>e \<in> set es. entry_term e \<le> t"
    and t: "cr_current_term s \<le> t"
    and m: "m = append_mutation (if cr_current_term s < t then Some (t, None) else None) tr app"
  shows "extends_log s prev es m t" "mutation_ok H s m"
proof -
  note log = node_okD(1)[OF ok] and shape = position_matches_shape[OF node_okD(1)[OF ok] prev]
  have l: "new_log s m = mutated_log tr app (cr_log s)" "new_term s m = t"
    "new_vote s m = (if cr_current_term s < t then None else cr_voted_for s)"
    using t by (auto simp: m new_log_def new_term_def new_vote_def)
  note n = log_delta_new_log[OF log b shape(1) node_okD(4)[OF ok] delta l(1)]
  show "extends_log s prev es m t"
    using shape n(2,3) l(2,3) t log_delta_splice[OF log b shape(1) delta] unfolding extends_log_def l(1) by simp
  have "\<forall>e \<in> set app. entry_term e \<le> t" using n(6) terms by blast
  then show "mutation_ok H s m"
    using n(1,7) l t by (auto simp: mutation_ok_def m)
qed

lemma achieves_accept:
  assumes net: "(ld, n, MAppend t prev es ci) \<in> N" and ext: "extends_log s prev es m t"
    and n: "n = cr_local s" "cr_local s' = n" and ok': "node_ok H phased N s'"
    and s': "cr_current_term s' = t" "cr_voted_for s' = new_vote s m" "cr_log s' = new_log s m" "cr_role s' = FollowerState"
      "cr_commit_index s' = cr_commit_index s \<or>
       cr_commit_index s' = max (cr_commit_index s) (min ci (pos_index prev + length es))"
    and S: "\<And>x. res = Inr x \<Longrightarrow> S x \<subseteq> {(n, ld, MAck t (pos_index prev + length es))}"
  shows "achieves H phased N plan n (abs_core s) S (res, s')"
proof (rule achieves_action[OF _ ok' n(2) S])
  have "action (active_satisfies plan Election) (active_satisfies plan Commit) n N (abs_core s)
     ((abs_core s)\<lparr>rp_term := t, rp_vote := (if rp_term (abs_core s) < t then None else rp_vote (abs_core s)),
        rp_log := new_log s m, rp_commit := cr_commit_index s', rp_role := RFollower\<rparr>)
     {(n, ld, MAck t (pos_index prev + length es))}"
    by (rule accept[OF net _ _ _ _ _ refl]) (use ext s'(5) in \<open>auto simp: extends_log_def\<close>)
  moreover have "(abs_core s)\<lparr>rp_term := t, rp_vote := (if rp_term (abs_core s) < t then None else rp_vote (abs_core s)),
        rp_log := new_log s m, rp_commit := cr_commit_index s', rp_role := RFollower\<rparr> = abs_core s'"
    using s' ext by (simp add: abs_core_def extends_log_def)
  ultimately show "action (active_satisfies plan Election) (active_satisfies plan Commit) n N (abs_core s) (abs_core s')
     {(n, ld, MAck t (pos_index prev + length es))}" by simp
qed

text \<open>A follower's commit index after a batch.\<close>

lemma advance_follower:
  assumes log: "log_ok H (cr_log s)"
  shows "snd (advance_follower_commit k s) = s\<lparr>cr_commit_index := max (min k (length (cr_log s))) (cr_commit_index s)\<rparr>"
    "fst (advance_follower_commit k s) = Inr es \<Longrightarrow> sends_of n es = {}"
  using commit_effects_silent by (auto simp: advance_follower_commit_def Let_def last_position_index[OF log])

lemma cbind_fst:
  "fst (m s) = Inl e \<Longrightarrow> cbind m f s = (Inl e, snd (m s))"
  "fst (m s) = Inr x \<Longrightarrow> cbind m f s = f x (snd (m s))"
  by (cases "m s"; simp add: cbind_def)+

lemma follow_node_ok:
  assumes "log_ok H (cr_log s')" "\<forall>e \<in> set (cr_log s'). entry_term e \<le> cr_current_term s'"
    "cr_applied_index s' \<le> cr_commit_index s'" "cr_commit_index s' \<le> length (cr_log s')" "cr_role s' = FollowerState"
    "cr_history s' \<noteq> fmempty \<longrightarrow> phased" "cr_pending s' = None"
  shows "node_ok H phased N s'"
  using assms by (simp add: node_ok_def)

lemma accepted_reply:
  assumes log: "log_ok H (cr_log s')" and role: "cr_role s' = FollowerState"
    and r: "ares_accepted reply" "ares_matched_index reply = k"
    and rs: "rs = cbind (advance_follower_commit (min ci k)) (\<lambda>effects s''. (Inr (effects @ [append_reply_effect s'' to reply]), s'')) s'"
  shows "snd rs = s'\<lparr>cr_commit_index := max (min (min ci k) (length (cr_log s'))) (cr_commit_index s')\<rparr>"
    "fst rs = Inr x \<Longrightarrow> sends_of n x \<subseteq> {(n, to, MAck (cr_current_term s') k)}"
proof -
  note a = advance_follower[OF log, of "min ci k"]
  show "snd rs = s'\<lparr>cr_commit_index := max (min (min ci k) (length (cr_log s'))) (cr_commit_index s')\<rparr>"
    by (cases "fst (advance_follower_commit (min ci k) s')") (simp_all add: rs cbind_fst a(1))
  assume x: "fst rs = Inr x"
  show "sends_of n x \<subseteq> {(n, to, MAck (cr_current_term s') k)}"
  proof (cases "fst (advance_follower_commit (min ci k) s')")
    case (Inl e)
    then show ?thesis using x by (simp add: rs cbind_fst)
  next
    case (Inr es)
    then have "x = es @ [append_reply_effect (snd (advance_follower_commit (min ci k) s')) to reply]"
      using x by (simp add: rs cbind_fst)
    then show ?thesis using a(1) a(2)[OF Inr] r by (simp add: append_reply_effect_def)
  qed
qed


lemma refused_reply [simp]: "effect_sends n (append_reply_effect s' to (append_reply H s'' request False)) = {}"
  by (simp add: append_reply_effect_def append_reply_def Let_def)

lemma append_reply_accepted [simp]: "ares_accepted (append_reply H s request b) = b"
  by (simp add: append_reply_def Let_def)

lemma append_reply_matched:
  assumes "batch_ok H (pos_index (areq_previous request)) (areq_entries request)"
  shows "ares_matched_index (append_reply H s request True) =
    pos_index (areq_previous request) + length (areq_entries request)"
proof (cases "areq_entries request" rule: rev_cases)
  case (snoc xs e)
  then have "entry_index e = Suc (pos_index (areq_previous request) + length xs)"
    using assms by (simp add: batch_ok_append batch_ok_Cons)
  then show ?thesis using snoc by (simp add: append_reply_def Let_def)
qed (simp add: append_reply_def Let_def)

lemma follow_leader_simps [simp]:
  "cr_config (follow_leader l s) = cr_config s" "cr_active_plan (follow_leader l s) = cr_active_plan s"
  "cr_history (follow_leader l s) = cr_history s" "cr_current_term (follow_leader l s) = cr_current_term s"
  "cr_voted_for (follow_leader l s) = cr_voted_for s" "cr_log (follow_leader l s) = cr_log s"
  "cr_commit_index (follow_leader l s) = cr_commit_index s" "cr_applied_index (follow_leader l s) = cr_applied_index s"
  "cr_role (follow_leader l s) = FollowerState" "cr_pending (follow_leader l s) = cr_pending s"
  by (simp_all add: follow_leader_def)

lemma follow_achieves:
  assumes ok: "node_ok H phased N s" and p: "cr_pending s = None" and S: "\<And>x. res = Inr x \<Longrightarrow> S x = {}"
  shows "achieves H phased N plan (cr_local s) (abs_core s) S (res, follow_leader l s)"
proof (rule achieves_action)
  have "action (active_satisfies plan Election) (active_satisfies plan Commit) (cr_local s) N (abs_core s)
    ((abs_core s)\<lparr>rp_term := cr_current_term s,
      rp_vote := (if rp_term (abs_core s) < cr_current_term s then None else rp_vote (abs_core s)), rp_role := RFollower\<rparr>) {}"
    by (rule step_down) simp
  then show "action (active_satisfies plan Election) (active_satisfies plan Commit) (cr_local s) N (abs_core s)
    (abs_core (follow_leader l s)) {}"
    by (simp add: abs_core_def)
  show "node_ok H phased N (follow_leader l s)"
    using ok p by (intro follow_node_ok) (auto simp: node_ok_def)
qed (simp_all add: S)

lemma unchanged_extends:
  assumes "node_ok H phased N s" "batch_ok H (pos_index prev) es" "position_matches H s prev d" "position_valid prev"
    "log_delta H s es = Inr (None, [])" "\<forall>e \<in> set es. entry_term e \<le> cr_current_term s"
  shows "extends_log s prev es (append_mutation None None []) (cr_current_term s)"
    "new_log s (append_mutation None None []) = cr_log s" "new_vote s (append_mutation None None []) = cr_voted_for s"
  using delta_extends(1)[OF assms order_refl] by (simp_all add: new_log_def new_vote_def mutated_log_def)

lemma append_request_refines:
  assumes ok: "node_ok H phased N s" and p: "cr_pending s = None"
    and net: "abs_message from (cr_local s) (AppendRequest request) \<subseteq> N"
  shows "refines H phased N plan s (append_request_received H from request) (sends_of (cr_local s))"
proof -
  let ?achieves = "achieves H phased N plan (cr_local s) (abs_core s) (sends_of (cr_local s))"
  let ?t = "areq_term request" and ?prev = "areq_previous request" and ?es = "areq_entries request"
  let ?ci = "areq_leader_commit_index request" and ?s = "follow_leader (Some from) s"
  note log = node_okD(1)[OF ok]
  have net': "(from, cr_local s, MAppend ?t ?prev ?es ?ci) \<in> N" using net by simp
  have here: "?achieves (Inl e, s)" "?achieves (Inr [membership_notice_effect s from], s)"
    "?achieves (Inr [append_reply_effect s from (append_reply H s request False)], s)"
    "?achieves (Inr [append_reply_effect ?s from (append_reply H ?s request False)], ?s)" for e
    using ok p by (auto intro!: achieves_here follow_achieves)
  have persist_down: "?achieves (begin_persistence (vote_mutation ?t None) (AppendReply from from 0 (append_reply H s request False)) s)"
    if "cr_current_term s < ?t"
    unfolding refines_achieves[symmetric]
    by (rule begin_refines[OF ok]) (use mutation_vote[OF log] that in \<open>auto simp: action_ok_for_def\<close>)
  have persist: "?achieves (begin_persistence m (AppendReply from from ?ci (append_reply H s request True)) s)"
    if m: "extends_log s ?prev ?es m ?t" "mutation_ok H s m" "batch_ok H (pos_index ?prev) ?es" for m
    unfolding refines_achieves[symmetric]
    by (rule begin_refines[OF ok])
      (use m net' append_reply_matched[OF m(3)] in \<open>auto simp: action_ok_for_def\<close>)
  have again: "?achieves (cbind (advance_follower_commit (min ?ci (ares_matched_index (append_reply H ?s request True))))
     (\<lambda>effects s''. (Inr (effects @ [append_reply_effect s'' from (append_reply H ?s request True)]), s'')) ?s)" (is "achieves _ _ _ _ _ _ _ ?rs")
    if b: "batch_ok H (pos_index ?prev) ?es" and m: "extends_log s ?prev ?es m ?t"
      and same: "new_log s m = cr_log s" "new_vote s m = cr_voted_for s" "?t = cr_current_term s" for m
  proof -
    let ?k = "pos_index ?prev + length ?es"
    note k = append_reply_matched[OF b]
    have "?rs = cbind (advance_follower_commit (min ?ci ?k))
       (\<lambda>effects s''. (Inr (effects @ [append_reply_effect s'' from (append_reply H ?s request True)]), s'')) ?s"
      by (simp add: k)
    note a = accepted_reply[OF _ _ _ k this]
    have s': "snd ?rs = ?s\<lparr>cr_commit_index := max (min ?ci ?k) (cr_commit_index s)\<rparr>"
    proof -
      have "min (min ?ci ?k) (length (cr_log s)) = min ?ci ?k"
        using m same(1) by (auto simp: extends_log_def)
      then show ?thesis using a(1)[of H] log by simp
    qed
    have "achieves H phased N plan (cr_local s) (abs_core s) (sends_of (cr_local s)) (fst ?rs, snd ?rs)"
    proof (rule achieves_accept[OF net' m refl])
      show "node_ok H phased N (snd ?rs)"
        unfolding s' using ok p m same(1) by (intro follow_node_ok) (auto simp: node_ok_def extends_log_def)
      show "sends_of (cr_local s) x \<subseteq> {(cr_local s, from, MAck ?t ?k)}" if "fst ?rs = Inr x" for x
        using a(2)[of H, OF _ _ _ that] log same(3) by simp
    qed (use s' same in \<open>auto simp: max.commute\<close>)
    then show ?thesis by simp
  qed
  show ?thesis
    unfolding refines_achieves append_request_received_def Let_def
  proof (intro achieves_sum achieves_if achieves_pair here persist_down, goal_cases)
    case (2 u delta tr app)
    then have v: "batch_ok H (pos_index ?prev) ?es" "\<forall>e \<in> set ?es. entry_term e \<le> ?t" "position_valid ?prev"
      using validate_append_entries_Inr[of H request] by (auto simp: result_simps)
    have "cr_current_term s \<le> ?t" using 2(3) by simp
    then show ?case
      using delta_extends[OF ok v(1) _ v(3) _ v(2) _ refl] persist[OF _ _ v(1)] 2(4-6) by simp
  next
    case (3 u delta tr app)
    then have v: "batch_ok H (pos_index ?prev) ?es" "\<forall>e \<in> set ?es. entry_term e \<le> ?t" "position_valid ?prev"
      using validate_append_entries_Inr[of H request] by (auto simp: result_simps)
    have t: "?t = cr_current_term s" "log_delta H s ?es = Inr (None, [])" using 3 by auto
    note u = unchanged_extends[OF ok v(1) _ v(3) t(2)]
    show ?case
      using again[OF v(1)] u v(2) 3(4) t(1) by auto
  qed simp
qed

section \<open>Committed prefixes\<close>

lemma achieves_adopt:
  assumes ph: phased and net: "(ld, n, MPrefix prev es k) \<in> N" and ext: "extends_log s prev es m t"
    and k: "k = pos_index prev + length es"
    and n: "n = cr_local s" "cr_local s' = n" and ok': "node_ok H phased N s'"
    and s': "cr_current_term s' = t" "cr_voted_for s' = new_vote s m" "cr_log s' = new_log s m" "cr_role s' = FollowerState"
      "cr_commit_index s' = cr_commit_index s \<or> cr_commit_index s' = max (cr_commit_index s) k"
    and S: "\<And>x. res = Inr x \<Longrightarrow> S x = {}"
  shows "achieves H phased N plan n (abs_core s) S (res, s')"
proof -
  have "node_action phased (active_satisfies plan Election) (active_satisfies plan Commit) n N (abs_core s)
     ((abs_core s)\<lparr>rp_term := t, rp_vote := (if rp_term (abs_core s) < t then None else rp_vote (abs_core s)),
        rp_log := new_log s m, rp_commit := cr_commit_index s', rp_role := RFollower\<rparr>) {}"
    by (rule adopt[OF ph net _ _ _ _ _ k]) (use ext s'(5) in \<open>auto simp: extends_log_def\<close>)
  moreover have "(abs_core s)\<lparr>rp_term := t, rp_vote := (if rp_term (abs_core s) < t then None else rp_vote (abs_core s)),
        rp_log := new_log s m, rp_commit := cr_commit_index s', rp_role := RFollower\<rparr> = abs_core s'"
    using s' ext by (simp add: abs_core_def extends_log_def)
  ultimately have "runs phased (active_satisfies plan Election) (active_satisfies plan Commit) n N (abs_core s) (abs_core s') {}"
    using runs_one by metis
  then show ?thesis
    unfolding achieves_def using ok' n(2) S by (metis empty_subsetI fst_conv snd_conv)
qed

lemma finish_prefix:
  assumes log: "log_ok H (cr_log s)" and c: "cr_commit_index s \<le> length (cr_log s)" "k \<le> length (cr_log s)"
  shows "snd (finish_committed_prefix src k s) = (follow_leader None s)\<lparr>cr_commit_index := max (cr_commit_index s) k\<rparr>"
    "fst (finish_committed_prefix src k s) = Inr x \<Longrightarrow> sends_of n x = {}"
proof -
  let ?s = "follow_leader None s" and ?k = "max k (cr_commit_index s)"
  note a = advance_follower[of H ?s ?k, simplified, OF log]
  have m: "max (min ?k (length (cr_log s))) (cr_commit_index s) = max (cr_commit_index s) k"
    using c by auto
  show "snd (finish_committed_prefix src k s) = ?s\<lparr>cr_commit_index := max (cr_commit_index s) k\<rparr>"
    by (cases "fst (advance_follower_commit ?k ?s)") (simp_all add: finish_committed_prefix_def cbind_fst a(1) m)
  assume "fst (finish_committed_prefix src k s) = Inr x"
  then show "sends_of n x = {}"
    by (cases "fst (advance_follower_commit ?k ?s)") (auto simp: finish_committed_prefix_def cbind_fst a(2))
qed

lemma finish_prefix_achieves:
  assumes ok: "node_ok H phased N s" and p: "cr_pending s = None" and ph: phased
    and net: "(src, cr_local s, MPrefix prev es k) \<in> N" and ext: "extends_log s prev es m t"
    and m: "mutation_ok H s m" and k: "k = pos_index prev + length es"
    and terms: "\<forall>e \<in> set (new_log s m). entry_term e \<le> t"
    and s': "cr_local s' = cr_local s" "cr_current_term s' = t" "cr_voted_for s' = new_vote s m" "cr_log s' = new_log s m"
      "cr_commit_index s' = cr_commit_index s" "cr_applied_index s' = cr_applied_index s" "cr_history s' = cr_history s"
      "cr_pending s' = None"
  shows "achieves H phased N plan (cr_local s) (abs_core s) (sends_of (cr_local s)) (finish_committed_prefix src k s')"
proof -
  have log: "log_ok H (cr_log s')" using m s'(4) by (simp add: mutation_ok_def)
  have "cr_commit_index s \<le> length (new_log s m)"
    using ext node_okD(4)[OF ok] length_of_take[of "cr_commit_index s" "new_log s m" "cr_log s"]
    by (simp add: extends_log_def)
  then have c: "cr_commit_index s' \<le> length (cr_log s')" "k \<le> length (cr_log s')"
    using ext k s'(4,5) by (simp_all add: extends_log_def)
  note f = finish_prefix[OF log c]
  have okf: "node_ok H phased N (snd (finish_committed_prefix src k s'))"
    unfolding f(1) using log c terms s' node_okD(3)[OF ok] ph by (intro follow_node_ok) auto
  have "achieves H phased N plan (cr_local s) (abs_core s) (sends_of (cr_local s))
      (fst (finish_committed_prefix src k s'), snd (finish_committed_prefix src k s'))"
    by (rule achieves_adopt[OF ph net ext k refl _ okf]) (use f s' in auto)
  then show ?thesis by simp
qed

lemma new_log_terms:
  assumes "node_ok H phased N s" "mutation_ok H s m"
  shows "\<forall>e \<in> set (new_log s m). entry_term e \<le> new_term s m"
proof -
  have "\<forall>e \<in> set (cr_log s). entry_term e \<le> new_term s m" "\<forall>e \<in> set (mut_append m). entry_term e \<le> new_term s m"
    using assms by (auto simp: node_ok_def mutation_ok_def intro: order_trans)
  moreover have "set (new_log s m) \<subseteq> set (cr_log s) \<union> set (mut_append m)"
    by (auto simp: new_log_def mutated_log_def dest: in_set_takeD split: option.splits)
  ultimately show ?thesis by blast
qed

lemma committed_prefix_valid:
  assumes log: "log_ok H (cr_log s)" and v: "validate_committed_prefix H prefix = Inr u"
    and m: "position_matches H s (pre_previous prefix) d"
  shows "batch_ok H (pos_index (pre_previous prefix)) (pre_entries prefix)" "position_valid (pre_previous prefix)"
    "pre_committed_index prefix = pos_index (pre_previous prefix) + length (pre_entries prefix)"
    "\<forall>e \<in> set (pre_entries prefix).
       entry_term e \<le> (case last_opt (pre_entries prefix) of None \<Rightarrow> pos_term (pre_previous prefix) | Some e \<Rightarrow> entry_term e)"
proof -
  have pv: "position_valid (pre_previous prefix)"
    using v by (auto simp: validate_committed_prefix_def result_simps split: if_splits)
  have "pos_index (pre_previous prefix) \<le> u64_max"
    using position_matches_bound[OF log m pv] log by (simp add: log_ok_def)
  note w = validate_committed_prefix_Inr[OF v this]
  show "batch_ok H (pos_index (pre_previous prefix)) (pre_entries prefix)" "position_valid (pre_previous prefix)"
    "pre_committed_index prefix = pos_index (pre_previous prefix) + length (pre_entries prefix)"
    using w(1,2) pv by simp_all
  show "\<forall>e \<in> set (pre_entries prefix).
       entry_term e \<le> (case last_opt (pre_entries prefix) of None \<Rightarrow> pos_term (pre_previous prefix) | Some e \<Rightarrow> entry_term e)"
  proof (cases "pre_entries prefix" rule: rev_cases)
    case (snoc xs e)
    have "entry_term x \<le> entry_term e" if x: "x \<in> set (pre_entries prefix)" for x
    proof -
      obtain i where i: "i < length (pre_entries prefix)" "x = pre_entries prefix ! i"
        using x by (metis in_set_conv_nth)
      show ?thesis
      proof (cases "i = length xs")
        case False
        then have "entry_term (pre_entries prefix ! i) \<le> entry_term (pre_entries prefix ! length xs)"
          using w(4)[rule_format, of i "length xs"] i(1) snoc by simp
        then show ?thesis using i(2) snoc by simp
      qed (use i snoc in simp)
    qed
    then show ?thesis using snoc by simp
  qed simp
qed

lemma prefix_action_ok:
  assumes "phased" "(src, cr_local s, MPrefix prev es k) \<in> N" "extends_log s prev es m t" "k = pos_index prev + length es"
  shows "action_ok_for H phased N s m (AfterCommittedPrefix src k)"
proof -
  have "new_term s m = t" using assms(3) by (simp add: extends_log_def)
  then show ?thesis using assms by (auto simp: action_ok_for_def)
qed

lemma committed_prefix_refines:
  assumes ok: "node_ok H phased N s" and p: "cr_pending s = None" and ph: phased
    and net: "abs_message from (cr_local s) (CommittedPrefix prefix) \<subseteq> N"
  shows "refines H phased N plan s (receive_committed_prefix H from prefix) (sends_of (cr_local s))"
proof -
  let ?achieves = "achieves H phased N plan (cr_local s) (abs_core s) (sends_of (cr_local s))"
  let ?prev = "pre_previous prefix" and ?es = "pre_entries prefix" and ?k = "pre_committed_index prefix"
  let ?obs = "case last_opt ?es of None \<Rightarrow> pos_term ?prev | Some e \<Rightarrow> entry_term e"
  note log = node_okD(1)[OF ok]
  have net': "(from, cr_local s, MPrefix ?prev ?es ?k) \<in> N" using net by simp
  have here: "?achieves (Inl e, s)" "?achieves (Inr [membership_notice_effect s from], s)"
    "?achieves (Inr [Send from (AppendResponse ((membership_notice s)\<lparr>ares_next_index_hint := h\<rparr>))], s)" for e h
    using ok by (auto intro!: achieves_here simp: membership_notice_def)
  note v = committed_prefix_valid[OF log]
  show ?thesis
    unfolding refines_achieves receive_committed_prefix_def Let_def
  proof (intro achieves_sum achieves_if achieves_pair here, goal_cases)
    case (1 u delta tr app)
    note w = v[OF 1(1)]
    have m: "position_matches H s ?prev (pre_previous_digest prefix)" using 1(4) by simp
    let ?t = "max (cr_current_term s) ?obs"
    let ?m = "append_mutation (if ?obs > cr_current_term s then Some (?obs, None) else None) tr app"
    have terms: "\<forall>e \<in> set ?es. entry_term e \<le> ?t" using w(4)[OF m] by auto
    have meq: "?m = append_mutation (if cr_current_term s < ?t then Some (?t, None) else None) tr app"
      by auto
    note x = delta_extends[OF ok w(1)[OF m] m w(2)[OF m] _ terms _ meq]
    have delta: "log_delta H s ?es = Inr (tr, app)" using 1(5,6) by simp
    have "action_ok_for H phased N s ?m (AfterCommittedPrefix from ?k)"
      by (rule prefix_action_ok[OF ph net' x(1)[OF delta max.cobounded1] w(3)[OF m]])
    then show ?case
      unfolding refines_achieves[symmetric] by (rule begin_refines[OF ok]) (rule x(2)[OF delta max.cobounded1])
  next
    case (2 u delta tr app)
    note w = v[OF 2(1)]
    have m: "position_matches H s ?prev (pre_previous_digest prefix)" using 2(4) by simp
    have same: "log_delta H s ?es = Inr (None, [])" "?obs \<le> cr_current_term s" using 2 by auto
    have terms: "\<forall>e \<in> set ?es. entry_term e \<le> cr_current_term s" using w(4)[OF m] same(2) by auto
    let ?m = "append_mutation None None []"
    note x = delta_extends(1)[OF ok w(1)[OF m] m w(2)[OF m] same(1) terms order_refl, of ?m]
      and y = delta_extends(2)[OF ok w(1)[OF m] m w(2)[OF m] same(1) terms order_refl, of ?m]
    have nl: "new_log s ?m = cr_log s" "new_vote s ?m = cr_voted_for s"
      by (simp_all add: new_log_def mutated_log_def new_vote_def)
    show ?case
      by (rule finish_prefix_achieves[OF ok p ph net' x y w(3)[OF m]])
        (use nl p node_okD(2)[OF ok] in auto)
  qed
qed

section \<open>Responses, proposals and activation\<close>

lemma acknowledge_set:
  assumes ok: "node_ok H phased N s" and p: "cr_pending s = None" and role: "cr_role s = LeaderState l"
    and net: "(src, cr_local s, MAck (cr_current_term s) k) \<in> N" and k: "k \<le> length (cr_log s)"
    and l': "ls_matched l' = fmupd src (max (lookup_or 0 src (ls_matched l)) k) (ls_matched l)"
  shows "node_ok H phased N (set_leader l' s)"
    "runs phased (active_satisfies plan Election) (active_satisfies plan Commit) (cr_local s) N (abs_core s) (abs_core (set_leader l' s)) {}"
proof -
  have "fmlookup (ls_matched l') (cr_local s) = Some (length (cr_log s))"
    using node_okD(5)[OF ok role] k by (simp add: l' lookup_or_def max_def)
  then show "node_ok H phased N (set_leader l' s)"
    using ok p by (simp add: node_ok_def set_leader_def)
  have a: "action (active_satisfies plan Election) (active_satisfies plan Commit) (cr_local s) N (abs_core s)
     ((abs_core s)\<lparr>rp_role := RLeader ((\<lambda>m. lookup_or 0 m (ls_matched l))(src := max (lookup_or 0 src (ls_matched l)) k))\<rparr>) {}"
    by (rule acknowledge) (use net role in simp_all)
  have e: "(abs_core s)\<lparr>rp_role := RLeader ((\<lambda>m. lookup_or 0 m (ls_matched l))(src := max (lookup_or 0 src (ls_matched l)) k))\<rparr> =
      abs_core (set_leader l' s)"
    by (simp add: abs_core_def set_leader_def fun_eq_iff lookup_or_def l')
  show "runs phased (active_satisfies plan Election) (active_satisfies plan Commit) (cr_local s) N (abs_core s) (abs_core (set_leader l' s)) {}"
    by (rule runs_action[OF a[unfolded e]])
qed

lemma after_evidence_refines:
  assumes ok: "node_ok H phased N (set_leader l s)" and p: "cr_pending s = None" and plan: "cr_active_plan s = plan"
  shows "achieves H phased N plan (cr_local s) (abs_core (set_leader l s)) (sends_of (cr_local s)) (after_evidence H src response k l s)"
proof -
  let ?s = "set_leader l s" and ?n = "cr_local s"
  have quiet: "quiet s' (cbind (acknowledge_read_barrier src (ares_read_barrier_id response)) (\<lambda>reads.
       if b then cbind (probe_effect H src Replication None) (\<lambda>probe. ret (committed @ reads @ [probe]))
       else ret (committed @ reads))) (\<lambda>y. sends_of ?n y - sends_of ?n committed)"
    if ok': "node_ok H phased N s'" and n: "cr_local s' = ?n" for s' committed b
  proof (rule quiet_bind[OF acknowledge_read_barrier_quiet[where n = ?n]])
    fix reads s1 assume f: "frame s' s1" and r: "finite (sends_of ?n reads)" "sends_of ?n reads \<subseteq> leader_sends (cr_local s1) (abs_core s1)"
    have log: "log_ok H (cr_log s1)" by (rule frame_log[OF f node_okD(1)[OF ok']])
    have "quiet s1 (cbind (probe_effect H src Replication None) (\<lambda>probe. ret (committed @ reads @ [probe])))
       (\<lambda>y. sends_of ?n y - sends_of ?n committed)"
    proof (rule quiet_bind[OF probe_effect_quiet[OF log]])
      fix probe s2 assume f2: "frame s1 s2" and q: "finite (effect_sends (cr_local s1) probe)"
        "effect_sends (cr_local s1) probe \<subseteq> leader_sends (cr_local s2) (abs_core s2)"
      then show "quiet s2 (ret (committed @ reads @ [probe])) (\<lambda>y. sends_of ?n y - sends_of ?n committed)"
        using r frame_abs[OF f2] frame_local[OF f2] frame_local[OF f] n by (auto simp: finite_sends)
    qed
    then show "quiet s1 (if b then cbind (probe_effect H src Replication None) (\<lambda>probe. ret (committed @ reads @ [probe]))
       else ret (committed @ reads)) (\<lambda>y. sends_of ?n y - sends_of ?n committed)"
      using r by (auto simp: finite_sends)
  qed
  have "refines H phased N plan ?s (cbind advance_leader_commit (\<lambda>committed.
     cbind (acknowledge_read_barrier src (ares_read_barrier_id response)) (\<lambda>reads.
       if lookup_or 1 src (ls_next l) \<le> k
       then cbind (probe_effect H src Replication None) (\<lambda>probe. ret (committed @ reads @ [probe]))
       else ret (committed @ reads)))) (sends_of ?n)"
  proof (rule refines_bind[OF advance_leader_commit_refines[where n = ?n]])
    fix committed s' assume "node_ok H phased N s'" "cr_local s' = cr_local ?s"
    then show "refines H phased N plan s' (cbind (acknowledge_read_barrier src (ares_read_barrier_id response)) (\<lambda>reads.
       if lookup_or 1 src (ls_next l) \<le> k
       then cbind (probe_effect H src Replication None) (\<lambda>probe. ret (committed @ reads @ [probe]))
       else ret (committed @ reads))) (\<lambda>y. sends_of ?n y - sends_of ?n committed)"
      by (intro quiet_refines quiet) (simp_all add: set_leader_def)
  qed (use ok p plan in \<open>simp_all add: set_leader_def\<close>)
  then show ?thesis
    by (simp add: refines_achieves after_evidence_def set_leader_def)
qed

lemma achieves_frame:
  assumes "node_ok H phased N s" "frame s (snd rs)" "\<And>x. fst rs = Inr x \<Longrightarrow> S x = {}"
  shows "achieves H phased N plan (cr_local s) (abs_core s) S rs"
proof -
  have "achieves H phased N plan (cr_local s) (abs_core s) S (fst rs, snd rs)"
    by (rule achieves_here[OF frame_node_ok[OF assms(2,1)] frame_local[OF assms(2)] frame_abs[OF assms(2)] assms(3)])
  then show ?thesis by simp
qed

lemma replication_evidence_achieves:
  assumes ok: "node_ok H phased N s" and p: "cr_pending s = None" and plan: "cr_active_plan s = plan"
    and role: "cr_role s = LeaderState l0" and l: "ls_matched l = ls_matched l0"
    and net: "\<And>k. evidence = Matched k \<Longrightarrow> (src, cr_local s, MAck (cr_current_term s) k) \<in> N"
  shows "achieves H phased N plan (cr_local s) (abs_core s) (sends_of (cr_local s))
    (replication_evidence H src response (pos_index (last_position s)) l evidence s)"
proof -
  let ?achieves = "achieves H phased N plan (cr_local s) (abs_core s) (sends_of (cr_local s))"
  have f: "frame s (set_leader l' s)" if "ls_matched l' = ls_matched l" for l'
    using frame_set_leader[OF role] that l by simp
  have after: "?achieves (after_evidence H src response k l' s)" if "ls_matched l' = ls_matched l" for l' k
    using after_evidence_refines[OF frame_node_ok[OF f[OF that] ok] p plan] frame_abs[OF f[OF that]] by simp
  show ?thesis
  proof (cases evidence)
    case (Matched k)
    show ?thesis
    proof (cases "k > length (cr_log s)")
      case True
      then show ?thesis
        using Matched ok f[OF refl] last_position_index[OF node_okD(1)[OF ok]]
        by (auto simp: replication_evidence_def Let_def intro!: achieves_frame)
    next
      case False
      let ?j = "max (lookup_or 0 src (ls_matched l)) k"
      let ?l = "l\<lparr>ls_matched := fmupd src ?j (ls_matched l)\<rparr>"
      have a: "node_ok H phased N (set_leader l' s)"
        "runs phased (active_satisfies plan Election) (active_satisfies plan Commit) (cr_local s) N (abs_core s) (abs_core (set_leader l' s)) {}"
        if "ls_matched l' = ls_matched ?l" for l'
        using acknowledge_set[OF ok p role net[OF Matched]] False that l by auto
      have "?achieves (Inl Exhausted, set_leader ?l s)"
        using a[OF refl] by (auto simp: achieves_def set_leader_def)
      moreover have "?achieves (after_evidence H src response (length (cr_log s)) l' s)" if "ls_matched l' = ls_matched ?l" for l'
        by (rule achieves_runs[OF a(2)[OF that] after_evidence_refines[OF a(1)[OF that] p plan]]) simp
      ultimately show ?thesis
        using Matched False last_position_index[OF node_okD(1)[OF ok]]
        by (simp add: replication_evidence_def Let_def split: option.split)
    qed
  next
    case (Conflict k b)
    then show ?thesis
      using after f[OF refl] ok
      by (auto simp: replication_evidence_def Let_def split: option.split intro!: achieves_frame)
  next
    case ContactEvidence
    have "quiet (set_leader l s) (acknowledge_read_barrier src (ares_read_barrier_id response)) (sends_of (cr_local s))"
      by (rule acknowledge_read_barrier_quiet)
    then have "achieves H phased N plan (cr_local s) (abs_core (set_leader l s)) (sends_of (cr_local s))
       (acknowledge_read_barrier src (ares_read_barrier_id response) (set_leader l s))"
      using quiet_refines[OF _ frame_node_ok[OF f[OF refl] ok]] frame_local[OF f[OF refl]] by (metis refines_achieves)
    then show ?thesis
      using ContactEvidence frame_abs[OF f[OF refl]] by (simp add: replication_evidence_def Let_def)
  qed
qed

lemma append_response_refines:
  assumes ok: "node_ok H phased N s" and p: "cr_pending s = None" and plan: "cr_active_plan s = plan"
    and net: "abs_message from (cr_local s) (AppendResponse response) \<subseteq> N"
  shows "refines H phased N plan s (append_response_received H from response) (sends_of (cr_local s))"
proof -
  let ?achieves = "achieves H phased N plan (cr_local s) (abs_core s) (sends_of (cr_local s))"
  have here: "?achieves (Inl e, s)" "?achieves (Inr [], s)" for e
    using ok by (auto intro!: achieves_here)
  have replayed: "?achieves (replay_membership_prefix H s from response, s)"
    by (rule replay_prefix_achieves[OF ok])
  have down: "?achieves (persist_step_down (ares_term response) s)" if "ares_term response > cr_current_term s"
    using step_down_refines[OF ok that] by (simp add: refines_achieves)
  have leader: "?achieves (case probe_receive probes response of
        (result, probes') \<Rightarrow>
          (case result of
             Inl e \<Rightarrow> (Inl e, set_leader (l\<lparr>ls_probes := fmupd from probes' (ls_probes l)\<rparr>) s)
           | Inr None \<Rightarrow>
               if ares_probe_id response = None \<and> \<not> ares_accepted response
               then cbind (probe_effect H from Replication None) (\<lambda>probe. ret [probe])
                 (set_leader (l\<lparr>ls_probes := fmupd from probes' (ls_probes l)\<rparr>) s)
               else (Inr [], set_leader (l\<lparr>ls_probes := fmupd from probes' (ls_probes l)\<rparr>) s)
           | Inr (Some evidence) \<Rightarrow>
               replication_evidence H from response (pos_index (last_position s))
                 (l\<lparr>ls_probes := fmupd from probes' (ls_probes l)\<rparr>) evidence s))"
    if t: "ares_term response = cr_current_term s" and role: "cr_role s = LeaderState l" for l probes
  proof (cases "probe_receive probes response")
    case (Pair result probes')
    let ?l = "l\<lparr>ls_probes := fmupd from probes' (ls_probes l)\<rparr>"
    have f: "frame s (set_leader ?l s)" by (rule frame_set_leader[OF role]) simp
    have silent: "?achieves (Inl e, set_leader ?l s)" "?achieves (Inr [], set_leader ?l s)" for e
      using ok f by (auto intro!: achieves_frame)
    have "quiet (set_leader ?l s) (cbind (probe_effect H from Replication None) (\<lambda>probe. ret [probe])) (sends_of (cr_local s))"
      using probe_effect_quiet[OF frame_log[OF f node_okD(1)[OF ok]], of "from" Replication None] frame_local[OF f]
      by (intro quiet_bind) auto
    then have probe: "?achieves (cbind (probe_effect H from Replication None) (\<lambda>probe. ret [probe]) (set_leader ?l s))"
      using quiet_refines[OF _ frame_node_ok[OF f ok]] frame_local[OF f] frame_abs[OF f] by (metis refines_achieves)
    have "?achieves (replication_evidence H from response (pos_index (last_position s)) ?l evidence s)"
      if e: "result = Inr (Some evidence)" for evidence
    proof (rule replication_evidence_achieves[OF ok p plan role])
      fix k assume "evidence = Matched k"
      then have "ares_accepted response" "ares_matched_index response = k"
        using probe_receive_Matched[of probes response k probes'] Pair e by auto
      then show "(from, cr_local s, MAck (cr_current_term s) k) \<in> N"
        using net t by simp
    qed simp
    then show ?thesis
      using Pair silent probe by (auto split: sum.split option.split)
  qed
  show ?thesis
    unfolding refines_achieves append_response_received_def Let_def
  proof (intro achieves_if here replayed down, goal_cases)
    case 2
    then have "ares_term response = cr_current_term s" by simp
    then show ?case
      using here leader by (auto split: role_state.split option.split)
  qed
qed

lemma propose_refines:
  assumes ok: "node_ok H phased N s"
  shows "refines H phased N plan s (propose H proposal operation version command) (sends_of (cr_local s))"
proof -
  let ?achieves = "achieves H phased N plan (cr_local s) (abs_core s) (sends_of (cr_local s))"
  note log = node_okD(1)[OF ok]
  have here: "?achieves (Inl e, s)" for e
    using ok by (auto intro!: achieves_here)
  let ?pos = "\<lparr>pos_term = cr_current_term s, pos_index = Suc (length (cr_log s))\<rparr>"
  have "?achieves (begin_persistence (append_mutation None None [e]) (Proposal proposal ?pos) s)"
    if role: "role_of s = Leader" and e: "log_entry_new H ?pos operation version command = Inr e"
      and len: "Suc (length (cr_log s)) \<le> u64_max" for e
  proof -
    have pos: "le_position e = ?pos" and v: "entry_validate H e = Inr ()"
      using e by (auto simp: log_entry_new_def from_shared_command_def entry_validate_def split: if_splits)
    have "batch_ok H (length (cr_log s)) [e]"
      using pos v len by (simp add: batch_ok_def)
    then have "mutation_ok H s (append_mutation None None [e])"
      using log pos by (simp add: mutation_ok_def new_term_def new_vote_def new_log_def mutated_log_def log_ok_append)
    moreover have "action_ok_for H phased N s (append_mutation None None [e]) (Proposal proposal ?pos)"
      using role pos by (auto simp: action_ok_for_def role_of_def split: role_state.splits)
    ultimately show ?thesis
      unfolding refines_achieves[symmetric] by (intro begin_refines[OF ok])
  qed
  then show ?thesis
    unfolding refines_achieves propose_def Let_def last_position_index[OF log]
    using here by (auto simp: checked_add_def split: sum.split)
qed

lemma activation_refines:
  assumes ok: "node_ok H phased N s" and ph: phased
  shows "refines H phased N plan s (activate_joint_plan joint incs position) (sends_of (cr_local s))"
    "refines H phased N plan s (activate_stable_plan stable_plan incs position) (sends_of (cr_local s))"
proof -
  let ?achieves = "achieves H phased N plan (cr_local s) (abs_core s) (sends_of (cr_local s))"
  have here: "?achieves (Inl e, s)" for e
    using ok by (auto intro!: achieves_here)
  have "?achieves (begin_persistence (activation_mutation epoch plan' pos) a s)"
    if "a = ActivateJoint x incs \<or> a = ActivateStable y incs" for epoch plan' pos a x y
    unfolding refines_achieves[symmetric]
    by (rule begin_refines[OF ok]) (use that ph in \<open>auto simp: action_ok_for_def activation_mutation_def activates_def\<close>)
  then show "refines H phased N plan s (activate_joint_plan joint incs position) (sends_of (cr_local s))"
    "refines H phased N plan s (activate_stable_plan stable_plan incs position) (sends_of (cr_local s))"
    using here by (auto simp: refines_achieves activate_joint_plan_def activate_stable_plan_def Let_def
        split: active_quorum_plan.split sum.split)
qed

end
