(* ===== verification/Core_Completion.thy ===== *)
theory Core_Completion
  imports Core_Handlers
begin

text \<open>
  Completion of a durable mutation: the protocol step of a handler that had to persist first happens here,
  together with the messages it was allowed to send only now. The step function of the core follows.
\<close>

section \<open>Completion of a durable mutation\<close>

lemma mutated_simps [simp]:
  "cr_config (mutated s m) = cr_config s" "cr_active_plan (mutated s m) = cr_active_plan s"
  "cr_history (mutated s m) = cr_history s" "cr_current_term (mutated s m) = new_term s m"
  "cr_voted_for (mutated s m) = new_vote s m" "cr_log (mutated s m) = new_log s m"
  "cr_commit_index (mutated s m) = cr_commit_index s" "cr_applied_index (mutated s m) = cr_applied_index s"
  "cr_pending (mutated s m) = cr_pending s"
  "cr_role (mutated s m) = (if cr_current_term s < new_term s m then FollowerState else cr_role s)"
  by (simp_all add: mutated_def)

lemma vote_mutation_new [simp]:
  "new_term s (vote_mutation t v) = t" "new_vote s (vote_mutation t v) = v" "new_log s (vote_mutation t v) = cr_log s"
  by (simp_all add: vote_mutation_def new_term_def new_vote_def new_log_def mutated_log_def)

lemma follow_mutated_ok:
  assumes ok: "node_ok H phased N s" and p: "cr_pending s = None" and m: "mutation_ok H s m"
    and c: "cr_commit_index s \<le> length (new_log s m)"
  shows "node_ok H phased N (follow_leader l (mutated s m))"
  using ok p m c new_log_terms[OF ok m] by (intro follow_node_ok) (auto simp: node_ok_def mutation_ok_def)

lemma finish_vote_achieves:
  assumes ok: "node_ok H phased N s" and p: "cr_pending s = None" and m: "mutation_ok H s m"
    and a: "action_ok_for H phased N s m (VoteReply to granted)"
  shows "achieves H phased N plan (cr_local s) (abs_core s) (sends_of (cr_local s))
    (Inr [vote_effect (follow_leader None (mutated s m)) to granted], follow_leader None (mutated s m))"
proof -
  let ?s = "follow_leader None (mutated s m)"
  obtain t pos where t: "m = vote_mutation t (if granted then Some to else None)"
    and g: "granted \<Longrightarrow> (to, cr_local s, MVoteRequest t pos) \<in> N \<and> position_le (last_pos (cr_log s)) pos \<and>
        (cr_current_term s < t \<or> t = cr_current_term s \<and> cr_voted_for s \<in> {None, Some to})"
      "\<not> granted \<Longrightarrow> cr_current_term s < t"
    using a unfolding action_ok_for_def by (auto split: if_splits)
  have ok': "node_ok H phased N ?s"
    by (rule follow_mutated_ok[OF ok p m]) (use t node_okD(4)[OF ok] in simp)
  show ?thesis
  proof (cases granted)
    case True
    have "action (active_satisfies plan Election) (active_satisfies plan Commit) (cr_local s) N (abs_core s)
       ((abs_core s)\<lparr>rp_term := t, rp_vote := Some to, rp_role := RFollower\<rparr>) {(cr_local s, to, MVote t)}"
      by (rule vote[where pos = pos]) (use g(1)[OF True] in auto)
    moreover have "(abs_core s)\<lparr>rp_term := t, rp_vote := Some to, rp_role := RFollower\<rparr> = abs_core ?s"
      using t True by (simp add: abs_core_def)
    ultimately show ?thesis
      using ok' t True by (intro achieves_action) (auto simp: vote_effect_def)
  next
    case False
    have "action (active_satisfies plan Election) (active_satisfies plan Commit) (cr_local s) N (abs_core s)
       ((abs_core s)\<lparr>rp_term := t, rp_vote := (if rp_term (abs_core s) < t then None else rp_vote (abs_core s)),
          rp_role := RFollower\<rparr>) {}"
      by (rule step_down) (use g(2)[OF False] in simp)
    moreover have "(abs_core s)\<lparr>rp_term := t, rp_vote := (if rp_term (abs_core s) < t then None else rp_vote (abs_core s)),
          rp_role := RFollower\<rparr> = abs_core ?s"
      using t False g(2)[OF False] by (simp add: abs_core_def)
    ultimately show ?thesis
      using ok' False by (intro achieves_action) (auto simp: vote_effect_def)
  qed
qed

lemma finish_down_achieves:
  assumes ok: "node_ok H phased N s" and p: "cr_pending s = None" and m: "m = vote_mutation t None" "cr_current_term s < t"
    and S: "\<And>x. res = Inr x \<Longrightarrow> S x = {}"
  shows "achieves H phased N plan (cr_local s) (abs_core s) S (res, follow_leader l (mutated s m))"
proof -
  let ?s = "follow_leader l (mutated s m)"
  have "mutation_ok H s m"
    using mutation_vote[OF node_okD(1)[OF ok]] m by simp
  then have ok': "node_ok H phased N ?s"
    by (rule follow_mutated_ok[OF ok p]) (use m node_okD(4)[OF ok] in simp)
  have "action (active_satisfies plan Election) (active_satisfies plan Commit) (cr_local s) N (abs_core s)
     ((abs_core s)\<lparr>rp_term := t, rp_vote := (if rp_term (abs_core s) < t then None else rp_vote (abs_core s)),
        rp_role := RFollower\<rparr>) {}"
    by (rule step_down) (use m(2) in simp)
  moreover have "(abs_core s)\<lparr>rp_term := t, rp_vote := (if rp_term (abs_core s) < t then None else rp_vote (abs_core s)),
        rp_role := RFollower\<rparr> = abs_core ?s"
    using m by (simp add: abs_core_def)
  ultimately show ?thesis
    using ok' S by (intro achieves_action) auto
qed

lemma extends_commit:
  assumes "node_ok H phased N s" "extends_log s prev es m t"
  shows "cr_commit_index s \<le> length (new_log s m)"
  using assms(2) node_okD(4)[OF assms(1)] length_of_take[of "cr_commit_index s" "new_log s m" "cr_log s"]
  by (simp add: extends_log_def)

lemma finish_append_achieves:
  assumes ok: "node_ok H phased N s" and p: "cr_pending s = None" and m: "mutation_ok H s m"
    and a: "action_ok_for H phased N s m (AppendReply to leader ci reply)"
  shows "achieves H phased N plan (cr_local s) (abs_core s) (sends_of (cr_local s))
    (cbind (if ares_accepted reply then advance_follower_commit (min ci (ares_matched_index reply)) else ret [])
      (\<lambda>effects s'. (Inr (effects @ [append_reply_effect s' to reply]), s')) (follow_leader (Some leader) (mutated s m)))"
proof (cases "ares_accepted reply")
  case True
  let ?s = "follow_leader (Some leader) (mutated s m)"
  obtain t prev es where net: "(to, cr_local s, MAppend t prev es ci) \<in> N" and ext: "extends_log s prev es m t"
    and k: "ares_matched_index reply = pos_index prev + length es"
    using a True by (auto simp: action_ok_for_def)
  let ?k = "pos_index prev + length es"
  let ?rs = "cbind (advance_follower_commit (min ci ?k)) (\<lambda>effects s'. (Inr (effects @ [append_reply_effect s' to reply]), s')) ?s"
  have log: "log_ok H (cr_log ?s)" using m by (simp add: mutation_ok_def)
  have t: "new_term s m = t" using ext by (simp add: extends_log_def)
  note r = accepted_reply[OF log _ True k refl]
  have "min (min ci ?k) (length (new_log s m)) = min ci ?k"
    using ext by (auto simp: extends_log_def)
  then have s': "snd ?rs = ?s\<lparr>cr_commit_index := max (min ci ?k) (cr_commit_index s)\<rparr>"
    using r(1) by simp
  have ok': "node_ok H phased N (snd ?rs)"
    unfolding s' using ok p m new_log_terms[OF ok m] extends_commit[OF ok ext] ext
    by (intro follow_node_ok) (auto simp: node_ok_def mutation_ok_def extends_log_def)
  have "achieves H phased N plan (cr_local s) (abs_core s) (sends_of (cr_local s)) (fst ?rs, snd ?rs)"
    by (rule achieves_accept[OF net ext refl _ ok']) (use s' t r(2) in \<open>auto simp: max.commute\<close>)
  then show ?thesis using True k by simp
next
  case False
  then obtain t where t: "m = vote_mutation t None" "cr_current_term s < t"
    using a by (auto simp: action_ok_for_def)
  have "\<not> ares_accepted (reply\<lparr>ares_term := x\<rparr>)" for x using False by simp
  then have "achieves H phased N plan (cr_local s) (abs_core s) (sends_of (cr_local s))
      (Inr [append_reply_effect (follow_leader (Some leader) (mutated s m)) to reply], follow_leader (Some leader) (mutated s m))"
    by (intro finish_down_achieves[OF ok p t]) (auto simp: append_reply_effect_def)
  then show ?thesis using False by (simp add: cbind_def ret_def)
qed

lemma finish_campaign_achieves:
  assumes ok: "node_ok H phased N s" and p: "cr_pending s = None" and plan: "cr_active_plan s = plan"
    and m: "m = vote_mutation (Suc (cr_current_term s)) (Some (cr_local s))"
  shows "achieves H phased N plan (cr_local s) (abs_core s) (sends_of (cr_local s)) (finish_campaign H (mutated s m))"
proof -
  let ?n = "cr_local s"
  let ?s = "(mutated s m)\<lparr>cr_leader_id := None, cr_role := CandidateState {|?n|}\<rparr>"
  have "mutation_ok H s m"
    using mutation_vote[OF node_okD(1)[OF ok]] m by simp
  note terms = new_log_terms[OF ok this]
  have ok': "node_ok H phased N ?s"
    using ok p terms m by (simp add: node_ok_def)
  have a: "action (active_satisfies plan Election) (active_satisfies plan Commit) ?n N (abs_core s) (abs_core ?s) sends"
    if "sends \<subseteq> {(?n, to, MVoteRequest (Suc (cr_current_term s)) (last_pos (cr_log s))) | to. True}" for sends
  proof -
    have "action (active_satisfies plan Election) (active_satisfies plan Commit) ?n N (abs_core s)
       ((abs_core s)\<lparr>rp_term := Suc (rp_term (abs_core s)), rp_vote := Some ?n, rp_role := RCandidate {|?n|}\<rparr>) sends"
      by (rule campaign) (use that in simp)
    moreover have "(abs_core s)\<lparr>rp_term := Suc (rp_term (abs_core s)), rp_vote := Some ?n, rp_role := RCandidate {|?n|}\<rparr> = abs_core ?s"
      using m by (simp add: abs_core_def)
    ultimately show ?thesis by simp
  qed
  show ?thesis
  proof (cases "active_satisfies plan Election {|?n|}")
    case True
    have "refines H phased N plan ?s (cbind (become_leader H) (\<lambda>effects. ret (RoleChanged Candidate t # effects))) (sends_of ?n)" for t
    proof (rule refines_bind)
      show "refines H phased N plan ?s (become_leader H) (sends_of ?n)"
        using become_leader_refines[OF ok', of plan "{|?n|}"] p plan True by simp
      fix x s' assume "node_ok H phased N s'"
      then show "refines H phased N plan s' (ret (RoleChanged Candidate t # x)) (\<lambda>y. sends_of ?n y - sends_of ?n x)"
        by (intro refines_silent) (auto simp: ret_def)
    qed
    then have l: "achieves H phased N plan ?n (abs_core ?s) (sends_of ?n)
        (cbind (become_leader H) (\<lambda>effects. ret (RoleChanged Candidate (Suc (cr_current_term s)) # effects)) ?s)"
      by (simp add: refines_achieves)
    have "achieves H phased N plan ?n (abs_core s) (sends_of ?n)
        (cbind (become_leader H) (\<lambda>effects. ret (RoleChanged Candidate (Suc (cr_current_term s)) # effects)) ?s)"
      by (rule achieves_runs[OF runs_action[OF a[of "{}"]] l]) auto
    then show ?thesis using True plan m by (simp add: finish_campaign_def Let_def)
  next
    case False
    let ?sends = "sends_of ?n (map (\<lambda>voter. Send voter (VoteRequest (campaign_request ?s)))
         (filter (\<lambda>voter. voter \<noteq> ?n) (btree_iter (active_voters plan))))"
    have "?sends \<subseteq> {(?n, to, MVoteRequest (Suc (cr_current_term s)) (last_pos (cr_log s))) | to. True}"
      using m by (auto simp: sends_of_def campaign_request_def last_position_last_pos)
    then have "achieves H phased N plan ?n (abs_core s) (sends_of ?n)
        (Inr (RoleChanged Candidate (Suc (cr_current_term s)) # map (\<lambda>voter. Send voter (VoteRequest (campaign_request ?s)))
         (filter (\<lambda>voter. voter \<noteq> ?n) (btree_iter (active_voters plan)))), ?s)"
      by (intro achieves_action[OF a ok', of ?sends]) auto
    then show ?thesis
      using False plan m by (simp add: finish_campaign_def Let_def)
  qed
qed

lemma finish_proposal_achieves:
  assumes ok: "node_ok H phased N s" and p: "cr_pending s = None" and plan: "cr_active_plan s = plan"
    and m: "mutation_ok H s m" and a: "action_ok_for H phased N s m (Proposal proposal position)"
  shows "achieves H phased N plan (cr_local s) (abs_core s) (sends_of (cr_local s)) (finish_proposal H proposal position (mutated s m))"
proof -
  let ?n = "cr_local s"
  obtain e l where e: "m = append_mutation None None [e]" "le_position e = position"
    "position = \<lparr>pos_term = cr_current_term s, pos_index = Suc (length (cr_log s))\<rparr>" and role: "cr_role s = LeaderState l"
    using a by (auto simp: action_ok_for_def)
  have new: "new_term s m = cr_current_term s" "new_vote s m = cr_voted_for s" "new_log s m = cr_log s @ [e]"
    by (simp_all add: e(1) new_term_def new_vote_def new_log_def mutated_log_def)
  have log: "log_ok H (cr_log s @ [e])" using m new(3) by (simp add: mutation_ok_def)
  have set: "node_ok H phased N (set_leader l' (mutated s m))"
    "runs phased (active_satisfies plan Election) (active_satisfies plan Commit) ?n N (abs_core s) (abs_core (set_leader l' (mutated s m))) {}"
    if l': "ls_matched l' = fmupd ?n (Suc (length (cr_log s))) (ls_matched l)" for l'
  proof -
    show "node_ok H phased N (set_leader l' (mutated s m))"
      using ok p log new new_log_terms[OF ok m] l' by (simp add: node_ok_def set_leader_def)
    have "action (active_satisfies plan Election) (active_satisfies plan Commit) ?n N (abs_core s)
      ((abs_core s)\<lparr>rp_log := rp_log (abs_core s) @ [e],
         rp_role := RLeader ((\<lambda>m. lookup_or 0 m (ls_matched l))(?n := Suc (length (rp_log (abs_core s)))))\<rparr>) {}"
      by (rule propose_entry) (use role e in simp_all)
    moreover have "(abs_core s)\<lparr>rp_log := rp_log (abs_core s) @ [e],
         rp_role := RLeader ((\<lambda>m. lookup_or 0 m (ls_matched l))(?n := Suc (length (rp_log (abs_core s)))))\<rparr> =
       abs_core (set_leader l' (mutated s m))"
      by (simp add: abs_core_def set_leader_def new l' fun_eq_iff lookup_or_def)
    ultimately show "runs phased (active_satisfies plan Election) (active_satisfies plan Commit) ?n N (abs_core s)
       (abs_core (set_leader l' (mutated s m))) {}"
      by (intro runs_action) simp
  qed
  let ?l = "l\<lparr>ls_matched := fmupd ?n (Suc (length (cr_log s))) (ls_matched l)\<rparr>"
  have exhausted: "achieves H phased N plan ?n (abs_core s) (sends_of ?n) (Inl Exhausted, set_leader ?l (mutated s m))"
    using set[of ?l] by (auto simp: achieves_def set_leader_def)
  have finish: "achieves H phased N plan ?n (abs_core s) (sends_of ?n)
     (cbind (for_each (\<lambda>peer. probe_effect H peer Replication None) ps)
        (\<lambda>sends. cbind advance_leader_commit (\<lambda>committed. ret (ProposalAppended proposal position # sends @ committed)))
        (set_leader l' (mutated s m)))"
    if l': "ls_matched l' = ls_matched ?l" for l' ps
  proof -
    let ?s = "set_leader l' (mutated s m)"
    have set': "node_ok H phased N ?s"
      "runs phased (active_satisfies plan Election) (active_satisfies plan Commit) ?n N (abs_core s) (abs_core ?s) {}"
      using set[of l'] l' by auto
    have loc: "cr_local ?s = ?n" "cr_pending ?s = None" "cr_active_plan ?s = plan"
      using p plan by (simp_all add: set_leader_def)
    have q: "quiet ?s (for_each (\<lambda>peer. probe_effect H peer Replication None) ps) (sends_of ?n)"
      using probes_quiet[OF node_okD(1)[OF set'(1)], of Replication None ps] loc(1) by simp
    have "refines H phased N plan ?s (cbind (for_each (\<lambda>peer. probe_effect H peer Replication None) ps)
        (\<lambda>sends. cbind advance_leader_commit (\<lambda>committed. ret (ProposalAppended proposal position # sends @ committed)))) (sends_of ?n)"
    proof (rule refines_bind[OF quiet_refines[OF q set'(1)]])
      fix sends s1 assume r: "for_each (\<lambda>peer. probe_effect H peer Replication None) ps ?s = (Inr sends, s1)"
        and ok1: "node_ok H phased N s1"
      have f: "frame ?s s1" using q r by (simp add: quiet_def)
      have f': "cr_pending s1 = None" "cr_active_plan s1 = plan" using f loc by (simp_all add: frame_defs)
      show "refines H phased N plan s1 (cbind advance_leader_commit
          (\<lambda>committed. ret (ProposalAppended proposal position # sends @ committed))) (\<lambda>y. sends_of ?n y - sends_of ?n sends)"
      proof (rule refines_bind[OF advance_leader_commit_refines[OF ok1 f', where n = ?n]])
        fix committed s2 assume "node_ok H phased N s2"
        then show "refines H phased N plan s2 (ret (ProposalAppended proposal position # sends @ committed))
           (\<lambda>y. sends_of ?n y - sends_of ?n sends - sends_of ?n committed)"
          by (intro refines_silent) (auto simp: ret_def)
      qed
    qed
    then have "achieves H phased N plan ?n (abs_core ?s) (sends_of ?n) (cbind (for_each (\<lambda>peer. probe_effect H peer Replication None) ps)
        (\<lambda>sends. cbind advance_leader_commit (\<lambda>committed. ret (ProposalAppended proposal position # sends @ committed))) ?s)"
      using loc(1) by (simp add: refines_achieves)
    then show ?thesis by (intro achieves_runs[OF set'(2)]) auto
  qed
  have role': "cr_role (mutated s m) = LeaderState l" using new role by simp
  show ?thesis
    unfolding finish_proposal_def role' Let_def role_state.case
    using exhausted finish e(3) by (auto split: option.split)
qed

lemma voters_members: "active_voters plan |\<subseteq>| active_members plan"
  by (cases plan) (auto simp: plan_members_def joint_members_def)

lemma retarget_lookup:
  "fmlookup (ls_matched (retarget_leader s members k n l)) m =
     (if m |\<in>| members then (case fmlookup (ls_matched l) m of
        Some x \<Rightarrow> Some x | None \<Rightarrow> Some (if m = cr_local s then k else 0)) else None)"
  by (simp add: retarget_leader_def fold_entry_or_insert split: option.split)

lemma retarget_same:
  assumes "s2 = (case cr_role s of LeaderState l \<Rightarrow> set_leader (retarget_leader s (core_members s) k n l) s | _ \<Rightarrow> s)"
  shows "cr_log s2 = cr_log s" "cr_current_term s2 = cr_current_term s" "cr_commit_index s2 = cr_commit_index s"
    "cr_applied_index s2 = cr_applied_index s" "cr_pending s2 = cr_pending s" "cr_local s2 = cr_local s"
    "cr_history s2 = cr_history s" "cr_active_plan s2 = cr_active_plan s"
  using assms by (simp_all add: set_leader_def split: role_state.split)

lemma retarget_runs:
  assumes ok: "node_ok H phased N s"
    and s2: "s2 = (case cr_role s of LeaderState l \<Rightarrow> set_leader (retarget_leader s (core_members s) (length (cr_log s)) n l) s | _ \<Rightarrow> s)"
  shows "runs phased elect commitq (cr_local s) N (abs_core s) (abs_core s2) {}"
proof (cases "cr_role s")
  case (LeaderState l)
  let ?l = "retarget_leader s (core_members s) (length (cr_log s)) n l"
  have "action elect commitq (cr_local s) N (abs_core s)
    ((abs_core s)\<lparr>rp_role := RLeader (\<lambda>m. lookup_or 0 m (ls_matched ?l))\<rparr>) {}"
    by (rule forget) (use LeaderState node_okD(5)[OF ok LeaderState] in \<open>auto simp: lookup_or_def retarget_lookup split: option.split\<close>)
  moreover have "(abs_core s)\<lparr>rp_role := RLeader (\<lambda>m. lookup_or 0 m (ls_matched ?l))\<rparr> = abs_core s2"
    using LeaderState s2 by (simp add: abs_core_def set_leader_def)
  ultimately show ?thesis by (intro runs_action) simp
qed (use s2 in \<open>simp_all add: runs_refl\<close>)

lemma retarget_node_ok:
  assumes ok: "node_ok H phased N s" and p: "cr_pending s = None"
    and s2: "s2 = (case cr_role s of LeaderState l \<Rightarrow> set_leader (retarget_leader s (core_members s) (length (cr_log s)) n l) s | _ \<Rightarrow> s)"
    and voter: "is_local_voter s2"
  shows "node_ok H phased N s2"
proof -
  note same = retarget_same[OF s2]
  have "fmlookup (ls_matched l) (cr_local s) = Some (length (cr_log s))" if role2: "cr_role s2 = LeaderState l" for l
  proof -
    obtain l0 where l0: "cr_role s = LeaderState l0" "l = retarget_leader s (core_members s) (length (cr_log s)) n l0"
      using role2 s2 by (cases "cr_role s") (simp_all add: set_leader_def)
    have "cr_local s |\<in>| core_members s"
      using voter same voters_members[of "cr_active_plan s"] by (auto simp: is_local_voter_def core_members_def)
    then show ?thesis using l0 node_okD(5)[OF ok l0(1)] by (simp add: retarget_lookup)
  qed
  then show ?thesis using ok p same by (simp add: node_ok_def)
qed

lemma retire_achieves:
  assumes ok: "node_ok H phased N s" and p: "cr_pending s2 = None"
    and same: "cr_log s2 = cr_log s" "cr_current_term s2 = cr_current_term s" "cr_commit_index s2 = cr_commit_index s"
      "cr_applied_index s2 = cr_applied_index s" "cr_history s2 = cr_history s"
  shows "achieves H phased N plan (cr_local s2) (abs_core s2) (sends_of (cr_local s2))
     (Inr (if b then [RoleChanged Follower t] else []), follow_leader None s2)"
proof -
  have "action elect commitq (cr_local s2) N (abs_core s2)
    ((abs_core s2)\<lparr>rp_term := cr_current_term s2,
      rp_vote := (if rp_term (abs_core s2) < cr_current_term s2 then None else rp_vote (abs_core s2)), rp_role := RFollower\<rparr>) {}" for elect commitq
    by (rule step_down) simp
  then have a: "action elect commitq (cr_local s2) N (abs_core s2) (abs_core (follow_leader None s2)) {}" for elect commitq
    by (simp add: abs_core_def)
  have "node_ok H phased N (follow_leader None s2)"
    by (rule follow_node_ok) (use node_okD[OF ok] p same in auto)
  then show ?thesis by (intro achieves_action[OF a]) (auto split: if_splits)
qed

lemma finish_activation_achieves:
  assumes ok: "node_ok H phased N s" and p: "cr_pending s = None" and ph: phased
  shows "achieves H phased N plan (cr_local s) (abs_core s) (sends_of (cr_local s)) (finish_plan_activation H plan' incs position s)"
proof -
  let ?n = "cr_local s"
  define s1 where "s1 = s\<lparr>cr_history := history_record (cr_active_plan s) position (cr_history s), cr_active_plan := plan',
     cr_config := (cr_config s)\<lparr>cfg_member_incarnations := incs\<rparr>, cr_replication_peers := fmempty\<rparr>"
  have ok1: "node_ok H phased N s1" and abs1: "abs_core s1 = abs_core s" and loc1: "cr_local s1 = ?n" "cr_pending s1 = None"
    using ok p ph by (auto simp: node_ok_def abs_core_def s1_def)
  note log = node_okD(1)[OF ok1]
  note finish = finish_plan_activation_def[of H plan' incs position s, folded s1_def, unfolded Let_def last_position_index[OF log]]
  show ?thesis
  proof (cases "checked_add u64_max (length (cr_log s1)) 1")
    case None
    have "finish_plan_activation H plan' incs position s = (Inl Exhausted, s1)"
      unfolding finish None option.case by (rule refl)
    then show ?thesis using ok1 abs1 loc1 by (auto intro!: achieves_here)
  next
    case (Some next_index)
    define s2 where "s2 = (case cr_role s1 of
      LeaderState l \<Rightarrow> set_leader (retarget_leader s1 (core_members s1) (length (cr_log s1)) next_index l) s1 | _ \<Rightarrow> s1)"
    note same = retarget_same[OF s2_def]
    have run: "runs phased elect commitq ?n N (abs_core s) (abs_core s2) {}" for elect commitq
      using retarget_runs[OF ok1 s2_def] loc1 abs1 by simp
    let ?sends = "for_each (\<lambda>peer. probe_effect H peer Replication None) (btree_iter (peers s2))"
    have result: "achieves H phased N plan ?n (abs_core s2) (sends_of ?n)
       (if role_of s2 = Leader \<and> local_is_eligible_leader s1 \<and> is_local_voter s2 then ?sends s2
        else if local_is_eligible_leader s1 \<and> is_local_voter s2 then (Inr [], s2)
        else (Inr (if role_of s2 \<noteq> Follower then [RoleChanged Follower (cr_current_term s2)] else []), follow_leader None s2))"
    proof (intro achieves_if, goal_cases)
      case 1
      have "quiet s2 ?sends (sends_of ?n)"
        using probes_quiet[of H s2 Replication None "btree_iter (peers s2)"] log same(1,6) loc1 by simp
      moreover have "node_ok H phased N s2"
        using 1 by (intro retarget_node_ok[OF ok1 loc1(2) s2_def]) simp
      ultimately show ?case using same(6) loc1(1) by (metis quiet_refines refines_achieves)
    next
      case 2
      have "node_ok H phased N s2"
        using 2 by (intro retarget_node_ok[OF ok1 loc1(2) s2_def]) simp
      then show ?case using same(6) loc1(1) by (auto intro!: achieves_here)
    next
      case 3
      show ?case
        using retire_achieves[OF ok1, of s2 plan] same loc1 by simp
    qed
    have eq: "finish_plan_activation H plan' incs position s =
       (if role_of s2 = Leader \<and> local_is_eligible_leader s1 \<and> is_local_voter s2 then ?sends s2
        else if local_is_eligible_leader s1 \<and> is_local_voter s2 then (Inr [], s2)
        else (Inr (if role_of s2 \<noteq> Follower then [RoleChanged Follower (cr_current_term s2)] else []), follow_leader None s2))"
      unfolding finish Some option.case s2_def[symmetric] by (rule refl)
    show ?thesis unfolding eq by (rule achieves_runs[OF run result]) simp
  qed
qed

lemma completion_achieves:
  assumes ok: "node_ok H phased N s" and p: "cr_pending s = None" and plan: "cr_active_plan s = plan"
    and m: "mutation_ok H s (pend_mutation q)" and a: "action_ok_for H phased N s (pend_mutation q) (pend_action q)"
    and n: "\<not> activates (pend_action q)"
  shows "achieves H phased N plan (cr_local s) (abs_core s) (sends_of (cr_local s))
     (after_persistence_action H q (mutated s (pend_mutation q)))"
proof (cases "pend_action q")
  case Campaign
  then show ?thesis
    using a finish_campaign_achieves[OF ok p plan] by (simp add: after_persistence_action_def action_ok_for_def)
next
  case (VoteReply to granted)
  then show ?thesis
    using a finish_vote_achieves[OF ok p m] by (simp add: after_persistence_action_def Let_def)
next
  case (AppendReply to leader ci reply)
  then show ?thesis
    using a finish_append_achieves[OF ok p m] by (simp add: after_persistence_action_def)
next
  case (Proposal proposal position)
  then show ?thesis
    using a finish_proposal_achieves[OF ok p plan m] by (simp add: after_persistence_action_def)
next
  case StepDown
  then obtain t where "pend_mutation q = vote_mutation t None" "cr_current_term s < t"
    using a by (auto simp: action_ok_for_def)
  then have "achieves H phased N plan (cr_local s) (abs_core s) (sends_of (cr_local s))
      (Inr [RoleChanged Follower t'], follow_leader None (mutated s (pend_mutation q)))" for t'
    by (intro finish_down_achieves[OF ok p]) auto
  then show ?thesis
    using StepDown by (simp add: after_persistence_action_def Let_def)
next
  case (AfterCommittedPrefix src k)
  then obtain prev es where x: phased "(src, cr_local s, MPrefix prev es k) \<in> N"
    "extends_log s prev es (pend_mutation q) (new_term s (pend_mutation q))" "k = pos_index prev + length es"
    using a by (auto simp: action_ok_for_def)
  have "achieves H phased N plan (cr_local s) (abs_core s) (sends_of (cr_local s))
      (finish_committed_prefix src k (mutated s (pend_mutation q)))"
    by (rule finish_prefix_achieves[OF ok p x(1-3) m x(4) new_log_terms[OF ok m]]) (simp_all add: p)
  then show ?thesis using AfterCommittedPrefix by (simp add: after_persistence_action_def)
qed (use n in \<open>simp_all add: activates_def\<close>)

lemma activation_achieves:
  assumes ok: "node_ok H phased N s" and p: "cr_pending s = None" and ph: phased and n: "activates (pend_action q)"
  shows "achieves H phased N plan (cr_local s) (abs_core s) (sends_of (cr_local s)) (after_persistence_action H q s)"
  using n finish_activation_achieves[OF ok p ph] ok
  by (cases "pend_action q")
    (auto simp: after_persistence_action_def activates_def intro!: achieves_here split: option.split)

lemma apply_activation:
  assumes "mut_vote_state m = None" "mut_truncate_from m = None" "mut_append m = []"
  shows "apply_durable_mutation H m s \<in> {(Inr (), s), (Inl InvalidInput, s)}"
  using assms by (simp add: apply_durable_mutation_def apply_vote_state_def apply_truncation_def cbind_def ret_def split: option.split)

lemma completed_node_ok:
  assumes ok: "node_ok H phased N s"
  shows "node_ok H phased N (s\<lparr>cr_pending := None\<rparr>)"
  using ok by (simp add: node_ok_def)

lemma finish_persistence_refines:
  assumes ok: "node_ok H phased N s" and plan: "cr_active_plan s = plan"
  shows "refines H phased N plan s (finish_persistence H i) (sends_of (cr_local s))"
proof (cases "\<exists>q. cr_pending s = Some q \<and> pend_id q = i")
  case False
  then show ?thesis by (intro refines_error[OF ok]) (auto simp: finish_persistence_def split: option.split)
next
  case True
  then obtain q where q: "cr_pending s = Some q" "pend_id q = i" by blast
  let ?s = "s\<lparr>cr_pending := None\<rparr>"
  have al: "alike s ?s" by (simp add: alike_def)
  note ok' = completed_node_ok[OF ok]
  have a: "action_ok_for H phased N ?s (pend_mutation q) (pend_action q)"
    and m: "\<not> activates (pend_action q) \<Longrightarrow> mutation_ok H ?s (pend_mutation q)"
    using node_okD(7)[OF ok] q(1) alike_action_ok[OF al] alike_new(4)[OF al] by (auto simp: pending_ok_def)
  have eq: "finish_persistence H i s =
      cbind (apply_durable_mutation H (pend_mutation q)) (\<lambda>_. after_persistence_action H q) ?s"
    using q by (simp add: finish_persistence_def)
  have "achieves H phased N plan (cr_local ?s) (abs_core ?s) (sends_of (cr_local ?s)) (finish_persistence H i s)"
  proof (cases "activates (pend_action q)")
    case False
    have "finish_persistence H i s = after_persistence_action H q (mutated ?s (pend_mutation q))"
      unfolding eq cbind_def apply_mutation_ok[OF node_okD(1)[OF ok'] m[OF False]] by simp
    then show ?thesis using completion_achieves[OF ok' _ _ m[OF False] a False] plan by simp
  next
    case True
    then have "phased" "apply_durable_mutation H (pend_mutation q) ?s \<in> {(Inr (), ?s), (Inl InvalidInput, ?s)}"
      using a apply_activation[of "pend_mutation q" H ?s] by (auto simp: action_ok_for_def activates_def split: after_persistence.splits)
    then show ?thesis
      unfolding eq using activation_achieves[OF ok' _ _ True] ok'
      by (auto simp: cbind_def intro!: achieves_here)
  qed
  then show ?thesis using alike_abs[OF al] by (simp add: refines_achieves)
qed

section \<open>The step function\<close>

definition input_in :: "bool \<Rightarrow> network \<Rightarrow> node_id \<Rightarrow> core_input \<Rightarrow> bool" where
  "input_in phased N n input =
     (case input of
        Message src _ m \<Rightarrow> abs_message src n m \<subseteq> N \<and> (\<forall>prefix. m = CommittedPrefix prefix \<longrightarrow> phased)
      | ActivateJointPlan _ _ _ \<Rightarrow> phased
      | ActivateStablePlan _ _ _ \<Rightarrow> phased
      | _ \<Rightarrow> True)"

lemma receive_refines:
  assumes ok: "node_ok H phased N s" and p: "cr_pending s = None" and plan: "cr_active_plan s = plan"
    and net: "input_in phased N (cr_local s) (Message src inc m)"
  shows "refines H phased N plan s (receive H src inc m) (sends_of (cr_local s))"
proof (cases "validate_sender s src inc")
  case (Inl e)
  then show ?thesis by (intro refines_error[OF ok]) (simp add: receive_def)
next
  case (Inr u)
  have "refines H phased N plan s (case m of
        VoteRequest request \<Rightarrow> vote_request_received H src request
      | VoteResponse response \<Rightarrow> vote_response_received H src response
      | AppendRequest request \<Rightarrow> append_request_received H src request
      | AppendResponse response \<Rightarrow> append_response_received H src response
      | CommittedPrefix prefix \<Rightarrow> receive_committed_prefix H src prefix) (sends_of (cr_local s))"
    using net vote_request_refines[OF ok] vote_response_refines[OF ok p plan] append_request_refines[OF ok p]
      append_response_refines[OF ok p plan] committed_prefix_refines[OF ok p]
    by (cases m) (simp_all add: input_in_def)
  then show ?thesis using Inr by (cases m) (simp_all add: refines_achieves receive_def)
qed

lemma dispatch_refines:
  assumes ok: "node_ok H phased N s" and p: "cr_pending s = None" and plan: "cr_active_plan s = plan"
    and net: "input_in phased N (cr_local s) input"
  shows "refines H phased N plan s (dispatch H input) (sends_of (cr_local s))"
proof (cases input)
  case Heartbeat
  then show ?thesis using quiet_refines[OF heartbeat_quiet[OF node_okD(1)[OF ok]] ok] by (simp add: dispatch_def)
next
  case (BeginReadBarrier i)
  then show ?thesis using quiet_refines[OF begin_read_barrier_quiet[OF node_okD(1)[OF ok]] ok] by (simp add: dispatch_def)
next
  case (CancelReadBarrier i)
  then show ?thesis using quiet_refines[OF cancel_read_barrier_quiet ok] by (simp add: dispatch_def)
next
  case (Message src inc m)
  then show ?thesis using receive_refines[OF ok p plan] net by (simp add: dispatch_def)
qed (use net start_election_refines[OF ok] finish_persistence_refines[OF ok plan] propose_refines[OF ok]
      activation_refines[OF ok] applied_through_refines[OF ok p] in \<open>simp_all add: dispatch_def input_in_def\<close>)

lemma step_refines:
  assumes ok: "node_ok H phased N s" and plan: "cr_active_plan s = plan"
    and net: "input_in phased N (cr_local s) input"
  shows "refines H phased N plan s (step H input) (sends_of (cr_local s))"
proof (cases "cr_pending s \<noteq> None")
  case pending: True
  show ?thesis
  proof (cases "\<exists>i. input = Persisted i")
    case True
    then show ?thesis
      using finish_persistence_refines[OF ok plan]
      by (auto simp: step_def is_persisted_def dispatch_def refines_achieves)
  next
    case False
    then show ?thesis
      using pending by (intro refines_error[OF ok]) (auto simp: step_def is_persisted_def split: core_input.splits)
  qed
next
  case False
  then show ?thesis
    using dispatch_refines[OF ok _ plan net] by (simp add: step_def refines_achieves)
qed

end
