(* ===== verification/Core_Durability.thy ===== *)
theory Core_Durability
  imports Core_Completion
begin

text \<open>
  Which durable state the core touches, and when. Every input but the completion of a mutation leaves term,
  vote, log, plan and history alone, and stages at most one mutation whose request to persist is then its
  only effect. Completion applies exactly that mutation. The term, the commit index and the applied index
  never decrease, a vote never changes within a term, and the committed prefix of the log never changes.
\<close>

section \<open>Operations that leave durable state alone\<close>

definition calm :: "core \<Rightarrow> core \<Rightarrow> bool" where
  "calm s s' \<longleftrightarrow>
     cr_config s' = cr_config s \<and> cr_active_plan s' = cr_active_plan s \<and> cr_history s' = cr_history s \<and>
     cr_current_term s' = cr_current_term s \<and> cr_voted_for s' = cr_voted_for s \<and> cr_log s' = cr_log s \<and>
     cr_pending s' = cr_pending s \<and> cr_next_persistence_id s' = cr_next_persistence_id s \<and>
     cr_commit_index s \<le> cr_commit_index s' \<and> cr_applied_index s \<le> cr_applied_index s'"

definition calmly :: "'a core_op \<Rightarrow> bool" where
  "calmly m \<longleftrightarrow> (\<forall>s. calm s (snd (m s)))"

named_theorems calm_ops

lemma calm_refl [simp]: "calm s s"
  by (simp add: calm_def)

lemma calm_trans: "calm s s' \<Longrightarrow> calm s' s'' \<Longrightarrow> calm s s''"
  by (simp add: calm_def)

lemma calm_set_leader [simp]: "calm s (set_leader l s)" "calm s (follow_leader ld s)"
  by (simp_all add: calm_def set_leader_def follow_leader_def)

lemma calmlyD: "calmly m \<Longrightarrow> calm s0 s \<Longrightarrow> calm s0 (snd (m s))"
  by (auto simp: calmly_def intro: calm_trans)

lemma calm_bind:
  assumes "calm s (snd (m s))" "\<And>x s'. calm s s' \<Longrightarrow> calm s (snd (f x s'))"
  shows "calm s (snd (cbind m f s))"
  using assms by (cases "m s"; cases "fst (m s)") (auto simp: cbind_def)

lemma calmly_bind [calm_ops]: "calmly m \<Longrightarrow> (\<And>x. calmly (f x)) \<Longrightarrow> calmly (cbind m f)"
  unfolding calmly_def by (meson calm_bind calm_trans)

lemma calmly_ret [calm_ops]: "calmly (ret x)"
  by (simp add: calmly_def ret_def)

lemma calmly_for_each [calm_ops]: "(\<And>x. calmly (f x)) \<Longrightarrow> calmly (for_each f xs)"
  by (induction xs) (auto intro!: calm_ops)

lemma calmly_if [calm_ops]: "calmly m \<Longrightarrow> calmly m' \<Longrightarrow> calmly (if b then m else m')"
  by simp

lemma calmly_probe_effect [calm_ops]: "calmly (probe_effect H peer kind rb)"
  by (auto simp: calmly_def calm_def probe_effect_def probe_emit_def split: role_state.split sum.split option.split)

lemma calm_complete_read_barriers [simp]: "calm s (snd (complete_read_barriers s))"
  by (simp add: complete_read_barriers_def Let_def split: role_state.split)

lemma calm_completed:
  assumes "complete_read_barriers s = (effects, s')" "calm s0 s"
  shows "calm s0 s'"
  using calm_complete_read_barriers[of s] assms by (auto intro: calm_trans)

lemma calmly_acknowledge_read_barrier [calm_ops]: "calmly (acknowledge_read_barrier src rb)"
  unfolding calmly_def acknowledge_read_barrier_def Let_def
  by (auto intro: calm_completed split: option.split role_state.split prod.split)

lemma calmly_begin_read_barrier [calm_ops]: "calmly (begin_read_barrier H i)"
  unfolding calmly_def begin_read_barrier_def Let_def
  by (auto intro: calm_completed intro!: calmlyD[OF calmly_for_each] calm_ops split: role_state.split prod.split)

lemma calmly_cancel_read_barrier [calm_ops]: "calmly (cancel_read_barrier i)"
  by (auto simp: calmly_def cancel_read_barrier_def split: role_state.split)

lemma calmly_applied_through [calm_ops]: "calmly (applied_through k)"
proof -
  have "\<not> k < cr_applied_index s \<Longrightarrow> calm s (s\<lparr>cr_applied_index := k\<rparr>)" for s by (simp add: calm_def)
  then show ?thesis
    by (auto simp: calmly_def applied_through_def intro: calm_completed split: prod.split)
qed

lemma commit_scan_member: "commit_scan matched s ks = Inr (Some i) \<Longrightarrow> i \<in> set ks"
  by (induction ks) (auto split: option.splits if_splits)

lemma calmly_advance [calm_ops]: "calmly advance_leader_commit" "calmly (advance_follower_commit k)"
  by (auto simp: calmly_def calm_def advance_leader_commit_def advance_follower_commit_def Let_def
      dest!: commit_scan_member split: role_state.split sum.split option.split)

lemma calmly_become_leader [calm_ops]: "calmly (become_leader H)"
proof -
  have "calm s (s\<lparr>cr_role := r, cr_leader_id := l\<rparr>)" for s r l by (simp add: calm_def)
  then show ?thesis
    unfolding calmly_def become_leader_def Let_def
    by (auto intro!: calmlyD[OF calmly_bind] calm_ops split: option.split)
qed

lemma calmly_finish_campaign [calm_ops]: "calmly (finish_campaign H)"
proof -
  have "calm s (s\<lparr>cr_leader_id := l, cr_role := r\<rparr>)" for s r l by (simp add: calm_def)
  then show ?thesis
    unfolding calmly_def finish_campaign_def Let_def
    by (auto intro!: calmlyD[OF calmly_bind] calm_ops)
qed

lemma calmly_reply [calm_ops]: "calmly (\<lambda>s. (g s, s))"
  by (simp add: calmly_def)

lemma calmly_finish_committed_prefix [calm_ops]: "calmly (finish_committed_prefix src k)"
  unfolding calmly_def finish_committed_prefix_def by (auto intro!: calmlyD[OF calmly_bind] calm_ops)

lemma calmly_finish_proposal [calm_ops]: "calmly (finish_proposal H proposal position)"
  unfolding calmly_def finish_proposal_def Let_def
  by (auto intro!: calmlyD[OF calmly_bind] calm_ops split: role_state.split option.split)

lemma calmly_heartbeat [calm_ops]: "calmly (heartbeat H)"
proof -
  have [calm_ops]: "calmly (heartbeat_peer H k peer)" for k peer
    unfolding calmly_def heartbeat_peer_def by (auto intro!: calmlyD[OF calmly_bind] calm_ops)
  show ?thesis
    unfolding calmly_def heartbeat_def by (auto intro!: calmlyD[OF calmly_bind] calm_ops)
qed

lemma calmly_after_evidence [calm_ops]: "calmly (after_evidence H src response k l)"
  unfolding calmly_def after_evidence_def by (auto intro!: calmlyD[OF calmly_bind] calm_ops)

lemma calmly_replication_evidence [calm_ops]: "calmly (replication_evidence H src response k l evidence)"
  unfolding calmly_def replication_evidence_def Let_def
  by (auto intro: calmlyD calm_ops split: probe_result.split option.split)

text \<open>Completion of every mutation but a plan activation.\<close>

lemma calmly_after_persistence:
  assumes "\<not> activates (pend_action q)"
  shows "calmly (after_persistence_action H q)"
  using assms
  by (cases "pend_action q")
    (auto simp: calmly_def after_persistence_action_def activates_def Let_def intro!: calmlyD[OF calmly_bind] calm_ops
      intro: calmlyD calm_ops)

section \<open>Handlers stage at most one mutation\<close>

definition elector_ok :: "core \<Rightarrow> durable_mutation \<Rightarrow> bool" where
  "elector_ok s m \<longleftrightarrow> (\<forall>t v. mut_vote_state m = Some (t, Some v) \<longrightarrow> v |\<in>| active_eligible_leaders (cr_active_plan s))"

text \<open>
  Either durable state and the pending mutation are left alone, or the only change is one new pending
  mutation and the only effect is the request to persist it.
\<close>

definition staged :: "core \<Rightarrow> (core_error + core_effect list) \<times> core \<Rightarrow> bool" where
  "staged s rs \<longleftrightarrow> calm s (snd rs) \<or>
     (\<exists>q. snd rs = s\<lparr>cr_next_persistence_id := Suc (cr_next_persistence_id s), cr_pending := Some q\<rparr> \<and>
        fst rs = Inr [Persist (pend_id q) (pend_mutation q)] \<and>
        pend_id q = PersistenceId (cr_next_persistence_id s) \<and> elector_ok s (pend_mutation q))"

lemma staged_calm: "calm s (snd rs) \<Longrightarrow> staged s rs"
  by (simp add: staged_def)

lemma staged_calmly: "calmly m \<Longrightarrow> staged s (m s)"
  by (simp add: staged_def calmly_def)

lemma staged_begin: "elector_ok s m \<Longrightarrow> staged s (begin_persistence m a s)"
  by (auto simp: staged_def begin_persistence_def split: option.split)

lemma staged_split:
  "(b \<Longrightarrow> staged s x) \<Longrightarrow> (\<not> b \<Longrightarrow> staged s y) \<Longrightarrow> staged s (if b then x else y)"
  "(\<And>e. m = Inl e \<Longrightarrow> staged s (f e)) \<Longrightarrow> (\<And>v. m = Inr v \<Longrightarrow> staged s (g v)) \<Longrightarrow>
     staged s (case m of Inl e \<Rightarrow> f e | Inr v \<Rightarrow> g v)"
  "(\<And>c d. p = (c, d) \<Longrightarrow> staged s (k c d)) \<Longrightarrow> staged s (case p of (c, d) \<Rightarrow> k c d)"
  "(o' = None \<Longrightarrow> staged s x) \<Longrightarrow> (\<And>z. o' = Some z \<Longrightarrow> staged s (w z)) \<Longrightarrow> staged s (case o' of None \<Rightarrow> x | Some z \<Rightarrow> w z)"
  "staged s x \<Longrightarrow> (\<And>V. staged s (cv V)) \<Longrightarrow> (\<And>l. staged s (lv l)) \<Longrightarrow>
     staged s (case r of FollowerState \<Rightarrow> x | CandidateState V \<Rightarrow> cv V | LeaderState l \<Rightarrow> lv l)"
  by (simp_all split: sum.split prod.split option.split role_state.split)

lemma elector_simps [simp]:
  "elector_ok s (vote_mutation t None)"
  "elector_ok s (vote_mutation t (Some v)) = (v |\<in>| active_eligible_leaders (cr_active_plan s))"
  "elector_ok s (append_mutation None truncate_from es)" "elector_ok s (append_mutation (Some (t, None)) truncate_from es)"
  "elector_ok s (activation_mutation epoch plan position)"
  by (auto simp: elector_ok_def vote_mutation_def append_mutation_def activation_mutation_def)

lemma staged_start_election: "staged s (start_election s)"
  by (auto simp: start_election_def local_is_eligible_leader_def intro!: staged_calm staged_begin split: option.split)

lemma staged_step_down: "staged s (persist_step_down t s)"
  by (auto simp: persist_step_down_def intro!: staged_begin)

lemma staged_vote_response: "staged s (vote_response_received H src response s)"
proof -
  have "calm s (s\<lparr>cr_role := r\<rparr>)" for r by (simp add: calm_def)
  then show ?thesis
    unfolding vote_response_received_def Let_def
    by (auto intro!: staged_step_down staged_calm intro: calmlyD calm_ops split: sum.split role_state.split)
qed

lemma staged_vote_request: "staged s (vote_request_received H src request s)"
  unfolding vote_request_received_def Let_def
  by (intro staged_split) (auto intro!: staged_calm staged_begin)

lemma staged_append_request: "staged s (append_request_received H src request s)"
proof -
  have "calm s (snd (cbind (advance_follower_commit k) (\<lambda>effects s''. (Inr (effects @ [append_reply_effect s'' src reply]), s''))
     (follow_leader (Some src) s)))" for k reply
    by (auto intro!: calmlyD[OF calmly_bind] calm_ops)
  then show ?thesis
    unfolding append_request_received_def Let_def
    by (intro staged_split) (auto intro!: staged_calm staged_begin)
qed

lemma staged_committed_prefix: "staged s (receive_committed_prefix H src prefix s)"
  unfolding receive_committed_prefix_def Let_def
  by (intro staged_split) (auto intro!: staged_calm staged_begin calmlyD[OF calmly_finish_committed_prefix])

lemma staged_append_response: "staged s (append_response_received H src response s)"
proof -
  have "calm s (snd (cbind (probe_effect H src Replication None) (\<lambda>probe. ret [probe]) (set_leader l s)))" for l
    by (auto intro!: calmlyD[OF calmly_bind] calm_ops)
  then show ?thesis
    unfolding append_response_received_def Let_def
    by (intro staged_split) (auto intro!: staged_step_down staged_calm calmlyD[OF calmly_replication_evidence])
qed

lemma staged_propose: "staged s (propose H proposal operation version command s)"
  unfolding propose_def Let_def
  by (auto intro!: staged_calm staged_begin split: sum.split option.split)

lemma staged_activation:
  "staged s (activate_joint_plan joint incs position s)" "staged s (activate_stable_plan plan incs position s)"
  unfolding activate_joint_plan_def activate_stable_plan_def Let_def
  by (auto intro!: staged_calm staged_begin split: sum.split active_quorum_plan.split)

lemma staged_receive: "staged s (receive H src inc m s)"
  unfolding receive_def
  using staged_vote_request staged_vote_response staged_append_request staged_append_response staged_committed_prefix
  by (auto intro!: staged_calm split: sum.split core_message.split)

text \<open>Every input but the completion of a mutation.\<close>

lemma dispatch_staged:
  assumes "\<not> is_persisted input"
  shows "staged s (dispatch H input s)"
proof (cases input)
  case (Persisted i)
  then show ?thesis using assms by (simp add: is_persisted_def)
qed (simp_all only: dispatch_def core_input.case staged_start_election staged_receive staged_propose staged_activation
      staged_calmly[OF calmly_heartbeat] staged_calmly[OF calmly_begin_read_barrier]
      staged_calmly[OF calmly_cancel_read_barrier] staged_calmly[OF calmly_applied_through])

lemma step_staged:
  assumes "\<not> is_persisted input"
  shows "staged s (step H input s)"
  unfolding step_def using assms dispatch_staged by (simp add: staged_calm)

section \<open>What completion does to durable state\<close>

lemma persisted_calm:
  assumes ok: "node_ok H phased N s" and q: "cr_pending s = Some q" "pend_id q = i" "\<not> activates (pend_action q)"
  shows "mutation_ok H s (pend_mutation q)"
    "calm (mutated (s\<lparr>cr_pending := None\<rparr>) (pend_mutation q)) (snd (step H (Persisted i) s))"
proof -
  let ?s = "s\<lparr>cr_pending := None\<rparr>"
  have al: "alike s ?s" by (simp add: alike_def)
  show m: "mutation_ok H s (pend_mutation q)" using node_okD(7)[OF ok] q by (simp add: pending_ok_def)
  then have m': "mutation_ok H ?s (pend_mutation q)" using alike_new(4)[OF al] by simp
  have "step H (Persisted i) s = after_persistence_action H q (mutated ?s (pend_mutation q))"
    using q apply_mutation_ok[OF node_okD(1)[OF completed_node_ok[OF ok]] m']
    by (simp add: step_def is_persisted_def dispatch_def finish_persistence_def cbind_def)
  then show "calm (mutated ?s (pend_mutation q)) (snd (step H (Persisted i) s))"
    using calmly_after_persistence[OF q(3)] by (simp add: calmly_def)
qed

lemma stale_persisted:
  assumes "\<nexists>q. cr_pending s = Some q \<and> pend_id q = i"
  shows "step H (Persisted i) s = (Inl StalePersistence, s)"
  using assms by (auto simp: step_def is_persisted_def dispatch_def finish_persistence_def split: option.split)

text \<open>A plan activation touches neither term, vote nor log, nor the commit and applied indices.\<close>

definition keeps_log :: "core \<Rightarrow> core \<Rightarrow> bool" where
  "keeps_log s s' \<longleftrightarrow>
     cr_current_term s' = cr_current_term s \<and> cr_voted_for s' = cr_voted_for s \<and> cr_log s' = cr_log s \<and>
     cr_commit_index s \<le> cr_commit_index s' \<and> cr_applied_index s \<le> cr_applied_index s' \<and>
     cr_next_persistence_id s' = cr_next_persistence_id s"

lemma calm_keeps_log: "calm s s' \<Longrightarrow> keeps_log s0 s \<Longrightarrow> keeps_log s0 s'"
  by (auto simp: calm_def keeps_log_def)

lemma keeps_log_refl [simp]: "keeps_log s s"
  by (simp add: keeps_log_def)

lemma keeps_log_trans: "keeps_log s s' \<Longrightarrow> keeps_log s' s'' \<Longrightarrow> keeps_log s s''"
  by (auto simp: keeps_log_def)

lemma activation_keeps_log: "keeps_log s (snd (finish_plan_activation H plan incs position s))"
proof -
  let ?s1 = "s\<lparr>cr_history := history_record (cr_active_plan s) position (cr_history s), cr_active_plan := plan,
     cr_config := (cr_config s)\<lparr>cfg_member_incarnations := incs\<rparr>, cr_replication_peers := fmempty\<rparr>"
  have base: "keeps_log s ?s1" by (simp add: keeps_log_def)
  have role: "keeps_log s (case cr_role ?s1 of LeaderState l \<Rightarrow> set_leader (f l) ?s1 | _ \<Rightarrow> ?s1)" for f
    by (simp add: keeps_log_def set_leader_def split: role_state.split)
  have follow: "keeps_log s s' \<Longrightarrow> keeps_log s (follow_leader None s')" for s'
    by (rule calm_keeps_log[OF calm_set_leader(2)])
  have probes: "keeps_log s s' \<Longrightarrow> keeps_log s (snd (for_each (\<lambda>peer. probe_effect H peer Replication None) ps s'))" for s' ps
    by (rule calm_keeps_log[OF calmlyD[OF calmly_for_each[OF calmly_probe_effect] calm_refl]])
  show ?thesis
    unfolding finish_plan_activation_def Let_def
    using base follow[OF role] probes[OF role] role by (simp split: option.split)
qed

lemma persisted_activation:
  assumes ok: "node_ok H phased N s" and q: "cr_pending s = Some q" "pend_id q = i" "activates (pend_action q)"
  shows "keeps_log s (snd (step H (Persisted i) s))"
proof -
  let ?s = "s\<lparr>cr_pending := None\<rparr>"
  have "mut_vote_state (pend_mutation q) = None" "mut_truncate_from (pend_mutation q) = None" "mut_append (pend_mutation q) = []"
    using node_okD(7)[OF ok] q by (auto simp: pending_ok_def action_ok_for_def activates_def split: after_persistence.splits)
  note apply_activation[OF this, of H ?s]
  moreover have "keeps_log s s' \<Longrightarrow> keeps_log s (snd (after_persistence_action H q s'))" for s'
    using q(3) keeps_log_trans[OF _ activation_keeps_log[of s' H]]
    by (cases "pend_action q") (auto simp: activates_def after_persistence_action_def split: option.split)
  moreover have "keeps_log s ?s" by (simp add: keeps_log_def)
  moreover have "step H (Persisted i) s = cbind (apply_durable_mutation H (pend_mutation q)) (\<lambda>_. after_persistence_action H q) ?s"
    using q by (simp add: step_def is_persisted_def dispatch_def finish_persistence_def)
  ultimately show ?thesis by (auto simp: cbind_def)
qed

section \<open>Progress of a node\<close>

definition advances :: "core \<Rightarrow> core \<Rightarrow> bool" where
  "advances s s' \<longleftrightarrow>
     cr_current_term s \<le> cr_current_term s' \<and>
     (cr_current_term s' = cr_current_term s \<longrightarrow> cr_voted_for s = None \<or> cr_voted_for s' = cr_voted_for s) \<and>
     cr_commit_index s \<le> cr_commit_index s' \<and> cr_applied_index s \<le> cr_applied_index s' \<and>
     take (cr_commit_index s) (cr_log s') = take (cr_commit_index s) (cr_log s)"

lemma keeps_log_advances: "keeps_log s s' \<Longrightarrow> advances s s'"
  by (auto simp: keeps_log_def advances_def)

lemma mutated_advances:
  assumes ok: "node_ok H phased N s" and m: "mutation_ok H s m"
  shows "advances s (mutated (s\<lparr>cr_pending := None\<rparr>) m)"
proof -
  have al: "alike s (s\<lparr>cr_pending := None\<rparr>)" by (simp add: alike_def)
  have "take (cr_commit_index s) (new_log s m) = take (cr_commit_index s) (cr_log s)"
    using m node_okD(4)[OF ok]
    by (auto simp: mutation_ok_def new_log_def mutated_log_def min_def split: option.splits)
  then show ?thesis
    using m by (auto simp: advances_def mutation_ok_def alike_new[OF al])
qed

lemma calm_advances: "calm s s' \<Longrightarrow> advances s0 s \<Longrightarrow> advances s0 s'"
  by (auto simp: calm_def advances_def)

lemma step_advances:
  assumes ok: "node_ok H phased N s"
  shows "advances s (snd (step H input s))"
proof (cases "is_persisted input")
  case False
  from step_staged[OF False, of s H] show ?thesis
    by (auto simp: staged_def advances_def calm_def)
next
  case True
  then obtain i where i: "input = Persisted i" by (auto simp: is_persisted_def split: core_input.splits)
  show ?thesis
  proof (cases "\<exists>q. cr_pending s = Some q \<and> pend_id q = i")
    case False
    then show ?thesis using stale_persisted[OF False, of H] i by (simp add: advances_def)
  next
    case True
    then obtain q where q: "cr_pending s = Some q" "pend_id q = i" by blast
    show ?thesis
      using persisted_calm[OF ok q] persisted_activation[OF ok q] mutated_advances[OF ok] calm_advances keeps_log_advances i
      by (cases "activates (pend_action q)") blast+
  qed
qed

end
