(* ===== verification/Core_Reachable.thy ===== *)
theory Core_Reachable
  imports Core_Durability
begin

text \<open>
  The cores that can exist: one that \<open>restore\<close> or \<open>restore_active\<close> accepted from any durable state, then
  driven by any inputs at all, forged messages included. What restoration accepts is characterised, and
  every such core satisfies the invariant of the refinement.
\<close>

section \<open>Reachable cores\<close>

text \<open>A core restored from any durable state, then driven by arbitrary inputs, hostile ones included.\<close>

inductive core_run :: "(bytes \<Rightarrow> bytes) \<Rightarrow> core \<Rightarrow> bool" for H where
  restored: "restore H config durable = Inr s \<Longrightarrow> core_run H s"
| restored_active: "restore_active H config durable plan = Inr s \<Longrightarrow> core_run H s"
| stepped: "core_run H s \<Longrightarrow> core_run H (snd (step H input s))"
| budgeted: "core_run H s \<Longrightarrow> core_run H (snd (set_replication_budgets budget overrides s))"
| cleared: "core_run H s \<Longrightarrow> core_run H (clear_replication_budget_overrides s)"

lemma restore_shape:
  assumes "restore H config durable = Inr s"
  shows "s = \<lparr>cr_config = config, cr_active_plan = Stable (cfg_plan config), cr_history = fmempty,
    cr_current_term = dur_current_term durable, cr_voted_for = dur_voted_for durable,
    cr_log = dur_log durable, cr_commit_index = dur_applied_index durable,
    cr_applied_index = dur_applied_index durable, cr_leader_id = None, cr_role = FollowerState,
    cr_pending = None, cr_next_persistence_id = 1, cr_next_append_probe_id = 1,
    cr_replication_default = budget_default, cr_replication_peers = fmempty\<rparr>"
  using assms unfolding restore_def Let_def by (simp add: result_simps split: if_splits)

lemma last_entry_index:
  assumes "log_ok H log"
  shows "(case last_opt log of None \<Rightarrow> 0 | Some e \<Rightarrow> entry_index e) = length log"
  using last_position_index[of H "s\<lparr>cr_log := log\<rparr>" for s] assms
  by (simp add: last_position_def GENESIS_def split: option.splits)

lemma validate_durable_loop_Inr:
  assumes "validate_durable_loop H t log (Suc p) (drop p log) = Inr ()" "p \<le> length log"
  shows "(\<forall>i. p \<le> i \<and> i < length log \<longrightarrow>
      entry_index (log ! i) = Suc i \<and> entry_validate H (log ! i) = Inr () \<and> entry_term (log ! i) \<le> t \<and> Suc i < u64_max \<and>
      (0 < i \<longrightarrow> entry_term (log ! (i - 1)) \<le> entry_term (log ! i)))"
  using assms
proof (induction "length log - p" arbitrary: p)
  case (Suc n)
  then have p: "p < length log" by simp
  then have "drop p log = log ! p # drop (Suc p) log" by (simp add: Cons_nth_drop_Suc)
  with Suc.prems(1) have e: "entry_index (log ! p) = Suc p" "entry_validate H (log ! p) = Inr ()" "entry_term (log ! p) \<le> t"
    "0 < p \<longrightarrow> entry_term (log ! (p - 1)) \<le> entry_term (log ! p)" "Suc p < u64_max"
    "validate_durable_loop H t log (Suc (Suc p)) (drop (Suc p) log) = Inr ()"
    by (auto simp: result_simps not_less numeral_2_eq_2 split: if_splits option.splits)
  have IH: "\<forall>i. Suc p \<le> i \<and> i < length log \<longrightarrow>
      entry_index (log ! i) = Suc i \<and> entry_validate H (log ! i) = Inr () \<and> entry_term (log ! i) \<le> t \<and> Suc i < u64_max \<and>
      (0 < i \<longrightarrow> entry_term (log ! (i - 1)) \<le> entry_term (log ! i))"
    using Suc.hyps(1)[OF _ e(6)] Suc.hyps(2) p by simp
  show ?case
  proof (intro allI impI)
    fix i assume "p \<le> i \<and> i < length log"
    then show "entry_index (log ! i) = Suc i \<and> entry_validate H (log ! i) = Inr () \<and> entry_term (log ! i) \<le> t \<and> Suc i < u64_max \<and>
      (0 < i \<longrightarrow> entry_term (log ! (i - 1)) \<le> entry_term (log ! i))"
      using IH e by (cases "i = p") auto
  qed
qed auto

lemma restored_log:
  assumes "restore H config durable = Inr s"
  shows "log_ok H (cr_log s)" "\<forall>e \<in> set (cr_log s). entry_term e \<le> cr_current_term s" "cr_commit_index s \<le> length (cr_log s)"
    "\<forall>i. 0 < i \<and> i < length (cr_log s) \<longrightarrow> entry_term (cr_log s ! (i - 1)) \<le> entry_term (cr_log s ! i)"
    "length (cr_log s) < u64_max"
proof -
  have v: "validate_durable_state H durable = Inr ()"
    using assms by (auto simp: restore_def Let_def result_simps split: if_splits)
  then have "validate_durable_loop H (dur_current_term durable) (dur_log durable) (Suc 0) (drop 0 (dur_log durable)) = Inr ()"
    by (auto simp: validate_durable_state_def result_simps)
  note l = validate_durable_loop_Inr[OF this, simplified]
  have len: "length (dur_log durable) < u64_max"
  proof (cases "dur_log durable")
    case (Cons e es)
    then show ?thesis using l[rule_format, of "length (dur_log durable) - 1"] by simp
  qed (simp add: u64_max_def)
  note shape = restore_shape[OF assms]
  show "length (cr_log s) < u64_max" using len shape by simp
  show log: "log_ok H (cr_log s)" using l len shape by (auto simp: log_ok_def)
  show "\<forall>e \<in> set (cr_log s). entry_term e \<le> cr_current_term s" using l shape by (auto simp: in_set_conv_nth)
  show "\<forall>i. 0 < i \<and> i < length (cr_log s) \<longrightarrow> entry_term (cr_log s ! (i - 1)) \<le> entry_term (cr_log s ! i)"
    using l shape by simp
  have "dur_applied_index durable \<le> length (dur_log durable)"
    using v log shape last_entry_index[of H "dur_log durable"]
    by (auto simp: validate_durable_state_def result_simps Let_def split: if_splits)
  then show "cr_commit_index s \<le> length (cr_log s)" using shape by simp
qed

lemma restored_node_ok:
  assumes "restore H config durable = Inr s"
  shows "node_ok H True N (s\<lparr>cr_history := history, cr_active_plan := plan\<rparr>)" "node_ok H True N s"
  using restored_log[OF assms] restore_shape[OF assms] by (simp_all add: node_ok_def)

lemma any_input: "input_in True UNIV n input"
  by (simp add: input_in_def split: core_input.split)

lemma core_run_ok: "core_run H s \<Longrightarrow> node_ok H True UNIV s"
proof (induction rule: core_run.induct)
  case (restored config durable s)
  then show ?case by (rule restored_node_ok)
next
  case (restored_active config durable plan s)
  then obtain s0 history where "restore H config durable = Inr s0" "s = s0\<lparr>cr_history := history, cr_active_plan := plan\<rparr>"
    by (auto simp: restore_active_def result_simps split: if_splits)
  then show ?case using restored_node_ok(1) by blast
next
  case (stepped s input)
  then show ?case using step_refines[OF stepped.IH refl any_input] by (simp add: refines_def)
next
  case (budgeted s budget overrides)
  have "frame s (snd (set_replication_budgets budget overrides s))"
    by (auto simp: set_replication_budgets_def frame_defs)
  then show ?case using frame_node_ok budgeted.IH by blast
next
  case (cleared s)
  have "frame s (clear_replication_budget_overrides s)" by (simp add: clear_replication_budget_overrides_def frame_defs)
  then show ?case using frame_node_ok cleared.IH by blast
qed

end
