(* ===== verification/Core_Reports.thy ===== *)
theory Core_Reports
  imports Core_Reachable
begin

text \<open>
  What a core tells its host about committed entries. The commit index a leader moves to is the highest
  position of its own term that a commit quorum stores, and one step reports, in log order and exactly once,
  the entries between the old and the new commit index.
\<close>

section \<open>Commit effects\<close>

definition slice :: "nat \<Rightarrow> nat \<Rightarrow> 'a list \<Rightarrow> 'a list" where
  "slice a b l = drop a (take b l)"

lemma slice_same [simp]: "slice a a l = []"
  by (simp add: slice_def)

lemma slice_append: "a \<le> b \<Longrightarrow> b \<le> c \<Longrightarrow> slice a b l @ slice b c l = slice a c l"
proof -
  assume a: "a \<le> b" "b \<le> c"
  have "take c l = take b l @ drop b (take c l)" using a(2) by (metis append_take_drop_id min.absorb1 take_take)
  then show ?thesis
    using a by (cases "b \<le> length l") (simp_all add: slice_def drop_append, (metis drop_append diff_is_0_eq drop0 length_take min.absorb2)?)
qed

lemma entries_slice:
  assumes log: "log_ok H (cr_log s)" and b: "b \<le> length (cr_log s)"
  shows "try_map (\<lambda>index. ok_or InvalidInput (entry s index)) [a + 1 ..< Suc b] = Inr (slice a b (cr_log s))"
proof -
  have "try_map (\<lambda>index. ok_or InvalidInput (entry s index)) ks = Inr (map (\<lambda>k. cr_log s ! (k - 1)) ks)"
    if "\<forall>k \<in> set ks. 0 < k \<and> k \<le> length (cr_log s)" for ks
    using that by (induction ks) (auto simp: entry_eq[OF log])
  moreover have "map (\<lambda>k. cr_log s ! (k - 1)) [a + 1 ..< Suc b] = slice a b (cr_log s)"
    using b by (intro nth_equalityI) (auto simp: slice_def simp del: upt_Suc)
  ultimately show ?thesis using b by (simp del: upt_Suc)
qed

lemma commit_effects_exact:
  assumes "log_ok H (cr_log s)" "cr_commit_index s \<le> length (cr_log s)"
  shows "commit_effects s c = Inr (if cr_commit_index s \<le> c then [] else [CommitReady (slice c (cr_commit_index s) (cr_log s))])"
  unfolding commit_effects_def entries_slice[OF assms] by simp

text \<open>The commit index a leader may advance to.\<close>

definition commit_candidates :: "core \<Rightarrow> leader_state \<Rightarrow> nat set" where
  "commit_candidates s l = {i. cr_commit_index s < i \<and> i \<le> length (cr_log s) \<and> entry_term (cr_log s ! (i - 1)) = cr_current_term s \<and>
     active_satisfies (cr_active_plan s) Commit (acknowledged_through (ls_matched l) i)}"

definition leader_commit :: "core \<Rightarrow> leader_state \<Rightarrow> nat" where
  "leader_commit s l = Max (insert (cr_commit_index s) (commit_candidates s l))"

lemma commit_candidates_finite: "finite (commit_candidates s l)"
  by (rule finite_subset[of _ "{..length (cr_log s)}"]) (auto simp: commit_candidates_def)

lemma leader_commit_highest:
  "leader_commit s l \<noteq> cr_commit_index s \<longrightarrow> leader_commit s l \<in> commit_candidates s l"
  "\<forall>i. leader_commit s l < i \<longrightarrow> i \<notin> commit_candidates s l" "cr_commit_index s \<le> leader_commit s l"
proof -
  have fin: "finite (insert (cr_commit_index s) (commit_candidates s l))" using commit_candidates_finite by simp
  from Max_in[OF fin] show "leader_commit s l \<noteq> cr_commit_index s \<longrightarrow> leader_commit s l \<in> commit_candidates s l"
    by (auto simp: leader_commit_def)
  show "cr_commit_index s \<le> leader_commit s l" "\<forall>i. leader_commit s l < i \<longrightarrow> i \<notin> commit_candidates s l"
    using Max_ge[OF fin] by (auto simp: leader_commit_def simp del: Max_insert) (meson insertI2 leD)
qed

lemma commit_scan_find:
  assumes log: "log_ok H (cr_log s)" and ks: "\<forall>k \<in> set ks. 0 < k \<and> k \<le> length (cr_log s)"
  shows "commit_scan matched s ks = Inr (List.find (\<lambda>i. entry_term (cr_log s ! (i - 1)) = cr_current_term s \<and>
     active_satisfies (cr_active_plan s) Commit (acknowledged_through matched i)) ks)"
  using ks by (induction ks) (auto simp: entry_eq[OF log])

lemma find_rev_upt:
  "List.find P (rev [a ..< b]) = (if \<exists>i. a \<le> i \<and> i < b \<and> P i then Some (Max {i. a \<le> i \<and> i < b \<and> P i}) else None)"
proof (induction b)
  case (Suc b)
  show ?case
  proof (cases "a \<le> b")
    case True
    show ?thesis
    proof (cases "P b")
      case p: True
      have "Max {i. a \<le> i \<and> i < Suc b \<and> P i} = b" using True p by (intro Max_eqI) auto
      then show ?thesis using True p by auto
    next
      case False
      then have "{i. a \<le> i \<and> i < Suc b \<and> P i} = {i. a \<le> i \<and> i < b \<and> P i}" by (auto simp: less_Suc_eq)
      then show ?thesis using True False Suc.IH by (auto simp: less_Suc_eq)
    qed
  qed auto
qed simp

lemma leader_commit_exact:
  assumes log: "log_ok H (cr_log s)" and c: "cr_commit_index s \<le> length (cr_log s)" and role: "cr_role s = LeaderState l"
  shows "advance_leader_commit s =
    (Inr (if leader_commit s l = cr_commit_index s then []
       else [CommitReady (slice (cr_commit_index s) (leader_commit s l) (cr_log s))]),
     s\<lparr>cr_commit_index := leader_commit s l\<rparr>)"
proof -
  let ?C = "commit_candidates s l"
  have fin: "finite ?C" by (rule commit_candidates_finite)
  have C: "{i. cr_commit_index s + 1 \<le> i \<and> i < Suc (length (cr_log s)) \<and> entry_term (cr_log s ! (i - 1)) = cr_current_term s \<and>
      active_satisfies (cr_active_plan s) Commit (acknowledged_through (ls_matched l) i)} = ?C"
    by (auto simp: commit_candidates_def)
  have scan: "commit_scan (ls_matched l) s (rev [cr_commit_index s + 1 ..< Suc (length (cr_log s))]) =
      Inr (if ?C \<noteq> {} then Some (Max ?C) else None)"
  proof -
    have ex: "(\<exists>i. cr_commit_index s + 1 \<le> i \<and> i < Suc (length (cr_log s)) \<and> entry_term (cr_log s ! (i - 1)) = cr_current_term s \<and>
      active_satisfies (cr_active_plan s) Commit (acknowledged_through (ls_matched l) i)) \<longleftrightarrow> ?C \<noteq> {}"
      using C by blast
    have "\<forall>k \<in> set (rev [cr_commit_index s + 1 ..< Suc (length (cr_log s))]). 0 < k \<and> k \<le> length (cr_log s)" by auto
    from commit_scan_find[OF log this, of "ls_matched l"] show ?thesis unfolding find_rev_upt C ex .
  qed
  show ?thesis
  proof (cases "?C = {}")
    case True
    have "commit_effects s (cr_commit_index s) = Inr []" by (simp add: commit_effects_def)
    then show ?thesis
      using True role scan last_position_index[OF log]
      by (simp add: advance_leader_commit_def leader_commit_def)
  next
    case False
    have "Max ?C \<in> ?C" using fin False by (rule Max_in)
    then have m: "cr_commit_index s < Max ?C" "Max ?C \<le> length (cr_log s)" by (auto simp: commit_candidates_def)
    then have lc: "leader_commit s l = Max ?C" using fin False by (simp add: leader_commit_def max_def)
    show ?thesis
      using False role scan last_position_index[OF log] m lc commit_effects_exact[of H "s\<lparr>cr_commit_index := Max ?C\<rparr>"] log
      by (simp add: advance_leader_commit_def)
  qed
qed

section \<open>Reporting of committed entries\<close>

fun committed_by :: "core_effect \<Rightarrow> log_entry list" where
  "committed_by (CommitReady es) = es"
| "committed_by _ = []"

definition commits :: "core_effect list \<Rightarrow> log_entry list" where
  "commits effects = concat (map committed_by effects)"

lemma commits_simps [simp]: "commits [] = []" "commits (e # es) = committed_by e @ commits es" "commits (xs @ ys) = commits xs @ commits ys"
  by (simp_all add: commits_def)

lemma replies_commit_nothing [simp]:
  "committed_by (append_reply_effect s to reply) = []" "committed_by (membership_notice_effect s to) = []"
  "committed_by (vote_effect s to granted) = []"
  by (simp_all add: append_reply_effect_def membership_notice_effect_def vote_effect_def)

text \<open>Operations that neither move the commit index nor report entries.\<close>

definition mute :: "('a \<Rightarrow> bool) \<Rightarrow> 'a core_op \<Rightarrow> bool" where
  "mute P m \<longleftrightarrow> (\<forall>s. cr_commit_index (snd (m s)) = cr_commit_index s \<and> (\<forall>x. fst (m s) = Inr x \<longrightarrow> P x))"

abbreviation no_commit :: "core_effect \<Rightarrow> bool" where "no_commit e \<equiv> committed_by e = []"
abbreviation no_commits :: "core_effect list \<Rightarrow> bool" where "no_commits es \<equiv> commits es = []"

named_theorems mute_ops

lemma muteD: "mute P m \<Longrightarrow> cr_commit_index (snd (m s)) = cr_commit_index s" "mute P m \<Longrightarrow> fst (m s) = Inr x \<Longrightarrow> P x"
  by (auto simp: mute_def)

lemma mute_bind [mute_ops]:
  assumes "mute P m" "\<And>x. P x \<Longrightarrow> mute Q (k x)"
  shows "mute Q (cbind m k)"
  unfolding mute_def
proof (intro allI)
  fix s
  show "cr_commit_index (snd (cbind m k s)) = cr_commit_index s \<and> (\<forall>x. fst (cbind m k s) = Inr x \<longrightarrow> Q x)"
  proof (cases "m s")
    case (Pair r s')
    show ?thesis
    proof (cases r)
      case (Inl e)
      then show ?thesis using Pair muteD(1)[OF assms(1), of s] by (simp add: cbind_def)
    next
      case (Inr x)
      then have "P x" "cr_commit_index s' = cr_commit_index s" using Pair muteD[OF assms(1), of s] by auto
      then show ?thesis using assms(2)[of x] Pair Inr by (auto simp: cbind_def mute_def)
    qed
  qed
qed

lemma mute_ret [mute_ops]: "P x \<Longrightarrow> mute P (ret x)"
  by (simp add: mute_def ret_def)

lemma mute_for_each [mute_ops]: "(\<And>x. mute no_commit (f x)) \<Longrightarrow> mute no_commits (for_each f xs)"
proof (induction xs)
  case (Cons x xs)
  then show ?case by (auto intro!: mute_bind[where P = no_commit] mute_bind[where P = no_commits] mute_ret)
qed (simp add: mute_ret)

lemma mute_probe_effect [mute_ops]: "mute no_commit (probe_effect H peer kind rb)"
  by (auto simp: mute_def probe_effect_def probe_emit_def split: role_state.split sum.split option.split)

lemma mute_heartbeat_peer: "mute no_commits (heartbeat_peer H k peer)"
proof -
  have "mute no_commits (cbind (if b then cbind (probe_effect H peer Replication None) (\<lambda>probe. ret [probe]) else ret [])
     (\<lambda>replication. cbind (probe_effect H peer Contact None) (\<lambda>contact. ret (replication @ [contact]))))" for b
  proof (rule mute_bind[where P = no_commits])
    show "mute no_commits (if b then cbind (probe_effect H peer Replication None) (\<lambda>probe. ret [probe]) else ret [])"
      by (auto intro!: mute_bind[where P = no_commit] mute_ret mute_probe_effect)
    show "mute no_commits (cbind (probe_effect H peer Contact None) (\<lambda>contact. ret (x @ [contact])))" if "commits x = []" for x
      using that by (auto intro!: mute_bind[where P = no_commit] mute_ret mute_probe_effect)
  qed
  then show ?thesis by (auto simp: mute_def heartbeat_peer_def)
qed

lemma mute_for_each_lists: "(\<And>x. mute no_commits (f x)) \<Longrightarrow> mute (\<lambda>ys. no_commits (concat ys)) (for_each f xs)"
proof (induction xs)
  case (Cons x xs)
  then show ?case by (auto intro!: mute_bind[where P = no_commits] mute_bind[where P = "\<lambda>ys. no_commits (concat ys)"] mute_ret)
qed (simp add: mute_ret)

lemma mute_heartbeat [mute_ops]: "mute no_commits (heartbeat H)"
proof -
  have "mute no_commits (cbind (for_each (heartbeat_peer H k) ps) (\<lambda>effects. ret (concat effects)))" for k ps
    by (rule mute_bind[OF mute_for_each_lists[OF mute_heartbeat_peer]]) (auto intro: mute_ret)
  then show ?thesis by (auto simp: mute_def heartbeat_def)
qed

lemma complete_read_barriers_mute:
  "cr_commit_index (snd (complete_read_barriers s)) = cr_commit_index s" "commits (fst (complete_read_barriers s)) = []"
proof -
  have "commits (map (\<lambda>(i, b). ReadBarrierReady i (g b)) xs) = []" for g and xs :: "(read_barrier_id \<times> read_barrier_state) list"
    by (induction xs) auto
  then show "commits (fst (complete_read_barriers s)) = []"
    by (auto simp: complete_read_barriers_def Let_def split: role_state.split)
qed (simp add: complete_read_barriers_def Let_def set_leader_def split: role_state.split)

lemma completed_mute:
  assumes "complete_read_barriers s = (effects, s')"
  shows "cr_commit_index s' = cr_commit_index s \<and> commits effects = []"
  using complete_read_barriers_mute[of s] assms by simp

lemma commit_set_leader [simp]: "cr_commit_index (set_leader l s) = cr_commit_index s" "cr_commit_index (follow_leader ld s) = cr_commit_index s"
  by (simp_all add: set_leader_def follow_leader_def)

lemma mute_acknowledge_read_barrier [mute_ops]: "mute no_commits (acknowledge_read_barrier src rb)"
  by (auto simp: mute_def acknowledge_read_barrier_def Let_def dest!: completed_mute split: option.split role_state.split prod.split)

lemma mute_begin_read_barrier [mute_ops]: "mute no_commits (begin_read_barrier H i)"
proof -
  note p = mute_for_each[OF mute_probe_effect[of H _ Contact "Some i"], unfolded mute_def, rule_format]
  show ?thesis
    unfolding mute_def begin_read_barrier_def Let_def
    by (auto dest!: completed_mute simp: p[THEN conjunct1] dest: p[THEN conjunct2, rule_format] split: role_state.split prod.split)
qed

lemma mute_cancel_read_barrier [mute_ops]: "mute no_commits (cancel_read_barrier i)"
  by (auto simp: mute_def cancel_read_barrier_def split: role_state.split)

lemma mute_applied_through [mute_ops]: "mute no_commits (applied_through k)"
  by (auto simp: mute_def applied_through_def Let_def dest!: completed_mute split: prod.split)

lemma mute_become_leader [mute_ops]: "mute no_commits (become_leader H)"
proof -
  have "mute no_commits (cbind (for_each (\<lambda>peer. probe_effect H peer Replication None) ps) (\<lambda>sends. ret (RoleChanged Leader t # sends)))" for ps t
    by (rule mute_bind[where P = no_commits]) (auto intro!: mute_ops)
  note p = this[unfolded mute_def, rule_format]
  show ?thesis
    unfolding mute_def become_leader_def Let_def
    by (auto simp: p[THEN conjunct1] dest: p[THEN conjunct2, rule_format] split: option.split)
qed

lemma mute_finish_campaign [mute_ops]: "mute no_commits (finish_campaign H)"
proof -
  have "mute no_commits (cbind (become_leader H) (\<lambda>effects. ret (RoleChanged Candidate t # effects)))" for t
    by (rule mute_bind[where P = no_commits]) (auto intro!: mute_ops)
  note p = this[unfolded mute_def, rule_format]
  have "commits (map (\<lambda>voter. Send voter m) vs) = []" for m vs by (induction vs) auto
  then show ?thesis
    unfolding mute_def finish_campaign_def Let_def
    by (auto simp: p[THEN conjunct1] dest: p[THEN conjunct2, rule_format])
qed

lemma mute_begin_persistence [mute_ops]: "mute no_commits (begin_persistence m a)"
  by (auto simp: mute_def begin_persistence_def split: option.split)

text \<open>Operations that report exactly the entries they commit.\<close>

definition reports :: "core \<Rightarrow> (core_error + core_effect list) \<times> core \<Rightarrow> bool" where
  "reports s rs \<longleftrightarrow> (\<forall>x. fst rs = Inr x \<longrightarrow> commits x = slice (cr_commit_index s) (cr_commit_index (snd rs)) (cr_log (snd rs)))"

definition sound :: "(bytes \<Rightarrow> bytes) \<Rightarrow> core \<Rightarrow> bool" where
  "sound H s \<longleftrightarrow> log_ok H (cr_log s) \<and> cr_commit_index s \<le> length (cr_log s)"

lemma reports_mute: "mute no_commits m \<Longrightarrow> cr_commit_index s = cr_commit_index s0 \<Longrightarrow> reports s0 (m s)"
  by (simp add: reports_def mute_def)

lemma reports_plain: "cr_commit_index s' = cr_commit_index s \<Longrightarrow> (\<And>x. r = Inr x \<Longrightarrow> no_commits x) \<Longrightarrow> reports s (r, s')"
  by (simp add: reports_def)

lemma reports_bind:
  assumes m: "reports s (m s0)"
    and k: "\<And>x. mute (\<lambda>y. commits y = commits x) (k x)" "\<And>x. calmly (k x)"
  shows "reports s (cbind m k s0)"
proof (cases "m s0")
  case (Pair r s1)
  show ?thesis
  proof (cases r)
    case (Inl e)
    then show ?thesis using Pair by (simp add: cbind_def reports_def)
  next
    case (Inr x)
    have "cr_log (snd (k x s1)) = cr_log s1" using k(2)[of x] by (simp add: calmly_def calm_def)
    then show ?thesis
      using m Pair Inr muteD[OF k(1)[of x], of s1] by (auto simp: cbind_def reports_def)
  qed
qed

lemma reports_advance:
  assumes "sound H s"
  shows "reports s (advance_leader_commit s)" "reports s (advance_follower_commit k s)"
proof -
  have log: "log_ok H (cr_log s)" "cr_commit_index s \<le> length (cr_log s)" using assms by (auto simp: sound_def)
  show "reports s (advance_leader_commit s)"
  proof (cases "cr_role s")
    case (LeaderState l)
    then show ?thesis using leader_commit_exact[OF log LeaderState] by (simp add: reports_def)
  qed (simp_all add: advance_leader_commit_def reports_def)
  show "reports s (advance_follower_commit k s)"
    using log commit_effects_exact[of H "s\<lparr>cr_commit_index := max (min k (length (cr_log s))) (cr_commit_index s)\<rparr>" "cr_commit_index s"]
      last_position_index[OF log(1)]
    by (auto simp: advance_follower_commit_def Let_def reports_def slice_def max_def)
qed

lemma mute_reply: "mute (\<lambda>y. commits y = commits x) (\<lambda>s. (Inr (x @ [append_reply_effect s to reply]), s))"
  "mute (\<lambda>y. commits y = commits x) (\<lambda>s. (Inr (x @ [membership_notice_effect s to]), s))"
  by (simp_all add: mute_def)

lemma reports_committed_prefix:
  assumes "sound H s"
  shows "reports s (finish_committed_prefix src k s)"
proof -
  let ?s = "follow_leader None s"
  have f: "sound H ?s" using assms by (simp add: sound_def follow_leader_def)
  have "reports ?s (finish_committed_prefix src k s)"
    unfolding finish_committed_prefix_def by (rule reports_bind) (rule reports_advance(2)[OF f] mute_reply(2) calmly_reply)+
  then show ?thesis by (simp add: reports_def)
qed

lemma reports_append_reply:
  assumes "sound H s"
  shows "reports s (cbind (advance_follower_commit k) (\<lambda>effects s'. (Inr (effects @ [append_reply_effect s' to reply]), s')) (follow_leader ld s))"
proof -
  have f: "sound H (follow_leader ld s)" using assms by (simp add: sound_def follow_leader_def)
  have "reports (follow_leader ld s) (cbind (advance_follower_commit k) (\<lambda>effects s'. (Inr (effects @ [append_reply_effect s' to reply]), s')) (follow_leader ld s))"
    by (rule reports_bind) (rule reports_advance(2)[OF f] mute_reply(1) calmly_reply)+
  then show ?thesis by (simp add: reports_def)
qed

lemma probes_mute: "mute no_commits (for_each (\<lambda>peer. probe_effect H peer kind rb) ps)"
  by (intro mute_for_each mute_probe_effect)

lemma probes_calm: "calmly (for_each (\<lambda>peer. probe_effect H peer kind rb) ps)"
  by (intro calm_ops)

lemma reports_finish_proposal:
  assumes "sound H s"
  shows "reports s (finish_proposal H proposal position s)"
proof -
  have "reports s (cbind (for_each (\<lambda>peer. probe_effect H peer Replication None) ps)
      (\<lambda>sends. cbind advance_leader_commit (\<lambda>committed. ret (ProposalAppended proposal position # sends @ committed))) (set_leader l s))" for l ps
  proof -
    let ?m = "for_each (\<lambda>peer. probe_effect H peer Replication None) ps"
    show ?thesis
    proof (cases "?m (set_leader l s)")
      case (Pair r s1)
      have c: "calm (set_leader l s) s1" "cr_commit_index s1 = cr_commit_index s"
        using calmlyD[OF probes_calm[of H Replication None ps] calm_refl, of "set_leader l s"]
          muteD(1)[OF probes_mute[of H Replication None ps], of "set_leader l s"] Pair by simp_all
      show ?thesis
      proof (cases r)
        case (Inl e)
        then show ?thesis using Pair by (simp add: cbind_def reports_def)
      next
        case (Inr x)
        have x: "no_commits x" using muteD(2)[OF probes_mute[of H Replication None ps], of "set_leader l s"] Pair Inr by simp
        have "sound H s1" using c assms by (simp add: sound_def calm_def set_leader_def)
        then have "reports s1 (cbind advance_leader_commit (\<lambda>committed. ret (ProposalAppended proposal position # x @ committed)) s1)"
          using x by (intro reports_bind) (auto intro!: reports_advance mute_ret calm_ops)
        then show ?thesis using Pair Inr c(2) by (simp add: cbind_def reports_def)
      qed
    qed
  qed
  then show ?thesis
    unfolding finish_proposal_def Let_def by (auto intro!: reports_plain split: role_state.split option.split)
qed

lemma reports_after_evidence:
  assumes "sound H s"
  shows "reports s (after_evidence H src response k l s)"
proof -
  have f: "sound H (set_leader l s)" using assms by (simp add: sound_def set_leader_def)
  have "reports (set_leader l s) (after_evidence H src response k l s)"
    unfolding after_evidence_def
  proof (rule reports_bind)
    show "reports (set_leader l s) (advance_leader_commit (set_leader l s))" by (rule reports_advance(1)[OF f])
    fix committed
    show "mute (\<lambda>y. commits y = commits committed) (cbind (acknowledge_read_barrier src (ares_read_barrier_id response)) (\<lambda>reads.
       if lookup_or 1 src (ls_next l) \<le> k
       then cbind (probe_effect H src Replication None) (\<lambda>probe. ret (committed @ reads @ [probe]))
       else ret (committed @ reads)))"
      by (rule mute_bind[OF mute_acknowledge_read_barrier]) (auto intro!: mute_bind[OF mute_probe_effect] mute_ret)
    show "calmly (cbind (acknowledge_read_barrier src (ares_read_barrier_id response)) (\<lambda>reads.
       if lookup_or 1 src (ls_next l) \<le> k
       then cbind (probe_effect H src Replication None) (\<lambda>probe. ret (committed @ reads @ [probe]))
       else ret (committed @ reads)))"
      by (intro calm_ops)
  qed
  then show ?thesis by (simp add: reports_def)
qed

lemma reports_split:
  "(b \<Longrightarrow> reports s x) \<Longrightarrow> (\<not> b \<Longrightarrow> reports s y) \<Longrightarrow> reports s (if b then x else y)"
  "(\<And>e. m = Inl e \<Longrightarrow> reports s (f e)) \<Longrightarrow> (\<And>v. m = Inr v \<Longrightarrow> reports s (g v)) \<Longrightarrow>
     reports s (case m of Inl e \<Rightarrow> f e | Inr v \<Rightarrow> g v)"
  "(\<And>c d. p = (c, d) \<Longrightarrow> reports s (k c d)) \<Longrightarrow> reports s (case p of (c, d) \<Rightarrow> k c d)"
  "(o' = None \<Longrightarrow> reports s x) \<Longrightarrow> (\<And>z. o' = Some z \<Longrightarrow> reports s (w z)) \<Longrightarrow> reports s (case o' of None \<Rightarrow> x | Some z \<Rightarrow> w z)"
  "reports s x \<Longrightarrow> (\<And>V. reports s (cv V)) \<Longrightarrow> (\<And>l. reports s (lv l)) \<Longrightarrow>
     reports s (case r of FollowerState \<Rightarrow> x | CandidateState V \<Rightarrow> cv V | LeaderState l \<Rightarrow> lv l)"
  by (simp_all split: sum.split prod.split option.split role_state.split)

lemma reports_begin: "reports s (begin_persistence m a s)"
  by (rule reports_mute[OF mute_begin_persistence refl])

lemma reports_replication_evidence:
  assumes "sound H s"
  shows "reports s (replication_evidence H src response k l evidence s)"
  unfolding replication_evidence_def Let_def
  using reports_after_evidence[OF assms] reports_mute[OF mute_acknowledge_read_barrier]
  by (auto intro!: reports_plain split: probe_result.split option.split)

lemma replay_commits: "replay_membership_prefix H s peer response = Inr x \<Longrightarrow> no_commits x"
  by (auto simp: replay_membership_prefix_def Let_def result_simps split: if_splits)

lemma reports_append_response:
  assumes "sound H s"
  shows "reports s (append_response_received H src response s)"
proof -
  have p: "reports s (cbind (probe_effect H src Replication None) (\<lambda>probe. ret [probe]) (set_leader l s))" for l
    by (rule reports_mute[OF mute_bind[OF mute_probe_effect]]) (auto intro: mute_ret)
  show ?thesis
    unfolding append_response_received_def Let_def persist_step_down_def
    by (intro reports_split)
      (auto intro!: reports_plain reports_begin p reports_replication_evidence[OF assms] dest: replay_commits)
qed

lemma reports_append_request:
  assumes "sound H s"
  shows "reports s (append_request_received H src request s)"
  unfolding append_request_received_def Let_def
  by (intro reports_split)
    (auto intro!: reports_plain reports_begin reports_append_reply[OF assms])

lemma reports_receive_prefix:
  assumes "sound H s"
  shows "reports s (receive_committed_prefix H src prefix s)"
  unfolding receive_committed_prefix_def Let_def
  by (intro reports_split)
    (auto intro!: reports_plain reports_begin reports_committed_prefix[OF assms])

lemma reports_vote_request: "reports s (vote_request_received H src request s)"
proof -
  have "vote_request_stale H s src request = Inr x \<Longrightarrow> no_commits x" for x
    by (auto simp: vote_request_stale_def result_simps dest: replay_commits split: if_splits)
  then show ?thesis
    unfolding vote_request_received_def Let_def
    by (intro reports_split) (auto intro!: reports_plain reports_begin)
qed

lemma reports_vote_response: "reports s (vote_response_received H src response s)"
  unfolding vote_response_received_def Let_def persist_step_down_def
  by (intro reports_split) (auto intro!: reports_plain reports_begin reports_mute[OF mute_become_leader])

lemma reports_receive:
  assumes "sound H s"
  shows "reports s (receive H src inc m s)"
  unfolding receive_def
  using reports_vote_request reports_vote_response reports_append_request[OF assms] reports_append_response[OF assms] reports_receive_prefix[OF assms]
  by (auto intro!: reports_plain split: sum.split core_message.split)

lemma reports_finish_plan_activation: "reports s (finish_plan_activation H plan incs position s)"
proof -
  have c: "cr_commit_index (case r of LeaderState l \<Rightarrow> set_leader (f l) s1 | _ \<Rightarrow> s1) = cr_commit_index s1" for r f s1
    by (simp split: role_state.split)
  show ?thesis
    unfolding finish_plan_activation_def Let_def
    by (intro reports_split) (auto intro!: reports_plain reports_mute[OF probes_mute] simp: c)
qed

lemma reports_after_persistence:
  assumes "sound H s"
  shows "reports s (after_persistence_action H q s)"
proof (cases "pend_action q")
  case (AppendReply to leader ci reply)
  have r: "reports (follow_leader (Some leader) s) (cbind (ret []) (\<lambda>effects s'. (Inr (effects @ [append_reply_effect s' to reply]), s')) (follow_leader (Some leader) s))"
    by (simp add: cbind_def ret_def reports_def)
  then show ?thesis
    using AppendReply reports_append_reply[OF assms] by (auto simp: after_persistence_action_def reports_def)
qed (use reports_committed_prefix[OF assms] reports_finish_proposal[OF assms] reports_finish_plan_activation
      reports_mute[OF mute_finish_campaign] in \<open>auto simp: after_persistence_action_def Let_def intro!: reports_plain split: option.split\<close>)

lemma node_sound: "node_ok H phased N s \<Longrightarrow> sound H s"
  by (simp add: node_ok_def sound_def)

lemma mutated_sound:
  assumes ok: "node_ok H phased N s" and m: "mutation_ok H s m"
  shows "sound H (mutated s m)"
proof -
  have "take (cr_commit_index s) (new_log s m) = take (cr_commit_index s) (cr_log s)"
    using mutated_advances[OF ok m] alike_new(3)[of s "s\<lparr>cr_pending := None\<rparr>" m] by (simp add: advances_def alike_def)
  then have "cr_commit_index s \<le> length (new_log s m)"
    by (rule length_of_take) (rule node_okD(4)[OF ok])
  then show ?thesis using m by (simp add: sound_def mutation_ok_def)
qed

lemma reports_finish_persistence:
  assumes ok: "node_ok H phased N s"
  shows "reports s (finish_persistence H i s)"
proof (cases "\<exists>q. cr_pending s = Some q \<and> pend_id q = i")
  case False
  then show ?thesis by (auto simp: finish_persistence_def intro!: reports_plain split: option.split)
next
  case True
  then obtain q where q: "cr_pending s = Some q" "pend_id q = i" by blast
  let ?s = "s\<lparr>cr_pending := None\<rparr>"
  note ok' = completed_node_ok[OF ok]
  have al: "alike s ?s" by (simp add: alike_def)
  have eq: "finish_persistence H i s = cbind (apply_durable_mutation H (pend_mutation q)) (\<lambda>_. after_persistence_action H q) ?s"
    using q by (simp add: finish_persistence_def)
  show ?thesis
  proof (cases "activates (pend_action q)")
    case False
    then have m: "mutation_ok H ?s (pend_mutation q)"
      using node_okD(7)[OF ok] q alike_new(4)[OF al] by (simp add: pending_ok_def)
    have "reports (mutated ?s (pend_mutation q)) (finish_persistence H i s)"
      unfolding eq cbind_def apply_mutation_ok[OF node_okD(1)[OF ok'] m]
      using reports_after_persistence[OF mutated_sound[OF ok' m]] by simp
    then show ?thesis by (simp add: reports_def)
  next
    case True
    then have "apply_durable_mutation H (pend_mutation q) ?s \<in> {(Inr (), ?s), (Inl InvalidInput, ?s)}"
      using node_okD(7)[OF ok] q(1) apply_activation[of "pend_mutation q" H ?s]
      by (auto simp: pending_ok_def action_ok_for_def activates_def split: after_persistence.splits)
    then show ?thesis
      unfolding eq using reports_after_persistence[OF node_sound[OF ok'], of q] by (auto simp: cbind_def reports_def)
  qed
qed

lemma reports_dispatch:
  assumes ok: "node_ok H phased N s"
  shows "reports s (dispatch H input s)"
proof -
  have "reports s (start_election s)"
    unfolding start_election_def by (auto intro!: reports_plain reports_begin split: option.split)
  moreover have "reports s (propose H proposal operation version command s)" for proposal operation version command
    unfolding propose_def Let_def by (intro reports_split) (auto intro!: reports_plain reports_begin split: option.split sum.split)
  moreover have "reports s (activate_joint_plan joint incs position s)" "reports s (activate_stable_plan plan incs position s)"
    for joint incs position plan
    unfolding activate_joint_plan_def activate_stable_plan_def Let_def
    by (auto intro!: reports_plain reports_begin split: active_quorum_plan.split sum.split)
  ultimately show ?thesis
    using reports_receive[OF node_sound[OF ok]] reports_finish_persistence[OF ok] reports_mute[OF mute_heartbeat refl]
      reports_mute[OF mute_begin_read_barrier refl] reports_mute[OF mute_cancel_read_barrier refl] reports_mute[OF mute_applied_through refl]
    by (cases input) (simp_all only: dispatch_def core_input.case)
qed

lemma step_reports:
  assumes ok: "node_ok H phased N s"
  shows "reports s (step H input s)"
  unfolding step_def using reports_dispatch[OF ok] by (auto intro!: reports_plain)

end
