(* ===== verification/Membership_Properties.thy ===== *)
theory Membership_Properties
  imports Membership_History Append_Probes
begin

text \<open>
  The correctness properties of the membership layer and of append probes: the stored plan records and the
  replicated membership commands, the planners that build them, the history rebuilt from the log, and the
  bounded lanes of outstanding probes.
\<close>

section \<open>A concrete plan\<close>

definition fixed_digest :: "bytes \<Rightarrow> bytes" where "fixed_digest _ = replicate 32 7"

abbreviation member_one :: node_id where "member_one \<equiv> NodeId (replicate 16 1)"
abbreviation member_two :: node_id where "member_two \<equiv> NodeId (replicate 16 2)"

definition solo_spec :: quorum_plan_spec where
  "solo_spec = \<lparr>spec_plan_id = QuorumPlanId (replicate 16 9), spec_format_version = 1, spec_membership_epoch = 4,
     spec_voters = {|member_one|}, spec_learners = {|member_two|}, spec_eligible_leaders = {|member_one|},
     spec_election = AtLeast 1 [Voter member_one], spec_commit = AtLeast 1 [Voter member_one],
     spec_read = AtLeast 1 [Voter member_one]\<rparr>"

definition solo_family :: family_proof where
  "solo_family = \<lparr>minimal_quorums = [VoterSet 1], minimal_cut_sets = [VoterSet 1]\<rparr>"

definition solo_plan :: compiled_quorum_plan where
  "solo_plan = \<lparr>plan_spec = solo_spec, ordered_voters = [member_one], plan_election = solo_family,
     plan_commit = solo_family, plan_read = solo_family, plan_proof_digest = replicate 32 7\<rparr>"

definition solo_incarnations :: member_incarnations where
  "solo_incarnations = MemberIncarnations (fmap_of_list [(member_one, 3), (member_two, 5)])"

lemma solo_compiles: "compile_plan fixed_digest solo_spec = Inr solo_plan"
  by code_simp

lemma solo_valid: "valid_plan fixed_digest solo_plan"
  using compile_plan_valid[OF solo_compiles] by simp

lemma sixteen [simp]: "identifier_ok (replicate 16 (1 :: byte))" "identifier_ok (replicate 16 (2 :: byte))"
  "identifier_ok (replicate 16 (3 :: byte))" "identifier_ok (replicate 16 (9 :: byte))"
  by code_simp+

lemma solo_typed: "active_typed (Stable solo_plan)"
proof -
  have "predicate_typed (spec_predicate solo_spec f)" for f
    by (cases f) (simp_all add: solo_spec_def u8_max_def)
  then show ?thesis
    by (simp add: solo_plan_def spec_typed_def) (simp add: solo_spec_def identifiers_typed_def u16_max_def u64_max_def)
qed

lemma solo_members: "matches_members solo_incarnations (plan_members solo_plan)"
  by code_simp

section \<open>Stored plan records\<close>

text \<open>
  C27. Round trip of plan records: every valid plan within the widths of the source types is encoded, the
  record stays within the size bound, and decoding the record gives the same plan back, proof digest and
  quorum families included, although only the specification is stored.
\<close>

theorem plan_record_round_trip:
  assumes "valid_active H plan" "active_typed plan"
  shows "\<exists>bs. encode_plan plan = Inr bs \<and> length bs \<le> MAXIMUM_RECORD_BYTES \<and> decode_plan H bs = Inr plan"
  using encode_plan_round_trip[OF assms] by (auto simp: MAXIMUM_RECORD_BYTES_def)

theorem plan_record_round_trip_witness:
  "\<exists>bs. encode_plan (Stable solo_plan) = Inr bs \<and> decode_plan fixed_digest bs = Inr (Stable solo_plan)"
  using plan_record_round_trip[of fixed_digest "Stable solo_plan"] solo_valid solo_typed by auto

text \<open>
  C28. Whatever bytes a record holds, a plan the decoder returns is safe to use: it was compiled from a
  specification that passes every check, its fields fit the source types, and each of its election quorums
  meets each of its election, commit and read quorums.
\<close>

theorem decoded_record_safe:
  assumes "decode_plan H bs = Inr plan"
  shows "valid_active H plan \<and> active_typed plan \<and>
    (\<forall>f A B. active_satisfies plan Election A \<and> active_satisfies plan f B \<longrightarrow> A |\<inter>| B \<noteq> {||})"
proof -
  have v: "valid_active H plan" using decode_plan_valid[OF assms] .
  have "A |\<inter>| B \<noteq> {||}" if "active_satisfies plan Election A" "active_satisfies plan f B" for f A B
    using active.shared_elector[OF v that] by auto
  then show ?thesis using v decode_plan_typed[OF assms] by blast
qed

theorem decoded_record_safe_witness:
  "\<exists>bs. decode_plan fixed_digest bs = Inr (Stable solo_plan) \<and>
     \<not> (active_satisfies (Stable solo_plan) Election {|member_one|} \<and> active_satisfies (Stable solo_plan) Commit {|member_two|})"
proof -
  obtain bs where bs: "decode_plan fixed_digest bs = Inr (Stable solo_plan)"
    using encode_plan_round_trip[of fixed_digest "Stable solo_plan"] solo_valid solo_typed by auto
  have "{|member_one|} |\<inter>| {|member_two|} = {||}" by code_simp
  then show ?thesis using decoded_record_safe[OF bs] bs by blast
qed

section \<open>Membership commands\<close>

text \<open>
  C29. Round trip of membership commands: every command that passes its own validation over a valid plan is
  encoded within the size bound of the decoder, and decoding gives the same command.
\<close>

theorem membership_command_round_trip:
  assumes "command_typed command" "valid_active H (command_plan command)" "validate_command command = Inr ()"
  shows "\<exists>bs. encode_command command = Inr bs \<and> decode_command H bs = Inr command"
  by (rule encode_command_round_trip[OF assms])

theorem membership_command_round_trip_witness:
  "\<exists>bs. encode_command (FinaliseStable solo_plan) = Inr bs \<and> decode_command fixed_digest bs = Inr (FinaliseStable solo_plan)"
  by (rule membership_command_round_trip) (use solo_typed solo_valid in \<open>simp_all add: command_plan_def\<close>)

text \<open>
  C30. A membership command the decoder returns has passed the validation of its kind, and its plan is valid:
  a replicated command can never introduce a plan whose quorums fail to meet.
\<close>

theorem decoded_command_safe:
  assumes "decode_command H bs = Inr command"
  shows "validate_command command = Inr () \<and> valid_active H (command_plan command)"
  using decode_command_Inr[OF assms] by simp

theorem decoded_command_safe_witness:
  "\<exists>bs. decode_command fixed_digest bs = Inr (FinaliseStable solo_plan) \<and> valid_active fixed_digest (command_plan (FinaliseStable solo_plan))"
proof -
  obtain bs where "decode_command fixed_digest bs = Inr (FinaliseStable solo_plan)"
    using encode_command_round_trip[of "FinaliseStable solo_plan" fixed_digest] solo_typed solo_valid by (auto simp: command_plan_def)
  then show ?thesis using decoded_command_safe by blast
qed

section \<open>Planners\<close>

text \<open>
  C31. Removal: the planner succeeds exactly when the target is a member under its exact incarnation, the
  accepted incarnations match the plan, another voter remains and the epoch can advance; its joint phase is
  valid, starts from the old plan, drops exactly the target, and is accepted by command validation.
\<close>

theorem removal_planner_exact:
  assumes "valid_plan H old"
  shows "case plan_flat_member_removal H old accepted node inc new_plan_id of
      Inl _ \<Rightarrow> \<not> (removal_target old accepted node inc \<and> spec_membership_epoch (plan_spec old) < u64_max)
    | Inr planned \<Rightarrow> removal_target old accepted node inc \<and> spec_membership_epoch (plan_spec old) < u64_max \<and>
        valid_joint H (removal_joint_plan planned) \<and> joint_old (removal_joint_plan planned) = old \<and>
        spec_voters (plan_spec (joint_new (removal_joint_plan planned))) = spec_voters (plan_spec old) |-| {|node|} \<and>
        spec_learners (plan_spec (joint_new (removal_joint_plan planned))) = spec_learners (plan_spec old) |-| {|node|} \<and>
        validate_command (RemoveMember (removal_joint_plan planned) node inc) = Inr ()"
proof (cases "plan_flat_member_removal H old accepted node inc new_plan_id")
  case (Inl e)
  then show ?thesis using plan_removal_ok[OF assms, of accepted node inc new_plan_id] by auto
next
  case (Inr planned)
  then show ?thesis
    using plan_removal_ok[OF assms, of accepted node inc new_plan_id] plan_removal_Inr[OF assms Inr] removal_validates[OF assms Inr]
    by auto
qed

theorem removal_planner_exact_witness:
  "\<exists>planned. plan_flat_member_removal fixed_digest solo_plan solo_incarnations member_two 5 (QuorumPlanId (replicate 16 3)) = Inr planned \<and>
     spec_learners (plan_spec (joint_new (removal_joint_plan planned))) = {||}"
proof -
  have t: "removal_target solo_plan solo_incarnations member_two 5 \<and> spec_membership_epoch (plan_spec solo_plan) < u64_max"
    by code_simp
  have l: "spec_learners (plan_spec solo_plan) |-| {|member_two|} = {||}" by code_simp
  show ?thesis
    using removal_planner_exact[OF solo_valid, of solo_incarnations member_two 5 "QuorumPlanId (replicate 16 3)"] t l
    by (auto split: sum.splits)
qed

text \<open>
  C32. Promotion: for a legal target the planner finds a promotion exactly when some learner has evidence of
  the current committed position and digest under its accepted incarnation. It promotes the smallest such
  learner, changes nothing else, and its joint phase is valid and accepted by command validation.
\<close>

theorem promotion_planner_exact:
  assumes "valid_plan H old" "promotion_target old position desired" "fcard (spec_voters (plan_spec old)) \<noteq> desired"
    "spec_membership_epoch (plan_spec old) < u64_max"
  shows "case plan_next_flat_promotion H old accepted evidence position digest desired new_plan_id of
      Inr (Some planned) \<Rightarrow> (let node = promoted_node_id planned; joint = promotion_joint_plan planned in
        node |\<in>| spec_learners (plan_spec old) \<and> caught_up accepted evidence position digest node \<and>
        (\<forall>other. other |\<in>| spec_learners (plan_spec old) \<and> caught_up accepted evidence position digest other \<longrightarrow> node \<le> other) \<and>
        valid_joint H joint \<and> joint_old joint = old \<and>
        spec_voters (plan_spec (joint_new joint)) = finsert node (spec_voters (plan_spec old)) \<and>
        spec_learners (plan_spec (joint_new joint)) = spec_learners (plan_spec old) |-| {|node|} \<and>
        (\<forall>ev. fmlookup evidence node = Some ev \<longrightarrow> validate_command (PromoteLearner joint ev) = Inr ()))
    | _ \<Rightarrow> \<not> (\<exists>node. node |\<in>| spec_learners (plan_spec old) \<and> caught_up accepted evidence position digest node)"
proof (cases "\<exists>planned. plan_next_flat_promotion H old accepted evidence position digest desired new_plan_id = Inr (Some planned)")
  case True
  then obtain planned where p: "plan_next_flat_promotion H old accepted evidence position digest desired new_plan_id = Inr (Some planned)"
    by blast
  show ?thesis
    unfolding p using plan_promotion_Inr[OF assms(1) p] promotion_validates[OF assms(1) p] by (simp add: Let_def)
next
  case False
  then show ?thesis
    using plan_promotion_ok[OF assms, of accepted evidence digest new_plan_id] by (auto split: sum.split option.split)
qed

definition solo_position :: log_position where "solo_position = \<lparr>pos_term = 2, pos_index = 6\<rparr>"

definition solo_evidence :: "(node_id, catch_up_evidence) fmap" where
  "solo_evidence = fmap_of_list [(member_two, \<lparr>ev_node_id = member_two, ev_incarnation = 5,
     ev_committed_position = solo_position, ev_committed_entry_digest = replicate 32 7, ev_promotion_eligible = True\<rparr>)]"

theorem promotion_planner_exact_witness:
  "\<exists>planned. plan_next_flat_promotion fixed_digest solo_plan solo_incarnations solo_evidence solo_position (replicate 32 7) 2
       (QuorumPlanId (replicate 16 3)) = Inr (Some planned) \<and> promoted_node_id planned = member_two"
proof -
  have t: "promotion_target solo_plan solo_position 2" "fcard (spec_voters (plan_spec solo_plan)) \<noteq> 2"
    "spec_membership_epoch (plan_spec solo_plan) < u64_max" by code_simp+
  have c: "caught_up solo_incarnations solo_evidence solo_position (replicate 32 7) member_two" by code_simp
  have l: "spec_learners (plan_spec solo_plan) = {|member_two|}" by (simp add: solo_plan_def solo_spec_def)
  show ?thesis
    using promotion_planner_exact[OF solo_valid t, of solo_incarnations solo_evidence "replicate 32 7" "QuorumPlanId (replicate 16 3)"] c l
    by (auto simp: Let_def split: sum.splits option.splits)
qed

text \<open>
  C33. Admission: over acceptable candidates the planner plans an admission exactly when there is a candidate,
  room for another learner and a next epoch; it admits the smallest candidate as a learner under its
  incarnation and touches no voter.
\<close>

theorem admission_planner_exact:
  assumes "valid_plan H old" "candidates_ok old accepted candidates"
  shows "case plan_next_flat_learner_admission H old accepted candidates new_plan_id of
      Inl _ \<Rightarrow> candidates \<noteq> fmempty \<and>
        \<not> (fcard (spec_learners (plan_spec old)) < MAXIMUM_LEARNERS \<and> spec_membership_epoch (plan_spec old) < u64_max)
    | Inr None \<Rightarrow> candidates = fmempty
    | Inr (Some planned) \<Rightarrow> (let node = admitted_node_id planned; joint = admission_joint_plan planned in
        (\<exists>inc. fmlookup candidates node = Some inc \<and>
           incarnation (admission_member_incarnations planned) node = Some inc \<and>
           validate_command (AdmitLearner joint node inc) = Inr ()) \<and>
        (\<forall>other. other |\<in>| fmdom candidates \<longrightarrow> node \<le> other) \<and> valid_joint H joint \<and> joint_old joint = old \<and>
        spec_voters (plan_spec (joint_new joint)) = spec_voters (plan_spec old) \<and>
        spec_learners (plan_spec (joint_new joint)) = finsert node (spec_learners (plan_spec old)))"
proof (cases "plan_next_flat_learner_admission H old accepted candidates new_plan_id")
  case (Inl e)
  then show ?thesis
    using plan_admission_None[OF assms, of new_plan_id] plan_admission_ok[OF assms, of new_plan_id] by auto
next
  case (Inr r)
  show ?thesis
  proof (cases r)
    case None
    then show ?thesis using Inr plan_admission_None[OF assms, of new_plan_id] by simp
  next
    case (Some planned)
    then have p: "plan_next_flat_learner_admission H old accepted candidates new_plan_id = Inr (Some planned)"
      using Inr by simp
    note f = plan_admission_Inr[OF assms(1) p]
    obtain inc where inc: "fmlookup candidates (admitted_node_id planned) = Some inc"
      "admission_member_incarnations planned = MemberIncarnations (fmupd (admitted_node_id planned) inc (incarnation_values accepted))"
      using f(2) by blast
    show ?thesis
      unfolding p using f(3-7) inc admission_validates[OF assms(1) p inc(1)] by (simp add: Let_def incarnation_def)
  qed
qed

theorem admission_planner_exact_witness:
  "\<exists>planned. plan_next_flat_learner_admission fixed_digest solo_plan solo_incarnations
       (fmap_of_list [(NodeId (replicate 16 3), 1)]) (QuorumPlanId (replicate 16 3)) = Inr (Some planned) \<and>
     admitted_node_id planned = NodeId (replicate 16 3)"
proof -
  let ?c = "fmap_of_list [(NodeId (replicate 16 3), 1 :: nat)]"
  have m: "NodeId (replicate 16 3) |\<notin>| plan_members solo_plan" by code_simp
  then have c: "candidates_ok solo_plan solo_incarnations ?c"
    using solo_members by (auto simp: candidates_ok_def fmlookup_of_list split: if_splits)
  have r: "fcard (spec_learners (plan_spec solo_plan)) < MAXIMUM_LEARNERS \<and> spec_membership_epoch (plan_spec solo_plan) < u64_max"
    by code_simp
  have "?c \<noteq> fmempty" by (metis fmempty_lookup fmlookup_of_list map_of_Cons_code(2) option.distinct(1))
  then show ?thesis
    using admission_planner_exact[OF solo_valid c, of "QuorumPlanId (replicate 16 3)"] r
    by (auto simp: Let_def fmlookup_of_list split: sum.splits option.splits if_splits)
qed



section \<open>Membership history\<close>

text \<open>
  C35. A history rebuilt at restart holds only phases the log really committed: every boundary it finds has a
  valid plan and the position of an applied entry of the log, and entries past the applied index have no
  influence.
\<close>

theorem restored_history_applied:
  assumes "\<forall>i < length log. entry_index (log ! i) = Suc i" "applied_index \<le> length log"
    "history_restore H log applied_index active = Inr history" "history_find epoch digest history = Some b"
  shows "valid_active H (pb_plan b) \<and> (\<exists>e \<in> set (take applied_index log). le_position e = pb_committed_position b)"
proof -
  have "history_restore H (take applied_index log) applied_index active = Inr history"
    using history_restore_applied_only[OF assms(1,2)] assms(3) by metis
  from history_restore_boundaries[OF this assms(4)] show ?thesis by blast
qed

definition removal_entry :: "bytes \<Rightarrow> log_entry" where
  "removal_entry command = \<lparr>le_position = \<lparr>pos_term = 1, pos_index = 1\<rparr>, le_operation_id = OperationId (replicate 16 1),
     le_command_version = MEMBERSHIP_COMMAND_VERSION, le_command = command, le_command_digest = replicate 32 7\<rparr>"

definition solo_removal :: "(bytes \<times> joint_quorum_plan) option" where
  "solo_removal =
     (case plan_flat_member_removal fixed_digest solo_plan solo_incarnations member_two 5 (QuorumPlanId (replicate 16 3)) of
        Inl _ \<Rightarrow> None
      | Inr planned \<Rightarrow> (case encode_command (RemoveMember (removal_joint_plan planned) member_two 5) of
          Inl _ \<Rightarrow> None | Inr bs \<Rightarrow> Some (bs, removal_joint_plan planned)))"

lemma solo_removal_restored:
  "case solo_removal of None \<Rightarrow> False | Some (bs, joint) \<Rightarrow>
     (case history_restore fixed_digest [removal_entry bs] 1 (Joint joint) of Inl _ \<Rightarrow> False
      | Inr history \<Rightarrow> history_find 4 (replicate 32 7) history \<noteq> None)"
  by code_simp

theorem restored_history_applied_witness:
  "\<exists>bs joint history b. history_restore fixed_digest [removal_entry bs] 1 (Joint joint) = Inr history \<and>
     history_find 4 (replicate 32 7) history = Some b \<and> pb_committed_position b = \<lparr>pos_term = 1, pos_index = 1\<rparr>"
proof -
  obtain bs joint where s: "solo_removal = Some (bs, joint)" using solo_removal_restored by (auto split: option.splits)
  have c: "case history_restore fixed_digest [removal_entry bs] 1 (Joint joint) of Inl _ \<Rightarrow> False
      | Inr history \<Rightarrow> history_find 4 (replicate 32 7) history \<noteq> None"
    using solo_removal_restored unfolding s option.case prod.case .
  obtain history b where h: "history_restore fixed_digest [removal_entry bs] 1 (Joint joint) = Inr history"
    "history_find 4 (replicate 32 7) history = Some b"
    using c by (cases "history_restore fixed_digest [removal_entry bs] 1 (Joint joint)") auto
  have "valid_active fixed_digest (pb_plan b) \<and> (\<exists>e \<in> set (take 1 [removal_entry bs]). le_position e = pb_committed_position b)"
    by (rule restored_history_applied[OF _ _ h]) (simp_all add: removal_entry_def)
  then show ?thesis using h by (auto simp: removal_entry_def)
qed

section \<open>Append probes\<close>

inductive probe_run :: "(bytes \<Rightarrow> bytes) \<Rightarrow> append_probes \<Rightarrow> bool" for H where
  probe_start: "probe_run H probes_default"
| probe_send: "probe_run H probes \<Longrightarrow> probe_run H (probe_sent H probes request kind)"
| probe_response: "probe_run H probes \<Longrightarrow> probe_run H (snd (probe_receive probes response))"

text \<open>
  C36. Outstanding probes are bounded: starting from the empty state, any sequence of sent probes and received
  responses keeps at most 64 probes in each lane.
\<close>

theorem probe_lanes_bounded:
  assumes "probe_run H probes"
  shows "fcard (fmdom (probes_replication probes)) \<le> MAXIMUM_PROBES_PER_LANE \<and>
    fcard (fmdom (probes_contacts probes)) \<le> MAXIMUM_PROBES_PER_LANE"
proof -
  from assms have "probes_bounded probes"
    by induction (use probes_default_bounded probe_sent_bounded probe_receive_bounded in auto)
  then show ?thesis by (simp add: probes_bounded_def)
qed

definition empty_probe :: append_request where
  "empty_probe = \<lparr>areq_probe_id = AppendProbeId 1, areq_term = 1, areq_leader = member_one, areq_leader_incarnation = 1,
     areq_previous = GENESIS, areq_previous_digest = ZERO_DIGEST, areq_entries = [], areq_leader_commit_index = 0,
     areq_read_barrier_id = None, areq_membership_epoch = 1, areq_plan_digest = []\<rparr>"

definition empty_match :: append_response where
  "empty_match = \<lparr>ares_probe_id = Some (AppendProbeId 1), ares_matched_digest = ZERO_DIGEST, ares_term = 1,
     ares_accepted = True, ares_matched_index = 0, ares_next_index_hint = 1, ares_read_barrier_id = None,
     ares_membership_epoch = 1, ares_plan_digest = []\<rparr>"

theorem probe_lanes_bounded_witness:
  "fcard (fmdom (probes_replication (probe_sent fixed_digest probes_default empty_probe Replication))) \<le> 64"
  using probe_lanes_bounded[OF probe_send[OF probe_start[of fixed_digest]]] by (simp add: MAXIMUM_PROBES_PER_LANE_def)

text \<open>
  C37. Replication evidence is exact and single-use: a response counts as a match only if it names an
  outstanding replication probe and repeats the probe's end index, digest and read barrier; the probe is then
  gone, so repeating the response yields no second match, and a response that is rejected or unknown leaves
  the lanes untouched.
\<close>

theorem probe_evidence_exact:
  assumes "probe_receive probes response = (result, probes')"
  shows "(\<forall>k. result = Inr (Some (Matched k)) \<longrightarrow>
      (\<exists>i probe. ares_probe_id response = Some i \<and> fmlookup (probes_replication probes) i = Some probe \<and>
         ares_accepted response \<and> ares_matched_index response = k \<and> pos_index (probe_through probe) = k \<and>
         ares_matched_digest response = probe_digest probe \<and> ares_read_barrier_id response = probe_read_barrier_id probe \<and>
         (\<forall>j. fst (probe_receive probes' response) \<noteq> Inr (Some (Matched j))))) \<and>
    ((\<exists>e. result = Inl e) \<or> result = Inr None \<longrightarrow> probes' = probes)"
proof -
  have "fst (probe_receive probes' response) \<noteq> Inr (Some (Matched j))"
    if "ares_probe_id response = Some i" "probes' = probes\<lparr>probes_replication := fmdrop i (probes_replication probes)\<rparr>" for i j
    using that probe_receive_Matched[of probes' response j "snd (probe_receive probes' response)"] by (auto simp: prod_eq_iff)
  then show ?thesis
    using assms probe_receive_Matched[of probes response _ probes'] probe_receive_Err[of probes response _ probes']
      probe_receive_None[of probes response probes'] by (auto 4 3)
qed

theorem probe_evidence_exact_witness:
  "let (result, probes) = probe_receive (probe_sent fixed_digest probes_default empty_probe Replication) empty_match
   in result = Inr (Some (Matched 0)) \<and> fst (probe_receive probes empty_match) \<noteq> Inr (Some (Matched 0))"
proof -
  let ?r = "probe_receive (probe_sent fixed_digest probes_default empty_probe Replication) empty_match"
  have m: "fst ?r = Inr (Some (Matched 0))" by code_simp
  note e = probe_evidence_exact[of "probe_sent fixed_digest probes_default empty_probe Replication" empty_match "fst ?r" "snd ?r",
      OF prod.collapse[symmetric], THEN conjunct1, rule_format, OF m]
  from e obtain i where "\<forall>j. fst (probe_receive (snd ?r) empty_match) \<noteq> Inr (Some (Matched j))" by blast
  then show ?thesis using m by (simp add: split_beta)
qed

end
