(* ===== verification/Core_Properties.thy ===== *)
theory Core_Properties
  imports Core_Reports Membership_Properties
begin

text \<open>
  The properties of a single consensus core that hold whatever its peers and its host do: the invariant of
  every reachable core, monotone progress, durability before any visible effect, exact completion, refusals,
  and the exact commit index and commit reports of a leader. They are applied to a core with one voter.
\<close>

section \<open>A core with one voter\<close>

definition solo_config :: core_config where
  "solo_config = \<lparr>cfg_partition_id = PartitionId (replicate 16 5), cfg_local_node_id = member_one,
     cfg_local_incarnation = 3, cfg_plan = solo_plan, cfg_member_incarnations = solo_incarnations\<rparr>"

definition solo_core :: core where
  "solo_core = projr (core_new fixed_digest solo_config)"

definition drive :: "core_input list \<Rightarrow> core" where
  "drive inputs = fold (\<lambda>input s. snd (step fixed_digest input s)) inputs solo_core"

definition solo_proposal :: core_input where
  "solo_proposal = Propose (ProposalId 1) (OperationId (replicate 16 7)) 1 [42]"

definition solo_elected :: core where
  "solo_elected = drive [ElectionTimeout, Persisted (PersistenceId 1)]"

definition solo_proposed :: core where
  "solo_proposed = drive ([ElectionTimeout, Persisted (PersistenceId 1)] @ [solo_proposal])"

definition solo_committed :: core where
  "solo_committed = drive ([ElectionTimeout, Persisted (PersistenceId 1), solo_proposal] @ [Persisted (PersistenceId 2)])"

lemma solo_core_run: "core_run fixed_digest solo_core"
proof -
  have "is_ok (core_new fixed_digest solo_config)" by code_simp
  then have "restore fixed_digest solo_config durable_default = Inr solo_core"
    by (auto simp: is_ok_def solo_core_def core_new_def split: sum.splits)
  then show ?thesis by (rule core_run.restored)
qed

lemma drive_run: "core_run fixed_digest (drive inputs)"
proof -
  have "core_run fixed_digest s \<Longrightarrow> core_run fixed_digest (fold (\<lambda>input s. snd (step fixed_digest input s)) inputs s)" for s
    by (induction inputs arbitrary: s) (auto intro: core_run.stepped)
  then show ?thesis using solo_core_run by (simp add: drive_def)
qed

lemma solo_runs: "core_run fixed_digest solo_elected" "core_run fixed_digest solo_proposed" "core_run fixed_digest solo_committed"
  by (simp_all only: solo_elected_def solo_proposed_def solo_committed_def drive_run)

lemma solo_steps:
  "step fixed_digest solo_proposal solo_elected = (fst (step fixed_digest solo_proposal solo_elected), solo_proposed)"
  "step fixed_digest (Persisted (PersistenceId 2)) solo_proposed =
     (fst (step fixed_digest (Persisted (PersistenceId 2)) solo_proposed), solo_committed)"
  by (simp_all add: solo_elected_def solo_proposed_def solo_committed_def drive_def)

lemma solo_leads: "role_of solo_elected = Leader \<and> cr_current_term solo_elected = 1 \<and> cr_pending solo_elected = None"
  by code_simp

lemma solo_elected_empty: "cr_log solo_elected = []"
  by code_simp

lemma solo_pending:
  "cr_log solo_proposed = [] \<and> cr_commit_index solo_proposed = 0 \<and>
   (case cr_pending solo_proposed of None \<Rightarrow> False | Some q \<Rightarrow> pend_id q = PersistenceId 2 \<and> \<not> activates (pend_action q))"
  by code_simp

lemma solo_proposed_pending:
  obtains q where "cr_pending solo_proposed = Some q" "pend_id q = PersistenceId 2" "\<not> activates (pend_action q)"
  using solo_pending by (cases "cr_pending solo_proposed") auto

lemma solo_commits:
  "cr_commit_index solo_committed = 1 \<and> map entry_term (cr_log solo_committed) = [1] \<and>
   is_ok (fst (step fixed_digest (Persisted (PersistenceId 2)) solo_proposed))"
  by code_simp

lemma solo_committed_log: "length (cr_log solo_committed) = 1"
  using solo_commits by (metis length_map list.size(3,4) One_nat_def add_0 plus_1_eq_Suc)

section \<open>Every reachable core\<close>

text \<open>
  C15. The invariant of every core that was restored from accepted durable state and then fed any inputs,
  forged messages included: log positions are contiguous, every entry passes validation and is of a term the
  core has reached, the applied index never passes the commit index, the commit index never passes the log,
  and a leader counts its own log as replicated.
\<close>

theorem core_invariant:
  assumes "core_run H s"
  shows "(\<forall>i < length (cr_log s). entry_index (cr_log s ! i) = Suc i \<and> entry_validate H (cr_log s ! i) = Inr () \<and>
      entry_term (cr_log s ! i) \<le> cr_current_term s) \<and>
    cr_applied_index s \<le> cr_commit_index s \<and> cr_commit_index s \<le> length (cr_log s) \<and> length (cr_log s) \<le> u64_max \<and>
    (\<forall>l. cr_role s = LeaderState l \<longrightarrow> fmlookup (ls_matched l) (cr_local s) = Some (length (cr_log s)))"
  using core_run_ok[OF assms] by (auto simp: node_ok_def log_ok_def)

theorem core_invariant_witness:
  "entry_index (cr_log solo_committed ! 0) = 1 \<and> entry_validate fixed_digest (cr_log solo_committed ! 0) = Inr ()"
  using core_invariant[OF solo_runs(3)] solo_committed_log by simp

text \<open>
  C14. Progress is monotone: no input, forged messages included, makes a core lower its term, change its vote
  within a term, lower its commit or applied index, or rewrite an entry it has committed.
\<close>

theorem core_progress:
  assumes "core_run H s" "step H input s = (result, s')"
  shows "cr_current_term s \<le> cr_current_term s' \<and>
    (cr_current_term s' = cr_current_term s \<longrightarrow> cr_voted_for s = None \<or> cr_voted_for s' = cr_voted_for s) \<and>
    cr_commit_index s \<le> cr_commit_index s' \<and> cr_applied_index s \<le> cr_applied_index s' \<and>
    take (cr_commit_index s) (cr_log s') = take (cr_commit_index s) (cr_log s)"
  using step_advances[OF core_run_ok[OF assms(1)], of input] assms(2) by (simp add: advances_def)

theorem core_progress_witness:
  "cr_current_term solo_elected = 1 \<and> 1 \<le> cr_current_term solo_proposed"
  using core_progress[OF solo_runs(1) solo_steps(1)] solo_leads by simp

section \<open>Durability\<close>

text \<open>
  C11. Durable before visible: an input other than a completion never changes the term, the vote, the log, the
  configuration or the plan of a core. When it needs such a change, the one effect is the request to persist
  it, under an identifier never used before, and the mutation becomes the pending one; no reply, commit or
  role change leaves the core in that step.
\<close>

theorem durable_before_visible:
  assumes "\<not> is_persisted input" "step H input s = (result, s')"
  shows "cr_current_term s' = cr_current_term s \<and> cr_voted_for s' = cr_voted_for s \<and> cr_log s' = cr_log s \<and>
    cr_config s' = cr_config s \<and> cr_active_plan s' = cr_active_plan s \<and>
    (cr_pending s' = cr_pending s \<and> cr_next_persistence_id s' = cr_next_persistence_id s \<or>
     (\<exists>q. cr_pending s = None \<and> cr_pending s' = Some q \<and> result = Inr [Persist (pend_id q) (pend_mutation q)] \<and>
        pend_id q = PersistenceId (cr_next_persistence_id s) \<and> cr_next_persistence_id s' = Suc (cr_next_persistence_id s)))"
proof (cases "cr_pending s = None")
  case True
  then show ?thesis using step_staged[OF assms(1), of s H] assms(2) by (auto simp: staged_def calm_def)
next
  case False
  then show ?thesis using assms by (auto simp: step_def)
qed

theorem durable_before_visible_witness:
  "cr_log solo_proposed = cr_log solo_elected \<and>
   (\<exists>m. fst (step fixed_digest solo_proposal solo_elected) = Inr [Persist (PersistenceId 2) m])"
proof -
  have p: "\<not> is_persisted solo_proposal" by (simp add: is_persisted_def solo_proposal_def)
  obtain q where "cr_pending solo_proposed = Some q" "pend_id q = PersistenceId 2" by (rule solo_proposed_pending)
  then show ?thesis using durable_before_visible[OF p solo_steps(1)] solo_leads by auto
qed

text \<open>
  C16. Completion is exact: when the store confirms the pending mutation, the term, the vote and the log become
  exactly what the mutation asked for and nothing stays pending. Nothing is lost and nothing is added, on
  every reachable core.
\<close>

theorem completion_exact:
  assumes "core_run H s" "cr_pending s = Some q" "\<not> activates (pend_action q)"
    "step H (Persisted (pend_id q)) s = (result, s')"
  shows "cr_current_term s' = (case mut_vote_state (pend_mutation q) of None \<Rightarrow> cr_current_term s | Some (t, _) \<Rightarrow> t) \<and>
    cr_voted_for s' = (case mut_vote_state (pend_mutation q) of None \<Rightarrow> cr_voted_for s | Some (_, v) \<Rightarrow> v) \<and>
    cr_log s' = (case mut_truncate_from (pend_mutation q) of None \<Rightarrow> cr_log s | Some k \<Rightarrow> take (k - 1) (cr_log s)) @
      mut_append (pend_mutation q) \<and> cr_pending s' = None"
proof -
  have "calm (mutated (s\<lparr>cr_pending := None\<rparr>) (pend_mutation q)) s'"
    using persisted_calm(2)[OF core_run_ok[OF assms(1)] assms(2) refl assms(3)] assms(4) by simp
  moreover have "alike s (s\<lparr>cr_pending := None\<rparr>)" by (simp add: alike_def)
  ultimately show ?thesis
    using alike_new[of s "s\<lparr>cr_pending := None\<rparr>"]
    by (auto simp: calm_def mutated_def new_term_def new_vote_def new_log_def mutated_log_def)
qed

theorem completion_exact_witness:
  "\<exists>q. cr_pending solo_proposed = Some q \<and> cr_pending solo_committed = None \<and>
     cr_log solo_committed = (case mut_truncate_from (pend_mutation q) of None \<Rightarrow> [] | Some k \<Rightarrow> take (k - 1) []) @ mut_append (pend_mutation q)"
proof -
  obtain q where q: "cr_pending solo_proposed = Some q" "pend_id q = PersistenceId 2" "\<not> activates (pend_action q)"
    by (rule solo_proposed_pending)
  show ?thesis using completion_exact[OF solo_runs(2) q(1,3) solo_steps(2)[folded q(2)]] q(1) solo_pending
    by (elim conjE) (intro exI[of _ q] conjI, simp_all cong: option.case_cong)
qed



section \<open>Commitment\<close>

text \<open>
  C12. A leader commits exactly as far as it may: the commit index moves to the highest log position of the
  current term that a commit quorum of the active plan has acknowledged, or stays when there is none, and the
  one effect reports the newly committed entries. No position of an earlier term is committed by counting.
\<close>

theorem leader_commits_exactly:
  assumes "core_run H s" "cr_role s = LeaderState l"
  shows "advance_leader_commit s =
    (Inr (if leader_commit s l = cr_commit_index s then []
       else [CommitReady (drop (cr_commit_index s) (take (leader_commit s l) (cr_log s)))]),
     s\<lparr>cr_commit_index := leader_commit s l\<rparr>) \<and>
    (leader_commit s l \<noteq> cr_commit_index s \<longrightarrow>
       cr_commit_index s < leader_commit s l \<and> leader_commit s l \<le> length (cr_log s) \<and>
       entry_term (cr_log s ! (leader_commit s l - 1)) = cr_current_term s \<and>
       active_satisfies (cr_active_plan s) Commit (acknowledged_through (ls_matched l) (leader_commit s l))) \<and>
    (\<forall>i. leader_commit s l < i \<and> i \<le> length (cr_log s) \<and> entry_term (cr_log s ! (i - 1)) = cr_current_term s \<longrightarrow>
       \<not> active_satisfies (cr_active_plan s) Commit (acknowledged_through (ls_matched l) i))"
  using leader_commit_exact[OF node_okD(1,4)[OF core_run_ok[OF assms(1)]] assms(2)] leader_commit_highest[of s l]
  by (auto simp: slice_def commit_candidates_def)

theorem leader_commits_exactly_witness:
  "\<exists>l. cr_role solo_elected = LeaderState l \<and> advance_leader_commit solo_elected = (Inr [], solo_elected\<lparr>cr_commit_index := cr_commit_index solo_elected\<rparr>)"
proof -
  obtain l where l: "cr_role solo_elected = LeaderState l" using solo_leads by (auto simp: role_of_def split: role_state.splits)
  have "cr_log solo_elected = []" using solo_elected_empty .
  then have "leader_commit solo_elected l = cr_commit_index solo_elected"
    using leader_commits_exactly[OF solo_runs(1) l] by (metis le_zero_eq less_nat_zero_code list.size(3))
  then show ?thesis using leader_commits_exactly[OF solo_runs(1) l] l by simp
qed

text \<open>
  C13. Committed entries are reported exactly once and in order: the entries that the effects of a successful
  step hand to the host are exactly the log entries between the old and the new commit index.
\<close>

theorem commits_reported_exactly:
  assumes "core_run H s" "step H input s = (Inr effects, s')"
  shows "concat (map committed_by effects) = drop (cr_commit_index s) (take (cr_commit_index s') (cr_log s'))"
  using step_reports[OF core_run_ok[OF assms(1)], of input] assms(2) by (simp add: reports_def commits_def slice_def)

theorem commits_reported_exactly_witness:
  "\<exists>effects. fst (step fixed_digest (Persisted (PersistenceId 2)) solo_proposed) = Inr effects \<and>
     concat (map committed_by effects) = cr_log solo_committed"
proof -
  obtain effects where e: "fst (step fixed_digest (Persisted (PersistenceId 2)) solo_proposed) = Inr effects"
    using solo_commits by (auto simp: is_ok_def split: sum.splits)
  have "concat (map committed_by effects) = drop (cr_commit_index solo_proposed) (take (cr_commit_index solo_committed) (cr_log solo_committed))"
    by (rule commits_reported_exactly[OF solo_runs(2) solo_steps(2)[unfolded e]])
  then show ?thesis using e solo_pending solo_commits solo_committed_log by simp
qed

end
