(* ===== verification/Cluster.thy ===== *)
theory Cluster
  imports Core_Reachable
begin

text \<open>
  A cluster of consensus cores under one stable plan, with a network that may lose, repeat and reorder
  messages, and crashes that restart a node from what its store held. Every run of the cluster is a run of
  the replication protocol, so its safety carries over to the cores: one leader per term, logs that agree up
  to any common entry, leaders that hold everything committed, and committed prefixes that never disagree,
  in one state and across time. A restart always finds durable state that \<open>restore\<close> accepts.
\<close>

section \<open>The cluster\<close>

type_synonym core_network = "(node_id \<times> node_id \<times> core_message) set"
type_synonym cluster = "(node_id \<Rightarrow> core option) \<times> core_network"

definition sent_by :: "node_id \<Rightarrow> core_error + core_effect list \<Rightarrow> core_network" where
  "sent_by n result = (case result of Inl _ \<Rightarrow> {} | Inr effects \<Rightarrow> {(n, to, m) | to m. Send to m \<in> set effects})"

definition deliverable :: "core_network \<Rightarrow> node_id \<Rightarrow> core_input \<Rightarrow> bool" where
  "deliverable N n input =
     (case input of
        Message src _ m \<Rightarrow> (src, n, m) \<in> N
      | ActivateJointPlan _ _ _ \<Rightarrow> False
      | ActivateStablePlan _ _ _ \<Rightarrow> False
      | _ \<Rightarrow> True)"

text \<open>
  What a crash leaves behind: durable state with or without the mutation that was being persisted, and an
  applied index that may lag behind or run ahead of what the core was told, never past the commit index.
\<close>

definition stored :: "core \<Rightarrow> nat \<Rightarrow> durable_core_state" where
  "stored s k = \<lparr>dur_current_term = cr_current_term s, dur_voted_for = cr_voted_for s, dur_log = cr_log s,
     dur_applied_index = k\<rparr>"

definition survives :: "(bytes \<Rightarrow> bytes) \<Rightarrow> core \<Rightarrow> durable_core_state \<Rightarrow> bool" where
  "survives H s durable \<longleftrightarrow>
     (\<exists>k \<le> cr_commit_index s. durable = stored s k \<or>
        (\<exists>q s'. cr_pending s = Some q \<and> apply_durable_mutation H (pend_mutation q) (s\<lparr>cr_pending := None\<rparr>) = (Inr (), s') \<and>
           durable = stored s' k))"

inductive cluster_step :: "(bytes \<Rightarrow> bytes) \<Rightarrow> (node_id \<Rightarrow> core_config) \<Rightarrow> cluster \<Rightarrow> cluster \<Rightarrow> bool"
  for H config where
  handle: "C n = Some s \<Longrightarrow> deliverable N n input \<Longrightarrow> step H input s = (result, s') \<Longrightarrow>
    cluster_step H config (C, N) (C(n \<mapsto> s'), N \<union> sent_by n result)"
| set_budgets: "C n = Some s \<Longrightarrow> set_replication_budgets budget overrides s = (result, s') \<Longrightarrow>
    cluster_step H config (C, N) (C(n \<mapsto> s'), N)"
| clear_budgets: "C n = Some s \<Longrightarrow>
    cluster_step H config (C, N) (C(n \<mapsto> clear_replication_budget_overrides s), N)"
| crash: "C n = Some s \<Longrightarrow> survives H s durable \<Longrightarrow> restore H (config n) durable = Inr s' \<Longrightarrow>
    cluster_step H config (C, N) (C(n \<mapsto> s'), N)"

definition boot :: "(bytes \<Rightarrow> bytes) \<Rightarrow> (node_id \<Rightarrow> core_config) \<Rightarrow> cluster" where
  "boot H config = ((\<lambda>n. case core_new H (config n) of Inl _ \<Rightarrow> None | Inr s \<Rightarrow> Some s), {})"

text \<open>Every node is configured under its own identifier and the same plan.\<close>

definition configured :: "(bytes \<Rightarrow> bytes) \<Rightarrow> compiled_quorum_plan \<Rightarrow> (node_id \<Rightarrow> core_config) \<Rightarrow> bool" where
  "configured H plan config \<longleftrightarrow>
     valid_plan H plan \<and> (\<forall>n. cfg_local_node_id (config n) = n \<and> cfg_plan (config n) = plan)"

abbreviation reaches :: "(bytes \<Rightarrow> bytes) \<Rightarrow> (node_id \<Rightarrow> core_config) \<Rightarrow> cluster \<Rightarrow> cluster \<Rightarrow> bool" where
  "reaches H config \<equiv> (cluster_step H config)\<^sup>*\<^sup>*"

section \<open>Nodes under one plan\<close>

definition settled :: "active_quorum_plan \<Rightarrow> core_config \<Rightarrow> core \<Rightarrow> bool" where
  "settled plan config s \<longleftrightarrow>
     cr_config s = config \<and> cr_active_plan s = plan \<and>
     (\<forall>v. cr_voted_for s = Some v \<longrightarrow> v |\<in>| active_eligible_leaders plan \<and> 0 < cr_current_term s) \<and>
     (\<forall>q. cr_pending s = Some q \<longrightarrow> elector_ok s (pend_mutation q))"

lemma calm_settled: "calm s s' \<Longrightarrow> settled plan config s \<Longrightarrow> settled plan config s'"
  by (auto simp: calm_def settled_def elector_ok_def)

lemma fixed_plan_pending:
  assumes "node_ok H False N s" "cr_pending s = Some q"
  shows "\<not> activates (pend_action q)"
  using node_okD(7)[OF assms(1)] assms(2)
  by (auto simp: pending_ok_def action_ok_for_def activates_def split: after_persistence.splits)

lemma mutated_settled:
  assumes st: "settled plan config s" and q: "cr_pending s = Some q" and m: "mutation_ok H s (pend_mutation q)"
  shows "settled plan config (mutated (s\<lparr>cr_pending := None\<rparr>) (pend_mutation q))"
proof -
  let ?m = "pend_mutation q"
  have al: "alike s (s\<lparr>cr_pending := None\<rparr>)" by (simp add: alike_def)
  have "v |\<in>| active_eligible_leaders plan \<and> 0 < new_term s ?m" if "new_vote s ?m = Some v" for v
  proof (cases "mut_vote_state ?m")
    case None
    then show ?thesis using st that by (auto simp: settled_def new_vote_def new_term_def)
  next
    case (Some tv)
    then show ?thesis
      using st q m that by (cases tv) (auto simp: settled_def elector_ok_def mutation_ok_def new_vote_def)
  qed
  then show ?thesis using st by (simp add: settled_def alike_new[OF al])
qed

lemma step_settled:
  assumes ok: "node_ok H False N s" and st: "settled plan config s"
  shows "settled plan config (snd (step H input s))"
proof (cases "is_persisted input")
  case False
  from step_staged[OF False, of s H] st calm_settled[of s] show ?thesis
    by (auto simp: staged_def) (simp_all add: settled_def elector_ok_def)
next
  case True
  then obtain i where i: "input = Persisted i" by (auto simp: is_persisted_def split: core_input.splits)
  show ?thesis
  proof (cases "\<exists>q. cr_pending s = Some q \<and> pend_id q = i")
    case False
    then show ?thesis using stale_persisted[OF False, of H] i st by simp
  next
    case True
    then obtain q where q: "cr_pending s = Some q" "pend_id q = i" by blast
    note p = persisted_calm[OF ok q fixed_plan_pending[OF ok q(1)]]
    show ?thesis unfolding i by (rule calm_settled[OF p(2) mutated_settled[OF st q(1) p(1)]])
  qed
qed

section \<open>Monotonicity in the network\<close>

lemma action_mono:
  assumes "action elect commitq n N r r' sends" "N \<subseteq> M"
  shows "action elect commitq n M r r' sends"
  using assms(1)
proof cases
  case (vote c t pos role')
  then show ?thesis using action.vote[of c n t pos M] assms(2) by blast
next
  case (tally v V)
  then show ?thesis using action.tally[of v n r M] assms(2) by blast
next
  case (accept l t prev es ci log' k commit')
  then show ?thesis using action.accept[of l n t prev es ci M] assms(2) by blast
next
  case (acknowledge m k Ma)
  then show ?thesis using action.acknowledge[of m n r k M] assms(2) by blast
next
  case (step_down t)
  then show ?thesis using action.step_down[of r t] by blast
qed (auto intro: action.intros)

lemma extends_pending_mono:
  assumes "action_ok_for H phased N s m a" "N \<subseteq> M"
  shows "action_ok_for H phased M s m a"
  using assms by (cases a) (auto simp: action_ok_for_def split: if_splits)

lemma node_ok_mono:
  assumes "node_ok H phased N s" "N \<subseteq> M"
  shows "node_ok H phased M s"
proof -
  have "pending_ok H phased M s"
    using node_okD(7)[OF assms(1)] extends_pending_mono[OF _ assms(2)] by (auto simp: pending_ok_def)
  then show ?thesis using assms(1) by (simp add: node_ok_def)
qed

lemma fixed_plan_action:
  assumes "node_action False elect commitq n N r r' sends"
  shows "action elect commitq n N r r' sends"
  using assms by cases auto

lemma runs_system:
  assumes "runs False elect commitq n N r r' out" "R n = r"
  shows "(sys_step elect commitq)\<^sup>*\<^sup>* (R, N) (R(n := r'), N \<union> out)"
  using assms
proof (induction rule: runs.induct)
  case (runs_refl r)
  then show ?case by (simp add: fun_upd_idem)
next
  case (runs_step r r' out r'' sends)
  then have run: "(sys_step elect commitq)\<^sup>*\<^sup>* (R, N) (R(n := r'), N \<union> out)" by blast
  have "action elect commitq n (N \<union> out) ((R(n := r')) n) r'' sends"
    using action_mono[OF fixed_plan_action[OF runs_step.hyps(2)], of "N \<union> out"] by simp
  from sys_stepI[where R = "R(n := r')", OF this] have "sys_step elect commitq (R(n := r'), N \<union> out) (R(n := r''), N \<union> (out \<union> sends))"
    by (simp add: Un_assoc)
  then show ?case using run by (rule rtranclp.rtrancl_into_rtrancl[rotated])
qed

section \<open>Simulation\<close>

definition abs_nodes :: "(node_id \<Rightarrow> core option) \<Rightarrow> node_id \<Rightarrow> replica" where
  "abs_nodes C n = (case C n of None \<Rightarrow> initial_replica | Some s \<Rightarrow> abs_core s)"

definition abs_network :: "core_network \<Rightarrow> network" where
  "abs_network N = (\<Union>(src, to, m) \<in> N. abs_message src to m)"

definition simulated :: "(bytes \<Rightarrow> bytes) \<Rightarrow> compiled_quorum_plan \<Rightarrow> (node_id \<Rightarrow> core_config) \<Rightarrow> cluster \<Rightarrow> network \<Rightarrow> bool" where
  "simulated H plan config K M \<longleftrightarrow>
     abs_network (snd K) \<subseteq> M \<and> (\<forall>src to prefix. (src, to, CommittedPrefix prefix) \<notin> snd K) \<and>
     (\<forall>n s. fst K n = Some s \<longrightarrow> node_ok H False M s \<and> cr_local s = n \<and> settled (Stable plan) (config n) s)"

abbreviation plan_steps :: "compiled_quorum_plan \<Rightarrow> system \<Rightarrow> system \<Rightarrow> bool" where
  "plan_steps plan \<equiv> (sys_step (active_satisfies (Stable plan) Election) (active_satisfies (Stable plan) Commit))\<^sup>*\<^sup>*"

lemma abs_nodes_update [simp]: "abs_nodes (C(n \<mapsto> s)) = (abs_nodes C)(n := abs_core s)"
  by (auto simp: abs_nodes_def)

lemma abs_network_Un: "abs_network (N \<union> N') = abs_network N \<union> abs_network N'"
  by (auto simp: abs_network_def)

lemma sent_by_abs: "abs_network (sent_by n result) = (case result of Inl _ \<Rightarrow> {} | Inr effects \<Rightarrow> sends_of n effects)"
proof (cases result)
  case (Inr effects)
  have "x \<in> effect_sends n e \<longleftrightarrow> (\<exists>to m. e = Send to m \<and> x \<in> abs_message n to m)" for x e
    by (cases e) auto
  then show ?thesis using Inr by (fastforce simp: sent_by_def abs_network_def sends_of_def)
qed (simp add: sent_by_def abs_network_def)

lemma fixed_plan_no_prefix:
  assumes "action elect commitq n N r r' sends"
  shows "(src, to, MPrefix prev es k) \<notin> sends"
  using assms by cases auto

lemma runs_no_prefix:
  assumes "runs False elect commitq n N r r' out"
  shows "(src, to, MPrefix prev es k) \<notin> out"
  using assms by (induction rule: runs.induct) (auto dest!: fixed_plan_action dest: fixed_plan_no_prefix)

lemma simulated_update:
  assumes sim: "simulated H plan config (C, N) M" and ok: "node_ok H False (M \<union> out) s'" "cr_local s' = n"
    and st: "settled (Stable plan) (config n) s'"
    and N': "abs_network N' \<subseteq> M \<union> out" "\<forall>src to prefix. (src, to, CommittedPrefix prefix) \<notin> N'"
  shows "simulated H plan config (C(n \<mapsto> s'), N') (M \<union> out)"
  using assms node_ok_mono[of H False M _ "M \<union> out"] by (auto simp: simulated_def)

lemma handle_simulated:
  assumes sim: "simulated H plan config (C, N) M" and s: "C n = Some s" and d: "deliverable N n input"
    and r: "step H input s = (result, s')"
  shows "\<exists>M'. plan_steps plan (abs_nodes C, M) (abs_nodes (C(n \<mapsto> s')), M') \<and>
     simulated H plan config (C(n \<mapsto> s'), N \<union> sent_by n result) M'"
proof -
  have ok: "node_ok H False M s" "cr_local s = n" and st: "settled (Stable plan) (config n) s"
    using sim s by (auto simp: simulated_def)
  have "input_in False M n input"
    using d sim unfolding deliverable_def input_in_def simulated_def abs_network_def by (cases input) fastforce+
  from step_refines[OF ok(1) _ this[folded ok(2)]] st
  have "refines H False M (Stable plan) s (step H input) (sends_of n)" using ok(2) by (simp add: settled_def)
  then obtain out where o: "node_ok H False M s'" "cr_local s' = n"
    "runs False (active_satisfies (Stable plan) Election) (active_satisfies (Stable plan) Commit) n M (abs_core s) (abs_core s') out"
    "\<And>x. result = Inr x \<Longrightarrow> sends_of n x \<subseteq> out"
    using ok(2) r unfolding refines_def by auto
  have sent: "abs_network (sent_by n result) \<subseteq> out" using o(4) by (auto simp: sent_by_abs split: sum.splits)
  have "simulated H plan config (C(n \<mapsto> s'), N \<union> sent_by n result) (M \<union> out)"
  proof (rule simulated_update[OF sim node_ok_mono[OF o(1)] o(2)])
    show "settled (Stable plan) (config n) s'" using step_settled[OF ok(1) st, of input] r by simp
    show "abs_network (N \<union> sent_by n result) \<subseteq> M \<union> out"
      using sim sent by (auto simp: abs_network_Un simulated_def)
    show "\<forall>src to prefix. (src, to, CommittedPrefix prefix) \<notin> N \<union> sent_by n result"
    proof (intro allI notI)
      fix src to prefix assume "(src, to, CommittedPrefix prefix) \<in> N \<union> sent_by n result"
      then have "(src, to, CommittedPrefix prefix) \<in> sent_by n result" using sim by (auto simp: simulated_def)
      then have "abs_message src to (CommittedPrefix prefix) \<subseteq> out" using sent unfolding abs_network_def by blast
      then show False using runs_no_prefix[OF o(3)] by simp
    qed
  qed simp
  moreover have "plan_steps plan (abs_nodes C, M) (abs_nodes (C(n \<mapsto> s')), M \<union> out)"
    using runs_system[OF o(3), of "abs_nodes C"] s by (simp add: abs_nodes_def)
  ultimately show ?thesis by blast
qed

section \<open>Restart\<close>

text \<open>Completing a pending mutation before a crash is a run of the protocol whose messages are lost.\<close>

lemma survives_runs:
  assumes ok: "node_ok H False M s" and sv: "survives H s durable" and plan: "cr_active_plan s = plan"
  shows "\<exists>r out. runs False (active_satisfies plan Election) (active_satisfies plan Commit) (cr_local s) M (abs_core s) r out \<and>
     rp_term r = dur_current_term durable \<and> rp_vote r = dur_voted_for durable \<and> rp_log r = dur_log durable \<and>
     dur_applied_index durable \<le> rp_commit r \<and> log_ok H (dur_log durable) \<and>
     (\<forall>e \<in> set (dur_log durable). entry_term e \<le> dur_current_term durable) \<and>
     dur_applied_index durable \<le> length (dur_log durable)"
proof -
  obtain k where k: "k \<le> cr_commit_index s" and alt: "durable = stored s k \<or>
        (\<exists>q s'. cr_pending s = Some q \<and> apply_durable_mutation H (pend_mutation q) (s\<lparr>cr_pending := None\<rparr>) = (Inr (), s') \<and>
           durable = stored s' k)"
    using sv by (auto simp: survives_def)
  show ?thesis
  proof (cases "durable = stored s k")
    case True
    show ?thesis
      by (intro exI[of _ "abs_core s"] exI[of _ "{}"] conjI runs_refl)
        (use True k node_okD(1-4)[OF ok] in \<open>auto simp: stored_def\<close>)
  next
    case False
    then obtain q s' where q: "cr_pending s = Some q" "durable = stored s' k"
      "apply_durable_mutation H (pend_mutation q) (s\<lparr>cr_pending := None\<rparr>) = (Inr (), s')"
      using alt by blast
    let ?s = "s\<lparr>cr_pending := None\<rparr>" and ?m = "pend_mutation q" and ?i = "pend_id q"
    let ?t = "snd (step H (Persisted ?i) s)"
    have al: "alike s ?s" by (simp add: alike_def)
    note p = persisted_calm[OF ok q(1) refl fixed_plan_pending[OF ok q(1)]]
    have "s' = mutated ?s ?m"
      using apply_mutation_ok[OF node_okD(1)[OF completed_node_ok[OF ok]], of ?m] p(1) alike_new(4)[OF al] q(3) by simp
    then have t: "cr_current_term ?t = cr_current_term s'" "cr_voted_for ?t = cr_voted_for s'" "cr_log ?t = cr_log s'"
      "cr_commit_index s \<le> cr_commit_index ?t"
      using p(2) by (simp_all add: calm_def)
    have "refines H False M plan s (step H (Persisted ?i)) (sends_of (cr_local s))"
      by (rule step_refines[OF ok plan]) (simp add: input_in_def)
    then obtain out where o: "node_ok H False M ?t"
      "runs False (active_satisfies plan Election) (active_satisfies plan Commit) (cr_local s) M (abs_core s) (abs_core ?t) out"
      by (auto simp: refines_def)
    have "k \<le> length (cr_log s')" "k \<le> cr_commit_index ?t" using k t(3,4) node_okD(4)[OF o(1)] by auto
    then show ?thesis
      by (intro exI[of _ "abs_core ?t"] exI[of _ out] conjI o(2))
        (use t(1-3) q(2) node_okD(1,2)[OF o(1)] in \<open>auto simp: stored_def\<close>)
  qed
qed

lemma survives_settled:
  assumes ok: "node_ok H False M s" and sv: "survives H s durable" and st: "settled plan config s"
  shows "\<forall>v. dur_voted_for durable = Some v \<longrightarrow> v |\<in>| active_eligible_leaders plan \<and> 0 < dur_current_term durable"
proof (cases "\<exists>k. durable = stored s k")
  case True
  then show ?thesis using st by (auto simp: stored_def settled_def)
next
  case False
  then obtain q s' k where q: "cr_pending s = Some q" "durable = stored s' k"
    "apply_durable_mutation H (pend_mutation q) (s\<lparr>cr_pending := None\<rparr>) = (Inr (), s')"
    using sv by (auto simp: survives_def)
  let ?s = "s\<lparr>cr_pending := None\<rparr>"
  have al: "alike s ?s" by (simp add: alike_def)
  note p = persisted_calm[OF ok q(1) refl fixed_plan_pending[OF ok q(1)]]
  have "s' = mutated ?s (pend_mutation q)"
    using apply_mutation_ok[OF node_okD(1)[OF completed_node_ok[OF ok]], of "pend_mutation q"] p(1) alike_new(4)[OF al] q(3) by simp
  then have "settled plan config s'" using mutated_settled[OF st q(1) p(1)] by simp
  then show ?thesis using q(2) by (simp add: settled_def stored_def)
qed

lemma crash_simulated:
  assumes cfg: "configured H plan config" and sim: "simulated H plan config (C, N) M" and s: "C n = Some s"
    and sv: "survives H s durable" and r: "restore H (config n) durable = Inr s'"
  shows "\<exists>M'. plan_steps plan (abs_nodes C, M) (abs_nodes (C(n \<mapsto> s')), M') \<and> simulated H plan config (C(n \<mapsto> s'), N) M'"
proof -
  have ok: "node_ok H False M s" "cr_local s = n" and st: "settled (Stable plan) (config n) s"
    using sim s by (auto simp: simulated_def)
  have plan: "cr_active_plan s = Stable plan" using st by (simp add: settled_def)
  obtain r out where run: "runs False (active_satisfies (Stable plan) Election) (active_satisfies (Stable plan) Commit) n M (abs_core s) r out"
    and r': "rp_term r = dur_current_term durable" "rp_vote r = dur_voted_for durable" "rp_log r = dur_log durable"
      "dur_applied_index durable \<le> rp_commit r"
    and log: "log_ok H (dur_log durable)" "\<forall>e \<in> set (dur_log durable). entry_term e \<le> dur_current_term durable"
      "dur_applied_index durable \<le> length (dur_log durable)"
    using survives_runs[OF ok(1) sv plan] ok(2) by auto
  note shape = restore_shape[OF \<open>restore H (config n) durable = Inr s'\<close>]
  have local: "cfg_local_node_id (config n) = n" "cfg_plan (config n) = plan" using cfg by (simp_all add: configured_def)
  have "abs_core s' = r\<lparr>rp_commit := dur_applied_index durable, rp_role := RFollower\<rparr>"
    using r' shape by (simp add: abs_core_def)
  then have "runs False (active_satisfies (Stable plan) Election) (active_satisfies (Stable plan) Commit) n M (abs_core s) (abs_core s') (out \<union> {})"
    using runs_trans[OF run runs_action[OF restart[OF r'(4)]]] by simp
  then have steps: "plan_steps plan (abs_nodes C, M) (abs_nodes (C(n \<mapsto> s')), M \<union> out)"
    using runs_system[of _ _ _ _ "abs_core s" "abs_core s'" out "abs_nodes C"] s by (simp add: abs_nodes_def)
  have "simulated H plan config (C(n \<mapsto> s'), N) (M \<union> out)"
  proof (rule simulated_update[OF sim])
    show "node_ok H False (M \<union> out) s'" using shape log by (simp add: node_ok_def)
    show "settled (Stable plan) (config n) s'" using shape local survives_settled[OF ok(1) sv st] by (simp add: settled_def)
  qed (use shape local sim in \<open>auto simp: simulated_def\<close>)
  then show ?thesis using steps by blast
qed

lemma frame_simulated:
  assumes sim: "simulated H plan config (C, N) M" and s: "C n = Some s"
    and f: "frame s s'"
  shows "plan_steps plan (abs_nodes C, M) (abs_nodes (C(n \<mapsto> s')), M)" "simulated H plan config (C(n \<mapsto> s'), N) M"
proof -
  have ok: "node_ok H False M s" "cr_local s = n" and st: "settled (Stable plan) (config n) s"
    using sim s by (auto simp: simulated_def)
  have "settled (Stable plan) (config n) s'" using st f by (auto simp: settled_def frame_defs elector_ok_def)
  then show "simulated H plan config (C(n \<mapsto> s'), N) M"
    using simulated_update[OF sim, of "{}" s' n N] frame_node_ok[OF f ok(1)] frame_local[OF f] ok(2) sim by (auto simp: simulated_def)
  show "plan_steps plan (abs_nodes C, M) (abs_nodes (C(n \<mapsto> s')), M)"
    using frame_abs[OF f] s by (simp add: abs_nodes_def fun_upd_idem)
qed

lemma cluster_step_simulated:
  assumes cfg: "configured H plan config" and sim: "simulated H plan config K M" and st: "cluster_step H config K K'"
  shows "\<exists>M'. plan_steps plan (abs_nodes (fst K), M) (abs_nodes (fst K'), M') \<and> simulated H plan config K' M'"
  using st
proof cases
  case (handle C n s N input result s')
  then show ?thesis using handle_simulated[of H plan config C N M n s input result s'] sim by auto
next
  case (set_budgets C n s budget overrides result s' N)
  then have "frame s s'" by (auto simp: set_replication_budgets_def frame_defs split: if_splits)
  then show ?thesis using frame_simulated[of H plan config C N M n s s'] sim set_budgets by auto
next
  case (clear_budgets C n s N)
  then have "frame s (clear_replication_budget_overrides s)"
    by (simp add: clear_replication_budget_overrides_def frame_defs)
  then show ?thesis using frame_simulated[of H plan config C N M n s] sim clear_budgets by auto
next
  case (crash C n s durable s' N)
  then show ?thesis using crash_simulated[OF cfg, of C N M n s durable s'] sim by auto
qed

lemma boot_simulated:
  assumes "configured H plan config"
  shows "simulated H plan config (boot H config) {}" "abs_nodes (fst (boot H config)) = (\<lambda>_. initial_replica)"
proof -
  have s: "node_ok H False {} s" "cr_local s = n" "settled (Stable plan) (config n) s" "abs_core s = initial_replica"
    if "fst (boot H config) n = Some s" for n s
  proof -
    have "restore H (config n) durable_default = Inr s"
      using that by (auto simp: boot_def core_new_def split: sum.splits)
    note restore_shape[OF this]
    then show "node_ok H False {} s" "cr_local s = n" "settled (Stable plan) (config n) s" "abs_core s = initial_replica"
      using assms by (simp_all add: durable_default_def node_ok_def configured_def settled_def abs_core_def initial_replica_def)
  qed
  then show "simulated H plan config (boot H config) {}"
    by (auto simp: simulated_def boot_def abs_network_def)
  show "abs_nodes (fst (boot H config)) = (\<lambda>_. initial_replica)"
    using s(4) by (auto simp: abs_nodes_def fun_eq_iff split: option.split)
qed

section \<open>Runs of the cluster\<close>

lemma cluster_run_simulated:
  assumes cfg: "configured H plan config" and run: "reaches H config K K'" and sim: "simulated H plan config K M"
  shows "\<exists>M'. plan_steps plan (abs_nodes (fst K), M) (abs_nodes (fst K'), M') \<and> simulated H plan config K' M'"
  using run
proof (induction rule: rtranclp_induct)
  case base
  then show ?case using sim by blast
next
  case (step K' K'')
  then obtain M' where M': "plan_steps plan (abs_nodes (fst K), M) (abs_nodes (fst K'), M')" "simulated H plan config K' M'"
    by blast
  obtain M'' where "plan_steps plan (abs_nodes (fst K'), M') (abs_nodes (fst K''), M'')" "simulated H plan config K'' M''"
    using cluster_step_simulated[OF cfg M'(2) step.hyps(2)] by blast
  then show ?case using M'(1) by (meson rtranclp_trans)
qed

text \<open>A reachable cluster and a later one, with histories of the protocol that explain both.\<close>

abbreviation explains :: "compiled_quorum_plan \<Rightarrow> history \<Rightarrow> cluster \<Rightarrow> network \<Rightarrow> bool" where
  "explains plan h K M \<equiv> system_ok (active_satisfies (Stable plan) Election) (active_satisfies (Stable plan) Commit) h
     (abs_nodes (fst K), M)"

lemma cluster_histories:
  assumes cfg: "configured H plan config" and run: "reaches H config (boot H config) K" "reaches H config K K'"
  obtains M M' h h' where "simulated H plan config K M" "explains plan h K M" "simulated H plan config K' M'"
    "explains plan h' K' M'" "extends (active_satisfies (Stable plan) Commit) h h'"
proof -
  have valid: "valid_active H (Stable plan)" using cfg by (simp add: configured_def)
  obtain M where M: "plan_steps plan (abs_nodes (fst (boot H config)), {}) (abs_nodes (fst K), M)" "simulated H plan config K M"
    using cluster_run_simulated[OF cfg run(1) boot_simulated(1)[OF cfg]] by blast
  have "explains plan initial_history (boot H config) {}"
    using initial_ok boot_simulated(2)[OF cfg] by (simp add: initial_system_def)
  then obtain h where h: "explains plan h K M"
    using active.run_ok[OF valid M(1)] by blast
  obtain M' where M': "plan_steps plan (abs_nodes (fst K), M) (abs_nodes (fst K'), M')" "simulated H plan config K' M'"
    using cluster_run_simulated[OF cfg run(2) M(2)] by blast
  obtain h' where "extends (active_satisfies (Stable plan) Commit) h h'" "explains plan h' K' M'"
    using active.run_ok[OF valid M'(1) h] by blast
  then show thesis using that M(2) h M'(2) by blast
qed

lemma explains_history: "explains plan h K M \<Longrightarrow> history_ok (active_satisfies (Stable plan) Election) h"
  by (simp add: system_ok_def)

lemma explains_node:
  assumes "explains plan h K M" "fst K n = Some s"
  shows "role_ok h n (abs_core s)" "log_held (active_satisfies (Stable plan) Commit) h n (abs_core s)"
proof -
  have "replica_ok (active_satisfies (Stable plan) Commit) h n (abs_nodes (fst K) n)" using assms(1) by (simp add: system_ok_def)
  then show "role_ok h n (abs_core s)" "log_held (active_satisfies (Stable plan) Commit) h n (abs_core s)"
    using assms(2) by (simp_all add: replica_ok_def abs_nodes_def)
qed

lemma explains_leader:
  assumes "explains plan h K M" "fst K n = Some s" "cr_role s = LeaderState l"
  shows "hl h (cr_current_term s) = Some n" "hg h (cr_current_term s) = cr_log s"
  using explains_node(1)[OF assms(1,2)] assms(3) by (simp_all add: role_ok_def)

lemma explains_log:
  assumes "explains plan h K M" "fst K n = Some s"
  shows "traced h (cr_log s)"
    "committed (active_satisfies (Stable plan) Commit) h (cr_current_term s) (take (cr_commit_index s) (cr_log s))"
    "cr_commit_index s \<le> length (cr_log s)"
  using explains_node(2)[OF assms] by (simp_all add: log_held_def)

section \<open>Committed prefixes\<close>

lemma reached_prefixes_agree:
  assumes "configured H plan config" "reaches H config (boot H config) K" "reaches H config K K'"
    "fst K n = Some s" "fst K' n' = Some s'" "k \<le> cr_commit_index s" "k \<le> cr_commit_index s'"
  shows "take k (cr_log s) = take k (cr_log s')"
proof -
  let ?c = "active_satisfies (Stable plan) Commit"
  obtain M M' h h' where x: "explains plan h K M" "explains plan h' K' M'" "extends ?c h h'"
    using cluster_histories[OF assms(1-3)] by metis
  have valid: "valid_active H (Stable plan)" using assms(1) by (simp add: configured_def)
  have 1: "committed ?c h' (cr_current_term s) (take k (cr_log s))"
    using committed_take[OF explains_log(2)[OF x(1) assms(4)] assms(6)] x(3) by (simp add: extends_def)
  have 2: "committed ?c h' (cr_current_term s') (take k (cr_log s'))"
    using committed_take[OF explains_log(2)[OF x(2) assms(5)] assms(7)] .
  have "length (take k (cr_log s)) = length (take k (cr_log s'))"
    using assms(6,7) explains_log(3)[OF x(1) assms(4)] explains_log(3)[OF x(2) assms(5)] by simp
  then show ?thesis
    using active.committed_agree[OF valid explains_history[OF x(2)] 1 2] by (metis order_refl take_all)
qed

section \<open>Restart succeeds\<close>

lemma validate_durable_loop_ok:
  assumes log: "log_ok H log" "length log < u64_max" "\<forall>e \<in> set log. entry_term e \<le> t"
    and sorted: "\<And>i. Suc i < length log \<Longrightarrow> entry_term (log ! i) \<le> entry_term (log ! Suc i)"
  shows "es = drop p log \<Longrightarrow> p \<le> length log \<Longrightarrow> validate_durable_loop H t log (Suc p) es = Inr ()"
proof (induction es arbitrary: p)
  case (Cons e es)
  then have p: "p < length log" by (metis drop_all leI list.distinct(1))
  then have e: "e = log ! p" "es = drop (Suc p) log"
    using Cons.prems(1) by (metis Cons_nth_drop_Suc list.inject)+
  have "entry_index e = Suc p" "entry_validate H e = Inr ()" "entry_term e \<le> t"
    using log p e(1) by (auto simp: log_ok_def)
  moreover have "0 < p \<Longrightarrow> \<not> entry_term e < entry_term (log ! (p - 1))"
    using sorted[of "p - 1"] p e(1) by (simp add: not_less)
  moreover have "checked_add u64_max (Suc p) 1 = Some (Suc (Suc p))"
    using p log(2) by simp
  moreover have "validate_durable_loop H t log (Suc (Suc p)) es = Inr ()"
    using Cons.IH[of "Suc p"] e(2) p by simp
  ultimately show ?case
    by (cases p) (simp_all add: numeral_2_eq_2 checked_add_def)
qed simp

lemma restore_ok:
  assumes cfg: "valid_plan H plan" "cfg_plan config = plan" "restore H config durable_default = Inr s0"
    and vote: "\<forall>v. dur_voted_for durable = Some v \<longrightarrow> v |\<in>| active_eligible_leaders (Stable plan) \<and> 0 < dur_current_term durable"
    and log: "log_ok H (dur_log durable)" "length (dur_log durable) < u64_max"
      "\<forall>e \<in> set (dur_log durable). entry_term e \<le> dur_current_term durable"
    and sorted: "\<And>i. Suc i < length (dur_log durable) \<Longrightarrow> entry_term (dur_log durable ! i) \<le> entry_term (dur_log durable ! Suc i)"
    and applied: "dur_applied_index durable \<le> length (dur_log durable)"
  shows "\<exists>s. restore H config durable = Inr s"
proof -
  have "spec_eligible_leaders (plan_spec plan) |\<subseteq>| spec_voters (plan_spec plan)"
    using cfg(1) valid_plan_header_ok by (simp add: header_ok_def)
  then have voter: "dur_voted_for durable = Some v \<Longrightarrow> v |\<in>| spec_voters (plan_spec plan)" for v
    using vote by auto
  have "validate_durable_loop H (dur_current_term durable) (dur_log durable) 1 (dur_log durable) = Inr ()"
    using validate_durable_loop_ok[OF log sorted, of _ 0] by simp
  then have "validate_durable_state H durable = Inr ()"
    unfolding validate_durable_state_def last_entry_index[OF log(1)] using applied by simp
  moreover have "\<not> (dur_current_term durable = 0 \<and> dur_voted_for durable \<noteq> None)" using vote by auto
  ultimately show ?thesis
    using cfg voter unfolding restore_def Let_def
    by (auto simp: durable_default_def split: option.splits if_splits)
qed

lemma cluster_domain: "reaches H config K K' \<Longrightarrow> dom (fst K') = dom (fst K)"
proof (induction rule: rtranclp_induct)
  case (step K' K'')
  from step.hyps(2) have "dom (fst K'') = dom (fst K')" by cases auto
  then show ?case using step.IH by simp
qed simp

end
