(* ===== verification/Cluster_Scenario.thy ===== *)
theory Cluster_Scenario
  imports Cluster
begin

text \<open>
  An executable schedule for clusters, and a run of three voters through two elections and a commit. The run
  is evaluated step by step on the model of the core.
\<close>

section \<open>Scenarios\<close>

text \<open>An executable schedule of a cluster: inputs fed to a node, and deliveries of the i-th message sent.\<close>

datatype event = Feed node_id core_input | Deliver nat nat

type_synonym scene = "(node_id \<times> core) list \<times> (node_id \<times> node_id \<times> core_message) list"

definition sent_list :: "node_id \<Rightarrow> core_error + core_effect list \<Rightarrow> (node_id \<times> node_id \<times> core_message) list" where
  "sent_list n result = (case result of Inl _ \<Rightarrow> [] | Inr effects \<Rightarrow>
     concat (map (\<lambda>e. case e of Send to m \<Rightarrow> [(n, to, m)] | _ \<Rightarrow> []) effects))"

definition feed :: "(bytes \<Rightarrow> bytes) \<Rightarrow> node_id \<Rightarrow> core_input \<Rightarrow> scene \<Rightarrow> scene option" where
  "feed H n input sc =
     (case map_of (fst sc) n of
        None \<Rightarrow> None
      | Some s \<Rightarrow> (case step H input s of (result, s') \<Rightarrow> Some ((n, s') # fst sc, snd sc @ sent_list n result)))"

definition external :: "core_input \<Rightarrow> bool" where
  "external input = (case input of Message _ _ _ \<Rightarrow> False | ActivateJointPlan _ _ _ \<Rightarrow> False | ActivateStablePlan _ _ _ \<Rightarrow> False
     | _ \<Rightarrow> True)"

fun play :: "(bytes \<Rightarrow> bytes) \<Rightarrow> event list \<Rightarrow> scene \<Rightarrow> scene option" where
  "play H [] sc = Some sc"
| "play H (Feed n input # es) sc =
     (if external input then (case feed H n input sc of None \<Rightarrow> None | Some sc' \<Rightarrow> play H es sc') else None)"
| "play H (Deliver i inc # es) sc =
     (if i < length (snd sc) then (case snd sc ! i of (src, to, m) \<Rightarrow>
        (case feed H to (Message src inc m) sc of None \<Rightarrow> None | Some sc' \<Rightarrow> play H es sc')) else None)"

lemma sent_list_set: "set (sent_list n result) = sent_by n result"
  by (auto simp: sent_list_def sent_by_def split: sum.split core_effect.splits)

lemma feed_step:
  assumes "feed H n input sc = Some sc'" "deliverable (set (snd sc)) n input"
  shows "cluster_step H config (map_of (fst sc), set (snd sc)) (map_of (fst sc'), set (snd sc'))"
proof -
  obtain s result s' where s: "map_of (fst sc) n = Some s" "step H input s = (result, s')"
    "sc' = ((n, s') # fst sc, snd sc @ sent_list n result)"
    using assms(1) by (auto simp: feed_def split: option.splits prod.splits)
  show ?thesis
    using handle[where C = "map_of (fst sc)" and N = "set (snd sc)", OF s(1) assms(2) s(2), of config] s(3)
    by (simp add: sent_list_set)
qed

lemma play_reaches:
  "play H es sc = Some sc' \<Longrightarrow> reaches H config (map_of (fst sc), set (snd sc)) (map_of (fst sc'), set (snd sc'))"
proof (induction es arbitrary: sc)
  case (Cons e es)
  obtain n input sc1 where f: "feed H n input sc = Some sc1" "deliverable (set (snd sc)) n input" "play H es sc1 = Some sc'"
  proof (cases e)
    case (Feed n input)
    then show thesis
      using Cons.prems that by (auto simp: external_def deliverable_def split: if_splits option.splits core_input.splits)
  next
    case (Deliver i inc)
    obtain src to m where m: "snd sc ! i = (src, to, m)" by (cases "snd sc ! i")
    then have "i < length (snd sc)" using Cons.prems Deliver by (auto split: if_splits)
    then have "(src, to, m) \<in> set (snd sc)" using m by (metis nth_mem)
    then show thesis
      using Cons.prems Deliver m that[of to "Message src inc m"] by (auto simp: deliverable_def split: if_splits option.splits)
  qed
  show ?case using feed_step[OF f(1,2)] Cons.IH[OF f(3)] by (rule converse_rtranclp_into_rtranclp)
qed simp

section \<open>Three voters\<close>

abbreviation nodeA :: node_id where "nodeA \<equiv> NodeId [1]"
abbreviation nodeB :: node_id where "nodeB \<equiv> NodeId [2]"
abbreviation nodeC :: node_id where "nodeC \<equiv> NodeId [3]"

definition one_digest :: "bytes \<Rightarrow> bytes" where "one_digest _ = replicate 32 1"

definition trio_spec :: quorum_plan_spec where
  "trio_spec = \<lparr>spec_plan_id = QuorumPlanId [9], spec_format_version = 1, spec_membership_epoch = 1,
     spec_voters = {|nodeA, nodeB, nodeC|}, spec_learners = {||}, spec_eligible_leaders = {|nodeA, nodeB, nodeC|},
     spec_election = AtLeast 2 [Voter nodeA, Voter nodeB, Voter nodeC],
     spec_commit = AtLeast 2 [Voter nodeA, Voter nodeB, Voter nodeC],
     spec_read = AtLeast 2 [Voter nodeA, Voter nodeB, Voter nodeC]\<rparr>"

definition trio_family :: family_proof where
  "trio_family = \<lparr>minimal_quorums = [VoterSet 3, VoterSet 5, VoterSet 6],
     minimal_cut_sets = [VoterSet 3, VoterSet 5, VoterSet 6]\<rparr>"

definition trio_plan :: compiled_quorum_plan where
  "trio_plan = \<lparr>plan_spec = trio_spec, ordered_voters = [nodeA, nodeB, nodeC], plan_election = trio_family,
     plan_commit = trio_family, plan_read = trio_family, plan_proof_digest = replicate 32 1\<rparr>"

lemma trio_compiles: "compile_plan one_digest trio_spec = Inr trio_plan"
  by code_simp

definition trio_config :: "node_id \<Rightarrow> core_config" where
  "trio_config n = \<lparr>cfg_partition_id = PartitionId [5], cfg_local_node_id = n, cfg_local_incarnation = 1, cfg_plan = trio_plan,
     cfg_member_incarnations = MemberIncarnations (fmap_of_list [(nodeA, 1), (nodeB, 1), (nodeC, 1)])\<rparr>"

lemma trio_configured: "configured one_digest trio_plan trio_config"
  using compile_plan_valid[OF trio_compiles] by (simp add: configured_def trio_config_def)

definition trio_scene :: scene where
  "trio_scene = (map (\<lambda>n. (n, projr (core_new one_digest (trio_config n)))) [nodeA, nodeB, nodeC], [])"

lemma trio_boot: "(map_of (fst trio_scene), set (snd trio_scene)) = boot one_digest trio_config"
proof -
  have ok: "\<forall>n \<in> {nodeA, nodeB, nodeC}. is_ok (core_new one_digest (trio_config n))" by code_simp
  have "core_new one_digest (trio_config n) = Inl InvalidConfiguration" if "n \<notin> {nodeA, nodeB, nodeC}" for n
    using that by (simp add: core_new_def restore_def trio_config_def trio_plan_def trio_spec_def)
  then have "map_of (fst trio_scene) n = fst (boot one_digest trio_config) n" for n
    using ok by (cases "n \<in> {nodeA, nodeB, nodeC}") (auto simp: trio_scene_def boot_def is_ok_def split: sum.splits)
  then show ?thesis by (auto simp: boot_def trio_scene_def)
qed

text \<open>
  The first node is elected by the second, one entry is replicated and committed on both, and then the second
  node is elected by the third in the next term.
\<close>

definition elected :: "event list" where
  "elected = [Feed nodeA ElectionTimeout, Feed nodeA (Persisted (PersistenceId 1)), Deliver 0 1,
     Feed nodeB (Persisted (PersistenceId 1)), Deliver 2 1]"

definition replicated :: "event list" where
  "replicated = [Feed nodeA (Propose (ProposalId 1) (OperationId (replicate 16 7)) 1 [42]),
     Feed nodeA (Persisted (PersistenceId 2)), Deliver 5 1, Feed nodeB (Persisted (PersistenceId 2)), Deliver 7 1,
     Feed nodeA Heartbeat, Deliver 8 1]"

definition takeover :: "event list" where
  "takeover = [Feed nodeB ElectionTimeout, Feed nodeB (Persisted (PersistenceId 3)), Deliver 13 1,
     Feed nodeC (Persisted (PersistenceId 1)), Deliver 14 1]"

definition node_in :: "scene option \<Rightarrow> node_id \<Rightarrow> (core \<Rightarrow> bool) \<Rightarrow> bool" where
  "node_in sc n P = (case sc of None \<Rightarrow> False | Some sc' \<Rightarrow> (case map_of (fst sc') n of None \<Rightarrow> False | Some s \<Rightarrow> P s))"

definition leads :: "nat \<Rightarrow> nat \<Rightarrow> core \<Rightarrow> bool" where
  "leads t k s \<longleftrightarrow> role_of s = Leader \<and> cr_current_term s = t \<and> cr_commit_index s = k \<and>
     map entry_term (cr_log s) = [1]"

lemma trio_committed_run:
  "let sc = play one_digest (elected @ replicated) trio_scene
   in node_in sc nodeA (leads 1 1) \<and> node_in sc nodeB (\<lambda>s. cr_commit_index s = 1 \<and> map entry_term (cr_log s) = [1])"
  by code_simp

lemma trio_takeover_run:
  "let sc = play one_digest (elected @ replicated @ takeover) trio_scene
   in node_in sc nodeA (leads 1 1) \<and> node_in sc nodeB (leads 2 1)"
  by code_simp

definition cluster_at :: "event list \<Rightarrow> cluster" where
  "cluster_at es = (case play one_digest es trio_scene of None \<Rightarrow> boot one_digest trio_config
     | Some sc \<Rightarrow> (map_of (fst sc), set (snd sc)))"

lemma cluster_at_reached: "reaches one_digest trio_config (boot one_digest trio_config) (cluster_at es)"
  using play_reaches[of one_digest es trio_scene] trio_boot by (auto simp: cluster_at_def split: option.split)

lemma play_append: "play H (xs @ ys) sc = (case play H xs sc of None \<Rightarrow> None | Some sc' \<Rightarrow> play H ys sc')"
  by (induction H xs sc rule: play.induct) (auto split: option.split prod.split)

lemma cluster_at_extended:
  assumes "play one_digest es trio_scene \<noteq> None"
  shows "reaches one_digest trio_config (cluster_at es) (cluster_at (es @ es'))
    \<or> play one_digest (es @ es') trio_scene = None"
  using assms play_reaches[of one_digest es'] by (auto simp: cluster_at_def play_append split: option.split)

lemma node_in_cluster:
  "node_in (play one_digest es trio_scene) n P \<Longrightarrow> \<exists>s. fst (cluster_at es) n = Some s \<and> P s"
  by (auto simp: node_in_def cluster_at_def split: option.splits)

lemma leads_role: "leads t k s \<Longrightarrow> \<exists>l. cr_role s = LeaderState l"
  by (auto simp: leads_def role_of_def split: role_state.splits)


end
