(* ===== verification/Cluster_Properties.thy ===== *)
theory Cluster_Properties
  imports Cluster_Scenario
begin

text \<open>
  The safety of a cluster of cores under one plan, as the properties a client relies on, each applied to the
  run of three voters.
\<close>

section \<open>Facts about the run\<close>

lemma trio_before:
  obtains s where "fst (cluster_at (elected @ replicated)) nodeA = Some s" "leads 1 1 s"
  using node_in_cluster[of "elected @ replicated" nodeA "leads 1 1"] trio_committed_run by (auto simp: Let_def)

lemma trio_follower:
  obtains s where "fst (cluster_at (elected @ replicated)) nodeB = Some s" "cr_commit_index s = 1" "map entry_term (cr_log s) = [1]"
  using node_in_cluster[of "elected @ replicated" nodeB "\<lambda>s. cr_commit_index s = 1 \<and> map entry_term (cr_log s) = [1]"] trio_committed_run
  by (auto simp: Let_def)

lemma trio_after:
  obtains s s' where "fst (cluster_at (elected @ replicated @ takeover)) nodeA = Some s" "leads 1 1 s"
    "fst (cluster_at (elected @ replicated @ takeover)) nodeB = Some s'" "leads 2 1 s'"
  using node_in_cluster[of "elected @ replicated @ takeover" nodeA "leads 1 1"]
    node_in_cluster[of "elected @ replicated @ takeover" nodeB "leads 2 1"] trio_takeover_run by (auto simp: Let_def)

lemma trio_later:
  "reaches one_digest trio_config (cluster_at (elected @ replicated)) (cluster_at (elected @ replicated @ takeover))"
  using cluster_at_extended[of "elected @ replicated" takeover] trio_committed_run trio_takeover_run
  by (auto simp: Let_def node_in_def split: option.splits)

section \<open>Refinement\<close>

text \<open>
  C5. Every run of a cluster that starts from freshly created cores is matched by a run of the replication
  protocol from its initial system to the abstraction of the cluster's cores, with a protocol network that
  holds the abstraction of every message the cores have sent.
\<close>

theorem cluster_refines_protocol:
  assumes "configured H plan config" "reaches H config (boot H config) K"
  shows "\<exists>M. plan_steps plan initial_system (abs_nodes (fst K), M) \<and> abs_network (snd K) \<subseteq> M"
  using cluster_run_simulated[OF assms boot_simulated(1)[OF assms(1)]] boot_simulated(2)[OF assms(1)]
  by (auto simp: initial_system_def simulated_def)

theorem cluster_refines_protocol_witness:
  "\<exists>M. plan_steps trio_plan initial_system (abs_nodes (fst (cluster_at (elected @ replicated @ takeover))), M) \<and>
     abs_network (snd (cluster_at (elected @ replicated @ takeover))) \<subseteq> M"
  by (rule cluster_refines_protocol[OF trio_configured cluster_at_reached])

section \<open>Safety\<close>

text \<open>
  C4. Election safety: if a node leads in some state of a run and a node leads in that or any later state,
  and both are in the same term, they are the same node. This covers crashes, restarts from durable state,
  and lost, repeated or reordered messages.
\<close>

theorem cluster_one_leader:
  assumes "configured H plan config" "reaches H config (boot H config) K" "reaches H config K K'"
    "fst K n = Some s" "cr_role s = LeaderState l" "fst K' n' = Some s'" "cr_role s' = LeaderState l'"
    "cr_current_term s = cr_current_term s'"
  shows "n = n'"
proof -
  obtain M M' h h' where x: "explains plan h K M" "explains plan h' K' M'" "extends (active_satisfies (Stable plan) Commit) h h'"
    using cluster_histories[OF assms(1-3)] by metis
  have "hl h' (cr_current_term s) = Some n" using explains_leader(1)[OF x(1) assms(4,5)] x(3) by (simp add: extends_def)
  then show ?thesis using explains_leader(1)[OF x(2) assms(6,7)] assms(8) by simp
qed

theorem cluster_one_leader_witness:
  "\<exists>s s'. fst (cluster_at (elected @ replicated)) nodeA = Some s \<and> role_of s = Leader \<and>
     fst (cluster_at (elected @ replicated @ takeover)) nodeB = Some s' \<and> role_of s' = Leader \<and>
     cr_current_term s \<noteq> cr_current_term s'"
proof -
  obtain s where s: "fst (cluster_at (elected @ replicated)) nodeA = Some s" "leads 1 1 s" by (rule trio_before)
  obtain s0 s' where s': "fst (cluster_at (elected @ replicated @ takeover)) nodeB = Some s'" "leads 2 1 s'" by (rule trio_after)
  obtain l l' where l: "cr_role s = LeaderState l" "cr_role s' = LeaderState l'"
    using leads_role s(2) s'(2) by blast
  have "cr_current_term s \<noteq> cr_current_term s'"
    using cluster_one_leader[OF trio_configured cluster_at_reached trio_later s(1) l(1) s'(1) l(2)] by auto
  then show ?thesis using s s' by (auto simp: leads_def)
qed

text \<open>
  C1. State machine safety: the committed prefixes of any two nodes, read in one state or in two states of a
  run, agree on every index that both have committed. No two nodes ever apply different entries at an index,
  and a node that restarts never applies something else than before.
\<close>

theorem cluster_committed_agree:
  assumes "configured H plan config" "reaches H config (boot H config) K" "reaches H config K K'"
    "fst K n = Some s" "fst K' n' = Some s'" "k \<le> cr_commit_index s" "k \<le> cr_commit_index s'"
  shows "take k (cr_log s) = take k (cr_log s')"
  by (rule reached_prefixes_agree[OF assms])

theorem cluster_committed_agree_witness:
  "\<exists>s s'. fst (cluster_at (elected @ replicated)) nodeA = Some s \<and> cr_commit_index s = 1 \<and>
     fst (cluster_at (elected @ replicated @ takeover)) nodeB = Some s' \<and> cr_commit_index s' = 1 \<and>
     take 1 (cr_log s) = take 1 (cr_log s')"
proof -
  obtain s where s: "fst (cluster_at (elected @ replicated)) nodeA = Some s" "leads 1 1 s" by (rule trio_before)
  obtain s0 s' where s': "fst (cluster_at (elected @ replicated @ takeover)) nodeB = Some s'" "leads 2 1 s'" by (rule trio_after)
  have "take 1 (cr_log s) = take 1 (cr_log s')"
    by (rule cluster_committed_agree[OF trio_configured cluster_at_reached trio_later s(1) s'(1)])
      (use s(2) s'(2) in \<open>simp_all add: leads_def\<close>)
  then show ?thesis using s s' by (auto simp: leads_def)
qed

text \<open>
  C8. Leader completeness: a node that leads in some term holds the whole prefix that any node had committed
  in an earlier state of the run, when that node's term was not higher.
\<close>

theorem cluster_leader_complete:
  assumes "configured H plan config" "reaches H config (boot H config) K" "reaches H config K K'"
    "fst K n = Some s" "fst K' n' = Some s'" "cr_role s' = LeaderState l'" "cr_current_term s \<le> cr_current_term s'"
  shows "take (cr_commit_index s) (cr_log s') = take (cr_commit_index s) (cr_log s)"
proof -
  let ?c = "active_satisfies (Stable plan) Commit"
  obtain M M' h h' where x: "explains plan h K M" "explains plan h' K' M'" "extends ?c h h'"
    using cluster_histories[OF assms(1-3)] by metis
  have valid: "valid_active H (Stable plan)" using assms(1) by (simp add: configured_def)
  have c: "committed ?c h' (cr_current_term s) (take (cr_commit_index s) (cr_log s))"
    using explains_log(2)[OF x(1) assms(4)] x(3) by (simp add: extends_def)
  have "length (take (cr_commit_index s) (cr_log s)) = cr_commit_index s"
    using explains_log(3)[OF x(1) assms(4)] by simp
  then show ?thesis
    using active.committed_leader[OF valid explains_history[OF x(2)] c _ assms(7)] explains_leader[OF x(2) assms(5,6)] by simp
qed

theorem cluster_leader_complete_witness:
  "\<exists>s s'. fst (cluster_at (elected @ replicated)) nodeA = Some s \<and>
     fst (cluster_at (elected @ replicated @ takeover)) nodeB = Some s' \<and> role_of s' = Leader \<and>
     take 1 (cr_log s') = take 1 (cr_log s)"
proof -
  obtain s where s: "fst (cluster_at (elected @ replicated)) nodeA = Some s" "leads 1 1 s" by (rule trio_before)
  obtain s0 s' where s': "fst (cluster_at (elected @ replicated @ takeover)) nodeB = Some s'" "leads 2 1 s'" by (rule trio_after)
  obtain l' where l': "cr_role s' = LeaderState l'" using leads_role s'(2) by blast
  have "take (cr_commit_index s) (cr_log s') = take (cr_commit_index s) (cr_log s)"
    by (rule cluster_leader_complete[OF trio_configured cluster_at_reached trio_later s(1) s'(1) l'])
      (use s(2) s'(2) in \<open>simp add: leads_def\<close>)
  then show ?thesis using s s' by (auto simp: leads_def)
qed

text \<open>
  C9. Log matching: if two nodes hold entries of the same term at the same index, their logs are identical up
  to and including that index.
\<close>

theorem cluster_log_matching:
  assumes "configured H plan config" "reaches H config (boot H config) K" "fst K n = Some s" "fst K n' = Some s'"
    "i < length (cr_log s)" "i < length (cr_log s')" "entry_term (cr_log s ! i) = entry_term (cr_log s' ! i)"
  shows "take (Suc i) (cr_log s) = take (Suc i) (cr_log s')"
proof -
  obtain M h where x: "explains plan h K M" using cluster_histories[OF assms(1,2) rtranclp.rtrancl_refl] by metis
  show ?thesis using traced_matching[OF explains_log(1)[OF x assms(3)] explains_log(1)[OF x assms(4)] assms(5-7)] .
qed

theorem cluster_log_matching_witness:
  "\<exists>s s'. fst (cluster_at (elected @ replicated)) nodeA = Some s \<and> fst (cluster_at (elected @ replicated)) nodeB = Some s' \<and>
     length (cr_log s) = 1 \<and> take 1 (cr_log s) = take 1 (cr_log s')"
proof -
  obtain s where s: "fst (cluster_at (elected @ replicated)) nodeA = Some s" "leads 1 1 s" by (rule trio_before)
  obtain s' where s': "fst (cluster_at (elected @ replicated)) nodeB = Some s'" "map entry_term (cr_log s') = [1]"
    by (rule trio_follower)
  have logs: "length (cr_log s) = 1" "length (cr_log s') = 1" "entry_term (cr_log s ! 0) = 1" "entry_term (cr_log s' ! 0) = 1"
    using s(2) s'(2) by (auto simp: leads_def map_eq_Cons_conv)
  have "take (Suc 0) (cr_log s) = take (Suc 0) (cr_log s')"
    by (rule cluster_log_matching[OF trio_configured cluster_at_reached s(1) s'(1)]) (simp_all add: logs)
  then show ?thesis using s s' logs by auto
qed

section \<open>Restart\<close>



end
