(* ===== verification/Core_Reads.thy ===== *)
theory Core_Reads
  imports Core_Reports
begin

text \<open>
  Read barriers of a leader. A barrier of one term is watched from the moment it is begun: the nodes that may
  have confirmed it, and the lowest applied index it may release. Every input keeps the watch, and a barrier
  is released only with a read quorum among the watched nodes, at an applied index whose entry is of the
  leader's own term and not below the watched floor.
\<close>

section \<open>Watched barriers\<close>

record watch =
  w_barrier :: read_barrier_id
  w_term :: nat
  w_nodes :: "node_id set"
  w_floor :: nat

definition floor_ok :: "watch \<Rightarrow> core \<Rightarrow> nat \<Rightarrow> bool" where
  "floor_ok w s r \<longleftrightarrow> w_floor w \<le> r \<and> 0 < r \<and> r \<le> cr_commit_index s \<and> entry_term (cr_log s ! (r - 1)) = w_term w"

definition barrier_ok :: "watch \<Rightarrow> core \<Rightarrow> read_barrier_state \<Rightarrow> bool" where
  "barrier_ok w s b \<longleftrightarrow>
     fset (rb_acknowledgements b) \<subseteq> w_nodes w \<and>
     (rb_quorum_confirmed b \<longrightarrow> active_satisfies (cr_active_plan s) Read (rb_acknowledgements b)) \<and>
     (\<forall>r. rb_required_applied_index b = Some r \<longrightarrow> floor_ok w s r)"

definition watched :: "watch \<Rightarrow> core \<Rightarrow> bool" where
  "watched w s \<longleftrightarrow>
     (\<forall>l b. cr_role s = LeaderState l \<longrightarrow> cr_current_term s = w_term w \<longrightarrow>
        fmlookup (ls_read_barriers l) (w_barrier w) = Some b \<longrightarrow> barrier_ok w s b)"

definition in_office :: "watch \<Rightarrow> core \<Rightarrow> bool" where
  "in_office w s \<longleftrightarrow> (\<forall>l. cr_role s = LeaderState l \<longrightarrow> cr_current_term s = w_term w \<longrightarrow> w_floor w \<le> cr_commit_index s)"

text \<open>What the release of a barrier promises.\<close>

definition released :: "watch \<Rightarrow> core \<Rightarrow> nat \<Rightarrow> bool" where
  "released w s r \<longleftrightarrow>
     floor_ok w s r \<and> r \<le> cr_applied_index s \<and>
     (\<exists>Q. fset Q \<subseteq> w_nodes w \<and> active_satisfies (cr_active_plan s) Read Q)"

lemma floor_ok_calm: "floor_ok w s r \<Longrightarrow> calm s s' \<Longrightarrow> floor_ok w s' r"
  by (auto simp: floor_ok_def calm_def)

lemma barrier_ok_calm: "barrier_ok w s b \<Longrightarrow> calm s s' \<Longrightarrow> barrier_ok w s' b"
  using floor_ok_calm by (auto simp: barrier_ok_def calm_def)

lemma released_calm: "released w s r \<Longrightarrow> calm s s' \<Longrightarrow> released w s' r"
  using floor_ok_calm by (auto simp: released_def calm_def)

lemma in_office_calm: "in_office w s \<Longrightarrow> calm s s' \<Longrightarrow> (\<And>l'. cr_role s' = LeaderState l' \<Longrightarrow> \<exists>l. cr_role s = LeaderState l) \<Longrightarrow> in_office w s'"
  by (auto simp: in_office_def calm_def)

text \<open>A state that keeps the watch because its barriers are those of an earlier state, or none.\<close>

definition same_barriers :: "core \<Rightarrow> core \<Rightarrow> bool" where
  "same_barriers s s' \<longleftrightarrow>
     (\<forall>l'. cr_role s' = LeaderState l' \<longrightarrow>
        ls_read_barriers l' = fmempty \<or> (\<exists>l. cr_role s = LeaderState l \<and> ls_read_barriers l' = ls_read_barriers l))"

lemma watched_same:
  assumes "watched w s" "calm s s'" "same_barriers s s'"
  shows "watched w s'"
  unfolding watched_def
proof (intro allI impI)
  fix l' b assume l': "cr_role s' = LeaderState l'" "cr_current_term s' = w_term w"
    "fmlookup (ls_read_barriers l') (w_barrier w) = Some b"
  then obtain l where "cr_role s = LeaderState l" "ls_read_barriers l' = ls_read_barriers l"
    using assms(3) by (auto simp: same_barriers_def)
  then have "barrier_ok w s b" using assms(1,2) l' by (auto simp: watched_def calm_def)
  then show "barrier_ok w s' b" by (rule barrier_ok_calm[OF _ assms(2)])
qed

text \<open>Operations that neither touch a barrier nor release one.\<close>

definition keeps :: "'a core_op \<Rightarrow> bool" where
  "keeps m \<longleftrightarrow> (\<forall>s. calm s (snd (m s)) \<and> same_barriers s (snd (m s)))"

named_theorems keeps_ops

lemma same_barriers_refl [simp]: "same_barriers s s"
  by (simp add: same_barriers_def)

lemma same_barriers_trans: "same_barriers s s' \<Longrightarrow> same_barriers s' s'' \<Longrightarrow> same_barriers s s''"
  unfolding same_barriers_def by metis

lemma keepsI: "calmly m \<Longrightarrow> (\<And>s. same_barriers s (snd (m s))) \<Longrightarrow> keeps m"
  by (simp add: keeps_def calmly_def)

lemma keepsD: "keeps m \<Longrightarrow> calm s (snd (m s))" "keeps m \<Longrightarrow> same_barriers s0 s \<Longrightarrow> same_barriers s0 (snd (m s))"
  using same_barriers_trans by (auto simp: keeps_def)

lemma keeps_watched: "keeps m \<Longrightarrow> watched w s \<Longrightarrow> watched w (snd (m s))"
  by (auto simp: keeps_def intro: watched_same)

lemma keeps_bind [keeps_ops]:
  assumes "keeps m" "\<And>x. keeps (k x)"
  shows "keeps (cbind m k)"
proof (rule keepsI)
  show "calmly (cbind m k)" using assms by (intro calmly_bind) (simp_all add: keeps_def calmly_def)
  fix s
  show "same_barriers s (snd (cbind m k s))"
    using keepsD(2)[OF assms(1) same_barriers_refl, of s] keepsD(2)[OF assms(2)]
    by (cases "m s"; cases "fst (m s)") (auto simp: cbind_def)
qed

lemma keeps_pure [keeps_ops]: "keeps (ret x)" "keeps (\<lambda>s. (g s, s))"
  by (simp_all add: keeps_def ret_def)

lemma keeps_for_each [keeps_ops]: "(\<And>x. keeps (f x)) \<Longrightarrow> keeps (for_each f xs)"
  by (induction xs) (auto intro!: keeps_ops)

lemma keeps_if [keeps_ops]: "keeps m \<Longrightarrow> keeps m' \<Longrightarrow> keeps (if b then m else m')"
  by simp

lemma keeps_probe_effect [keeps_ops]: "keeps (probe_effect H peer kind rb)"
  by (rule keepsI[OF calmly_probe_effect])
    (auto simp: same_barriers_def probe_effect_def probe_emit_def split: role_state.splits sum.splits option.splits)

lemma keeps_advance [keeps_ops]: "keeps advance_leader_commit" "keeps (advance_follower_commit k)"
  by (rule keepsI[OF calmly_advance(1)] keepsI[OF calmly_advance(2)],
      auto simp: same_barriers_def advance_leader_commit_def advance_follower_commit_def Let_def
        split: role_state.splits sum.splits option.splits)+

lemma same_barriers_follow [simp]: "same_barriers s (follow_leader ld s')"
  by (simp add: same_barriers_def follow_leader_def)

lemma same_barriers_set_leader [simp]: "ls_read_barriers l = fmempty \<Longrightarrow> same_barriers s (set_leader l s')"
  by (simp add: same_barriers_def set_leader_def)

lemma keeps_become_leader [keeps_ops]: "keeps (become_leader H)"
proof (rule keepsI[OF calmly_become_leader])
  fix s
  have "same_barriers s (s\<lparr>cr_role := LeaderState (initial_leader_state s a b), cr_leader_id := ld\<rparr>)" for a b ld
    by (simp add: same_barriers_def initial_leader_state_def)
  then show "same_barriers s (snd (become_leader H s))"
    unfolding become_leader_def Let_def by (auto intro!: keepsD(2)[OF keeps_bind] keeps_ops split: option.split)
qed

lemma keeps_finish_campaign [keeps_ops]: "keeps (finish_campaign H)"
proof (rule keepsI[OF calmly_finish_campaign])
  fix s
  have "same_barriers s (s\<lparr>cr_leader_id := None, cr_role := CandidateState V\<rparr>)" for V by (simp add: same_barriers_def)
  then show "same_barriers s (snd (finish_campaign H s))"
    unfolding finish_campaign_def Let_def by (auto intro!: keepsD(2)[OF keeps_bind] keeps_ops)
qed

lemma keeps_heartbeat [keeps_ops]: "keeps (heartbeat H)"
proof -
  have [keeps_ops]: "keeps (heartbeat_peer H k peer)" for k peer
  proof -
    have "keeps (cbind (if b then cbind (probe_effect H peer Replication None) (\<lambda>probe. ret [probe]) else ret [])
      (\<lambda>replication. cbind (probe_effect H peer Contact None) (\<lambda>contact. ret (replication @ [contact]))))" for b
      by (intro keeps_ops)
    then show ?thesis by (simp add: keeps_def heartbeat_peer_def)
  qed
  have "keeps (cbind (for_each (heartbeat_peer H k) ps) (\<lambda>effects. ret (concat effects)))" for k ps by (intro keeps_ops)
  then show ?thesis by (simp add: keeps_def heartbeat_def)
qed

lemma keeps_follow:
  assumes "keeps m"
  shows "keeps (\<lambda>s. m (follow_leader ld s))"
  using keepsD(2)[OF assms same_barriers_follow] calm_trans[OF calm_set_leader(2) keepsD(1)[OF assms]] by (simp add: keeps_def)

lemma keeps_finish_committed_prefix [keeps_ops]: "keeps (finish_committed_prefix src k)"
proof -
  have "keeps (\<lambda>s. cbind (advance_follower_commit j) (\<lambda>effects s'. (Inr (effects @ [membership_notice_effect s' src]), s')) (follow_leader None s))" for j
    by (rule keeps_follow) (intro keeps_ops)
  then show ?thesis by (simp add: keeps_def finish_committed_prefix_def)
qed

lemma keeps_finish_proposal [keeps_ops]: "keeps (finish_proposal H proposal position)"
proof (rule keepsI[OF calmly_finish_proposal])
  fix s
  have "cr_role s = LeaderState l \<Longrightarrow> ls_read_barriers l' = ls_read_barriers l \<Longrightarrow> same_barriers s (set_leader l' s)" for l l'
    by (simp add: same_barriers_def set_leader_def)
  then show "same_barriers s (snd (finish_proposal H proposal position s))"
    unfolding finish_proposal_def Let_def by (auto intro!: keepsD(2)[OF keeps_bind] keeps_ops split: role_state.split option.split)
qed

section \<open>Completion of barriers\<close>

lemma btree_items_iff: "(k, v) \<in> set (btree_items m) \<longleftrightarrow> fmlookup m k = Some v"
  by (auto simp: btree_items_def btree_iter_def image_iff fmlookup_dom_iff)

definition safe :: "watch \<Rightarrow> (core_error + core_effect list) \<times> core \<Rightarrow> bool" where
  "safe w rs \<longleftrightarrow> watched w (snd rs) \<and>
     (\<forall>x r. fst rs = Inr x \<longrightarrow> ReadBarrierReady (w_barrier w) r \<in> set x \<longrightarrow> cr_current_term (snd rs) = w_term w \<longrightarrow> released w (snd rs) r)"

lemma commit_current_floor:
  assumes "commit_is_current s" "cr_current_term s = w_term w" "w_floor w \<le> cr_commit_index s" "log_ok H (cr_log s)"
  shows "floor_ok w s (cr_commit_index s)"
  using assms entry_eq[OF assms(4)]
  by (auto simp: commit_is_current_def floor_ok_def split: option.splits if_splits)

definition required_index :: "core \<Rightarrow> read_barrier_state \<Rightarrow> nat" where
  "required_index s b = (case rb_required_applied_index b of None \<Rightarrow> cr_commit_index s | Some r \<Rightarrow> r)"

lemma required_floor:
  assumes "barrier_ok w s b" "commit_is_current s" "cr_current_term s = w_term w" "w_floor w \<le> cr_commit_index s" "log_ok H (cr_log s)"
  shows "floor_ok w s (required_index s b)"
  using assms(1) commit_current_floor[OF assms(2-5)] by (auto simp: required_index_def barrier_ok_def split: option.split)

lemma complete_read_barriers_parts:
  assumes "commit_is_current s" "cr_role s = LeaderState l"
  shows "\<exists>l'. snd (complete_read_barriers s) = set_leader l' s \<and>
      (\<forall>i b'. fmlookup (ls_read_barriers l') i = Some b' \<longrightarrow>
         (\<exists>b. fmlookup (ls_read_barriers l) i = Some b \<and> b' = b\<lparr>rb_required_applied_index := Some (required_index s b)\<rparr>))"
    "ReadBarrierReady i r \<in> set (fst (complete_read_barriers s)) \<Longrightarrow>
      \<exists>b. fmlookup (ls_read_barriers l) i = Some b \<and> rb_quorum_confirmed b \<and> r = required_index s b \<and> r \<le> cr_applied_index s"
proof -
  show "\<exists>l'. snd (complete_read_barriers s) = set_leader l' s \<and>
      (\<forall>i b'. fmlookup (ls_read_barriers l') i = Some b' \<longrightarrow>
         (\<exists>b. fmlookup (ls_read_barriers l) i = Some b \<and> b' = b\<lparr>rb_required_applied_index := Some (required_index s b)\<rparr>))"
    using assms
    by (simp add: complete_read_barriers_def Let_def)
      (rule exI, rule conjI, rule refl, auto simp: required_index_def split: if_splits)
  assume "ReadBarrierReady i r \<in> set (fst (complete_read_barriers s))"
  then obtain b' where "(i, b') \<in> set (btree_items (fmmap (\<lambda>b. b\<lparr>rb_required_applied_index := Some (required_index s b)\<rparr>) (ls_read_barriers l)))"
    "rb_quorum_confirmed b'" "r = required_index s b'" "r \<le> cr_applied_index s"
    using assms by (auto simp: complete_read_barriers_def Let_def required_index_def)
  then show "\<exists>b. fmlookup (ls_read_barriers l) i = Some b \<and> rb_quorum_confirmed b \<and> r = required_index s b \<and> r \<le> cr_applied_index s"
    by (auto simp: btree_items_iff required_index_def)
qed

lemma complete_read_barriers_safe:
  assumes w: "watched w s" "in_office w s" and log: "log_ok H (cr_log s)" and c: "complete_read_barriers s = (effects, s')"
  shows "safe w (Inr effects, s')"
proof (cases "commit_is_current s \<and> (\<exists>l. cr_role s = LeaderState l)")
  case False
  then have "effects = []" "s' = s" using c by (auto simp: complete_read_barriers_def split: role_state.splits if_splits)
  then show ?thesis using w(1) by (simp add: safe_def)
next
  case True
  then obtain l where l: "commit_is_current s" "cr_role s = LeaderState l" by blast
  note parts = complete_read_barriers_parts[OF l, unfolded c fst_conv snd_conv]
  have ok: "barrier_ok w s b" "floor_ok w s (required_index s b)"
    if "fmlookup (ls_read_barriers l) (w_barrier w) = Some b" "cr_current_term s = w_term w" for b
    using w l that required_floor[OF _ l(1) that(2) _ log] by (auto simp: watched_def in_office_def)
  obtain l' where l': "s' = set_leader l' s"
    "\<And>i b'. fmlookup (ls_read_barriers l') i = Some b' \<Longrightarrow>
       \<exists>b. fmlookup (ls_read_barriers l) i = Some b \<and> b' = b\<lparr>rb_required_applied_index := Some (required_index s b)\<rparr>"
    using parts(1) by blast
  have "watched w s'"
    unfolding watched_def
  proof (intro allI impI)
    fix k b' assume a: "cr_role s' = LeaderState k" "cr_current_term s' = w_term w" "fmlookup (ls_read_barriers k) (w_barrier w) = Some b'"
    then obtain b where b: "fmlookup (ls_read_barriers l) (w_barrier w) = Some b"
      "b' = b\<lparr>rb_required_applied_index := Some (required_index s b)\<rparr>"
      using l' by (auto simp: set_leader_def)
    then show "barrier_ok w s' b'" using ok[OF b(1)] a(2) l'(1) by (auto simp: barrier_ok_def floor_ok_def set_leader_def)
  qed
  moreover have "released w s' r" if "ReadBarrierReady (w_barrier w) r \<in> set effects" "cr_current_term s' = w_term w" for r
    using parts(2)[OF that(1)] ok that(2) l'(1) by (auto simp: released_def barrier_ok_def floor_ok_def set_leader_def)
  ultimately show ?thesis by (simp add: safe_def)
qed

text \<open>Results without a release.\<close>

fun no_ready :: "core_effect \<Rightarrow> bool" where
  "no_ready (ReadBarrierReady _ _) = False"
| "no_ready _ = True"

fun no_answer :: "core_effect \<Rightarrow> bool" where
  "no_answer (Send _ (AppendResponse _)) = False"
| "no_answer _ = True"

fun no_persist :: "core_effect \<Rightarrow> bool" where
  "no_persist (Persist _ _) = False"
| "no_persist _ = True"

definition plain :: "core_effect \<Rightarrow> bool" where
  "plain e \<longleftrightarrow> no_ready e \<and> no_answer e \<and> no_persist e"

lemma plain_simps [simp]:
  "\<not> plain (ReadBarrierReady b n)" "\<not> plain (Persist k m)" "plain (RoleChanged r t)" "plain (ProposalAppended p pos)" "plain (CommitReady es)" "plain (Rejected err)"
  "plain (Send to (VoteRequest vq))" "plain (Send to (VoteResponse vr))" "plain (Send to (AppendRequest aq))" "plain (Send to (CommittedPrefix cp))"
  by (simp_all add: plain_def)

lemma plainD [simp]: "plain e \<Longrightarrow> no_ready e" "plain e \<Longrightarrow> no_answer e" "plain e \<Longrightarrow> no_persist e"
  "list_all plain xs \<Longrightarrow> list_all no_ready xs" "list_all plain xs \<Longrightarrow> list_all no_answer xs" "list_all plain xs \<Longrightarrow> list_all no_persist xs"
  by (auto simp: list_all_iff plain_def)

definition yields :: "('a \<Rightarrow> bool) \<Rightarrow> 'a core_op \<Rightarrow> bool" where
  "yields P m \<longleftrightarrow> (\<forall>s x. fst (m s) = Inr x \<longrightarrow> P x)"

named_theorems yields_ops

lemma yields_bind:
  assumes "yields P m" "\<And>x. P x \<Longrightarrow> yields Q (k x)"
  shows "yields Q (cbind m k)"
  unfolding yields_def
proof (intro allI impI)
  fix s x assume a: "fst (cbind m k s) = Inr x"
  show "Q x"
  proof (cases "m s")
    case (Pair r s')
    then obtain y where y: "r = Inr y" "fst (k y s') = Inr x" using a by (cases r) (auto simp: cbind_def)
    then show ?thesis using assms Pair unfolding yields_def by (metis fst_conv)
  qed
qed

lemma yields_ret: "P x \<Longrightarrow> yields P (ret x)"
  by (simp add: yields_def ret_def)

lemma yields_probe_effect: "yields plain (probe_effect H peer kind rb)"
  by (auto simp: yields_def probe_effect_def probe_emit_def split: role_state.splits sum.splits option.splits)

lemma yields_for_each: "(\<And>x. yields P (f x)) \<Longrightarrow> yields (list_all P) (for_each f xs)"
proof (induction xs)
  case (Cons x xs)
  then show ?case by (auto intro!: yields_bind[where P = P] yields_bind[where P = "list_all P"] yields_ret)
qed (simp add: yields_ret)

lemma yields_probes: "yields (list_all plain) (for_each (\<lambda>peer. probe_effect H peer kind rb) ps)"
  by (intro yields_for_each yields_probe_effect)

lemma yields_commit_effects: "commit_effects s c = Inr x \<Longrightarrow> list_all plain x"
  by (auto simp: commit_effects_def result_simps split: if_splits)

lemma yields_advance: "yields (list_all plain) advance_leader_commit" "yields (list_all plain) (advance_follower_commit k)"
  by (auto simp: yields_def advance_leader_commit_def advance_follower_commit_def Let_def dest: yields_commit_effects
      split: role_state.splits sum.splits option.splits)

lemma yields_become_leader: "yields (list_all plain) (become_leader H)"
proof -
  have "yields (list_all plain) (cbind (for_each (\<lambda>peer. probe_effect H peer Replication None) ps) (\<lambda>sends. ret (RoleChanged Leader t # sends)))" for ps t
    by (rule yields_bind[OF yields_probes]) (auto intro: yields_ret)
  then show ?thesis by (auto simp: yields_def become_leader_def Let_def split: option.splits)
qed

lemma yields_finish_campaign: "yields (list_all plain) (finish_campaign H)"
proof -
  have "yields (list_all plain) (cbind (become_leader H) (\<lambda>effects. ret (RoleChanged Candidate t # effects)))" for t
    by (rule yields_bind[OF yields_become_leader]) (auto intro: yields_ret)
  then show ?thesis by (auto simp: yields_def finish_campaign_def Let_def list_all_iff split: if_splits)
qed

lemma yields_heartbeat: "yields (list_all plain) (heartbeat H)"
proof -
  have p: "yields (list_all plain) (heartbeat_peer H k peer)" for k peer
  proof -
    have "yields (list_all plain) (cbind (if b then cbind (probe_effect H peer Replication None) (\<lambda>probe. ret [probe]) else ret [])
      (\<lambda>replication. cbind (probe_effect H peer Contact None) (\<lambda>contact. ret (replication @ [contact]))))" for b
      by (rule yields_bind[where P = "list_all plain"])
        (auto intro!: yields_bind[OF yields_probe_effect] yields_ret)
    then show ?thesis by (simp add: yields_def heartbeat_peer_def)
  qed
  have "yields (list_all plain) (cbind (for_each (heartbeat_peer H k) ps) (\<lambda>effects. ret (concat effects)))" for k ps
    by (rule yields_bind[OF yields_for_each[OF p]]) (auto intro!: yields_ret simp: list_all_iff)
  then show ?thesis by (auto simp: yields_def heartbeat_def)
qed

lemma reply_no_ready [simp]: "no_ready (append_reply_effect s to reply)" "no_ready (membership_notice_effect s to)" "no_ready (vote_effect s to g)"
  by (simp_all add: append_reply_effect_def membership_notice_effect_def vote_effect_def)

lemma yields_finish_committed_prefix: "yields (list_all no_ready) (finish_committed_prefix src k)"
proof -
  have "yields (list_all no_ready) (cbind (advance_follower_commit j) (\<lambda>effects s'. (Inr (effects @ [membership_notice_effect s' src]), s')))" for j
    by (rule yields_bind[OF yields_advance(2)]) (auto simp: yields_def)
  then show ?thesis by (simp add: yields_def finish_committed_prefix_def)
qed

lemma yields_finish_proposal: "yields (list_all plain) (finish_proposal H proposal position)"
proof -
  have "yields (list_all plain) (cbind (for_each (\<lambda>peer. probe_effect H peer Replication None) ps)
      (\<lambda>sends. cbind advance_leader_commit (\<lambda>committed. ret (ProposalAppended proposal position # sends @ committed))))" for ps
    by (rule yields_bind[OF yields_probes], rule yields_bind[OF yields_advance(1)]) (auto intro!: yields_ret)
  then show ?thesis by (auto simp: yields_def finish_proposal_def Let_def split: role_state.splits option.splits)
qed

section \<open>Handlers\<close>

lemma safe_keeps: "keeps m \<Longrightarrow> yields (list_all no_ready) m \<Longrightarrow> watched w s \<Longrightarrow> safe w (m s)"
  using keeps_watched by (fastforce simp: safe_def yields_def list_all_iff)

lemma yields_weaken: "yields (list_all plain) m \<Longrightarrow> yields (list_all no_ready) m" "yields (list_all plain) m \<Longrightarrow> yields (list_all no_answer) m"
  "yields (list_all plain) m \<Longrightarrow> yields (list_all no_persist) m"
  by (auto simp: yields_def)

lemma safe_plain: "watched w s' \<Longrightarrow> (\<And>x. r = Inr x \<Longrightarrow> list_all no_ready x) \<Longrightarrow> safe w (r, s')"
  by (fastforce simp: safe_def list_all_iff)

lemma watched_alike:
  "watched w s \<Longrightarrow> cr_role s' = cr_role s \<Longrightarrow> cr_current_term s' = cr_current_term s \<Longrightarrow> cr_active_plan s' = cr_active_plan s \<Longrightarrow>
   cr_commit_index s' = cr_commit_index s \<Longrightarrow> cr_log s' = cr_log s \<Longrightarrow> watched w s'"
  by (auto simp: watched_def barrier_ok_def floor_ok_def)

lemma safe_begin_persistence: "watched w s \<Longrightarrow> safe w (begin_persistence m a s)"
  by (auto simp: begin_persistence_def intro!: safe_plain intro: watched_alike split: option.split)

lemma watched_follow [simp]: "watched w (follow_leader ld s)"
  by (simp add: watched_def follow_leader_def)

text \<open>A confirmation from a node that may confirm.\<close>

lemma acknowledge_safe:
  assumes w: "watched w s" "in_office w s" and log: "log_ok H (cr_log s)"
    and src: "rb = Some (w_barrier w) \<Longrightarrow> cr_current_term s = w_term w \<Longrightarrow> src \<in> w_nodes w"
  shows "safe w (acknowledge_read_barrier src rb s)"
proof (cases "\<exists>i l b. rb = Some i \<and> barrier_number i \<noteq> 0 \<and> cr_role s = LeaderState l \<and> fmlookup (ls_read_barriers l) i = Some b")
  case False
  then have "snd (acknowledge_read_barrier src rb s) = s" "\<And>x. fst (acknowledge_read_barrier src rb s) = Inr x \<Longrightarrow> x = []"
    by (auto simp: acknowledge_read_barrier_def Let_def split: option.splits role_state.splits if_splits)
  then show ?thesis using w(1) by (fastforce simp: safe_def)
next
  case True
  then obtain i l b where i: "rb = Some i" "barrier_number i \<noteq> 0" "cr_role s = LeaderState l" "fmlookup (ls_read_barriers l) i = Some b" by blast
  let ?acks = "finsert src (rb_acknowledgements b)"
  let ?b = "b\<lparr>rb_acknowledgements := ?acks, rb_quorum_confirmed := active_satisfies (cr_active_plan s) Read ?acks\<rparr>"
  let ?s = "set_leader (l\<lparr>ls_read_barriers := fmupd i ?b (ls_read_barriers l)\<rparr>) s"
  have "watched w ?s"
    unfolding watched_def
  proof (intro allI impI)
    fix k b' assume a: "cr_role ?s = LeaderState k" "cr_current_term ?s = w_term w" "fmlookup (ls_read_barriers k) (w_barrier w) = Some b'"
    show "barrier_ok w ?s b'"
    proof (cases "i = w_barrier w")
      case True
      then have "barrier_ok w s b" "src \<in> w_nodes w" "b' = ?b"
        using w(1) a i src by (auto simp: watched_def set_leader_def)
      then show ?thesis by (auto simp: barrier_ok_def floor_ok_def set_leader_def)
    next
      case False
      then have "barrier_ok w s b'" using w(1) a i by (auto simp: watched_def set_leader_def)
      then show ?thesis by (auto simp: barrier_ok_def floor_ok_def set_leader_def)
    qed
  qed
  moreover have "in_office w ?s" using w(2) i(3) by (auto simp: in_office_def set_leader_def)
  ultimately have "safe w (Inr effects, s')" if "complete_read_barriers ?s = (effects, s')" for effects s'
    using complete_read_barriers_safe[of w ?s H] log that by (simp add: set_leader_def)
  then show ?thesis using i by (simp add: acknowledge_read_barrier_def Let_def split: prod.split)
qed

lemma safe_bind:
  assumes m: "safe w (m s)" and k: "\<And>x. keeps (k x)"
    and y: "\<And>x. yields (\<lambda>y. \<forall>i r. ReadBarrierReady i r \<in> set y \<longrightarrow> ReadBarrierReady i r \<in> set x) (k x)"
  shows "safe w (cbind m k s)"
proof (cases "m s")
  case (Pair r s')
  show ?thesis
  proof (cases r)
    case (Inl e)
    then show ?thesis using m Pair by (simp add: safe_def cbind_def)
  next
    case (Inr x)
    have c: "calm s' (snd (k x s'))" using keepsD(1)[OF k] .
    have "watched w (snd (k x s'))" using m Pair keeps_watched[OF k] by (simp add: safe_def)
    moreover have "released w (snd (k x s')) r'"
      if "fst (k x s') = Inr z" "ReadBarrierReady (w_barrier w) r' \<in> set z" "cr_current_term (snd (k x s')) = w_term w" for z r'
    proof -
      have "ReadBarrierReady (w_barrier w) r' \<in> set x" using y that unfolding yields_def by blast
      moreover have "cr_current_term s' = w_term w" using c that(3) by (simp add: calm_def)
      ultimately have "released w s' r'" using m Pair Inr by (simp add: safe_def)
      then show ?thesis by (rule released_calm[OF _ c])
    qed
    ultimately show ?thesis using Pair Inr by (simp add: safe_def cbind_def)
  qed
qed

lemma safe_after:
  assumes "keeps m" "watched w s" "\<And>x s'. m s = (Inr x, s') \<Longrightarrow> safe w (k x s')"
  shows "safe w (cbind m k s)"
proof (cases "m s")
  case (Pair r s')
  show ?thesis
  proof (cases r)
    case (Inl e)
    then show ?thesis using keeps_watched[OF assms(1,2)] Pair by (simp add: safe_def cbind_def)
  qed (use assms(3) Pair in \<open>simp add: cbind_def\<close>)
qed

lemma role_advance: "cr_role (snd (advance_leader_commit s)) = cr_role s"
  by (auto simp: advance_leader_commit_def Let_def split: role_state.split sum.split option.split)

lemma after_evidence_safe:
  assumes w: "watched w (set_leader l s)" "in_office w (set_leader l s)" and log: "log_ok H' (cr_log s)"
    and src: "ares_read_barrier_id response = Some (w_barrier w) \<Longrightarrow> cr_current_term s = w_term w \<Longrightarrow> src \<in> w_nodes w"
  shows "safe w (after_evidence H src response k l s)"
  unfolding after_evidence_def
proof (rule safe_after[OF keeps_advance(1) w(1)])
  fix committed s1 assume s1: "advance_leader_commit (set_leader l s) = (Inr committed, s1)"
  have c: "calm (set_leader l s) s1" "same_barriers (set_leader l s) s1" "cr_role s1 = LeaderState l"
    using keeps_advance(1) s1 role_advance[of "set_leader l s"] unfolding keeps_def by (auto simp: set_leader_def dest: spec[of _ "set_leader l s"])
  have "watched w s1" "in_office w s1"
    using watched_same[OF w(1) c(1,2)] in_office_calm[OF w(2) c(1)] c(3) by (auto simp: set_leader_def)
  moreover have "log_ok H' (cr_log s1)" "cr_current_term s1 = cr_current_term s" using c(1) log by (simp_all add: calm_def set_leader_def)
  ultimately have ack: "safe w (acknowledge_read_barrier src (ares_read_barrier_id response) s1)"
    using src by (intro acknowledge_safe) auto
  have cn: "ReadBarrierReady i r \<notin> set committed" for i r
  proof -
    have "list_all plain committed" using yields_advance(1) s1 unfolding yields_def by (metis fst_conv)
    then have "list_all no_ready committed" by simp
    then show ?thesis unfolding list_all_iff by (metis no_ready.simps(1))
  qed
  show "safe w (cbind (acknowledge_read_barrier src (ares_read_barrier_id response)) (\<lambda>reads.
      if lookup_or 1 src (ls_next l) \<le> k
      then cbind (probe_effect H src Replication None) (\<lambda>probe. ret (committed @ reads @ [probe]))
      else ret (committed @ reads)) s1)"
  proof (rule safe_bind[where m = "acknowledge_read_barrier src (ares_read_barrier_id response)", OF ack])
    fix reads
    show "keeps (if lookup_or 1 src (ls_next l) \<le> k
      then cbind (probe_effect H src Replication None) (\<lambda>probe. ret (committed @ reads @ [probe])) else ret (committed @ reads))"
      by (intro keeps_ops)
    show "yields (\<lambda>y. \<forall>i r. ReadBarrierReady i r \<in> set y \<longrightarrow> ReadBarrierReady i r \<in> set reads) (if lookup_or 1 src (ls_next l) \<le> k
      then cbind (probe_effect H src Replication None) (\<lambda>probe. ret (committed @ reads @ [probe])) else ret (committed @ reads))"
      using cn by (auto intro!: yields_bind[OF yields_probe_effect] yields_ret)
  qed
qed

lemma watched_set_leader:
  "watched w s \<Longrightarrow> cr_role s = LeaderState l \<Longrightarrow> ls_read_barriers l' = ls_read_barriers l \<Longrightarrow> watched w (set_leader l' s)"
  by (auto simp: watched_def set_leader_def barrier_ok_def floor_ok_def)

lemma office_set_leader: "in_office w s \<Longrightarrow> cr_role s = LeaderState l \<Longrightarrow> in_office w (set_leader l' s)"
  by (auto simp: in_office_def set_leader_def)

lemma replication_evidence_safe:
  assumes w: "watched w s" "in_office w s" and role: "cr_role s = LeaderState l0" and l: "ls_read_barriers l = ls_read_barriers l0"
    and log: "log_ok H' (cr_log s)"
    and src: "ares_read_barrier_id response = Some (w_barrier w) \<Longrightarrow> cr_current_term s = w_term w \<Longrightarrow> src \<in> w_nodes w"
  shows "safe w (replication_evidence H src response k l evidence s)"
proof -
  have m: "watched w (set_leader l' s)" "in_office w (set_leader l' s)" if "ls_read_barriers l' = ls_read_barriers l" for l'
    using watched_set_leader[OF w(1) role] office_set_leader[OF w(2) role] that l by auto
  have "safe w (acknowledge_read_barrier src (ares_read_barrier_id response) (set_leader l s))"
    using m[of l] src log by (intro acknowledge_safe[of _ _ H']) (auto simp: set_leader_def)
  then show ?thesis
    unfolding replication_evidence_def Let_def
    by (auto intro!: safe_plain m after_evidence_safe[OF _ _ log src] split: probe_result.split option.split)
qed

lemma safe_split:
  "(b \<Longrightarrow> safe w x) \<Longrightarrow> (\<not> b \<Longrightarrow> safe w y) \<Longrightarrow> safe w (if b then x else y)"
  "(\<And>e. m = Inl e \<Longrightarrow> safe w (f e)) \<Longrightarrow> (\<And>v. m = Inr v \<Longrightarrow> safe w (g v)) \<Longrightarrow> safe w (case m of Inl e \<Rightarrow> f e | Inr v \<Rightarrow> g v)"
  "(\<And>c d. p = (c, d) \<Longrightarrow> safe w (k c d)) \<Longrightarrow> safe w (case p of (c, d) \<Rightarrow> k c d)"
  "(o' = None \<Longrightarrow> safe w x) \<Longrightarrow> (\<And>z. o' = Some z \<Longrightarrow> safe w (h z)) \<Longrightarrow> safe w (case o' of None \<Rightarrow> x | Some z \<Rightarrow> h z)"
  "(r = FollowerState \<Longrightarrow> safe w x) \<Longrightarrow> (\<And>V. r = CandidateState V \<Longrightarrow> safe w (cv V)) \<Longrightarrow> (\<And>l. r = LeaderState l \<Longrightarrow> safe w (lv l)) \<Longrightarrow>
     safe w (case r of FollowerState \<Rightarrow> x | CandidateState V \<Rightarrow> cv V | LeaderState l \<Rightarrow> lv l)"
  by (simp_all split: sum.split prod.split option.split role_state.split)

lemma replay_no_ready: "replay_membership_prefix H s peer response = Inr x \<Longrightarrow> list_all no_ready x"
  by (auto simp: replay_membership_prefix_def Let_def result_simps split: if_splits)

lemma append_response_safe:
  assumes w: "watched w s" "in_office w s" and log: "log_ok H' (cr_log s)"
    and src: "ares_read_barrier_id response = Some (w_barrier w) \<Longrightarrow> ares_term response = w_term w \<Longrightarrow> src \<in> w_nodes w"
  shows "safe w (append_response_received H src response s)"
proof -
  have p: "safe w (cbind (probe_effect H src Replication None) (\<lambda>probe. ret [probe]) s')" if "watched w s'" for s'
    using that by (intro safe_keeps keeps_ops) (auto intro!: yields_bind[OF yields_probe_effect] yields_ret)
  show ?thesis
    unfolding append_response_received_def Let_def persist_step_down_def
    by (intro safe_split)
      (auto intro!: safe_plain w safe_begin_persistence p watched_set_leader[OF w(1)] replication_evidence_safe[OF w _ _ log]
        dest: replay_no_ready src)
qed

lemma append_request_safe:
  assumes "watched w s"
  shows "safe w (append_request_received H src request s)"
proof -
  have k: "keeps (\<lambda>s. cbind (advance_follower_commit j) (\<lambda>effects s''. (Inr (effects @ [append_reply_effect s'' to reply]), s'')) (follow_leader ld s))"
    for j to reply ld by (rule keeps_follow) (intro keeps_ops)
  have y: "yields (list_all no_ready) (cbind (advance_follower_commit j) (\<lambda>effects s''. (Inr (effects @ [append_reply_effect s'' to reply]), s'')))"
    for j to reply by (rule yields_bind[OF yields_advance(2)]) (auto simp: yields_def)
  have "safe w (cbind (advance_follower_commit j) (\<lambda>effects s''. (Inr (effects @ [append_reply_effect s'' to reply]), s'')) (follow_leader ld s))"
    for j to reply ld
    by (rule safe_keeps[OF k _ assms]) (use y in \<open>simp add: yields_def\<close>)
  then show ?thesis
    unfolding append_request_received_def Let_def
    by (intro safe_split) (auto intro!: safe_plain assms safe_begin_persistence)
qed

lemma receive_prefix_safe:
  assumes "watched w s"
  shows "safe w (receive_committed_prefix H src prefix s)"
  unfolding receive_committed_prefix_def Let_def
  by (intro safe_split)
    (auto intro!: safe_plain assms safe_begin_persistence safe_keeps[OF keeps_finish_committed_prefix yields_finish_committed_prefix])

lemma vote_request_safe:
  assumes "watched w s"
  shows "safe w (vote_request_received H src request s)"
proof -
  have "vote_request_stale H s src request = Inr x \<Longrightarrow> list_all no_ready x" for x
    by (auto simp: vote_request_stale_def result_simps dest: replay_no_ready split: if_splits)
  then show ?thesis
    unfolding vote_request_received_def Let_def
    by (intro safe_split) (auto intro!: safe_plain assms safe_begin_persistence)
qed

lemma vote_response_safe:
  assumes "watched w s"
  shows "safe w (vote_response_received H src response s)"
proof -
  have "watched w (s\<lparr>cr_role := CandidateState V\<rparr>)" for V by (simp add: watched_def)
  then show ?thesis
    unfolding vote_response_received_def Let_def persist_step_down_def
    by (intro safe_split) (auto intro!: safe_plain assms safe_begin_persistence safe_keeps[OF keeps_become_leader yields_weaken(1)[OF yields_become_leader]])
qed

lemma receive_safe:
  assumes w: "watched w s" "in_office w s" and log: "log_ok H' (cr_log s)"
    and src: "\<And>response. m = AppendResponse response \<Longrightarrow> ares_read_barrier_id response = Some (w_barrier w) \<Longrightarrow>
      ares_term response = w_term w \<Longrightarrow> src \<in> w_nodes w"
  shows "safe w (receive H src inc m s)"
  unfolding receive_def
  using vote_request_safe[OF w(1)] vote_response_safe[OF w(1)] append_request_safe[OF w(1)] receive_prefix_safe[OF w(1)]
    append_response_safe[OF w log] src
  by (auto intro!: safe_plain w split: sum.split core_message.split)

lemma begin_read_barrier_safe:
  assumes w: "watched w s" "in_office w s" and log: "log_ok H' (cr_log s)"
    and local: "i = w_barrier w \<Longrightarrow> cr_current_term s = w_term w \<Longrightarrow> cr_local s \<in> w_nodes w"
  shows "safe w (begin_read_barrier H i s)"
proof (cases "\<exists>l. cr_role s = LeaderState l \<and> i |\<notin>| fmdom (ls_read_barriers l)")
  case False
  then show ?thesis using w(1) by (auto simp: begin_read_barrier_def Let_def intro!: safe_plain split: role_state.split)
next
  case True
  then obtain l where l: "cr_role s = LeaderState l" "i |\<notin>| fmdom (ls_read_barriers l)" by blast
  let ?req = "case entry s (cr_commit_index s) of None \<Rightarrow> None | Some e \<Rightarrow> if entry_term e = cr_current_term s then Some (entry_index e) else None"
  let ?conf = "active_satisfies (cr_active_plan s) Read {|cr_local s|}"
  let ?b = "\<lparr>rb_acknowledgements = {|cr_local s|}, rb_required_applied_index = ?req, rb_quorum_confirmed = ?conf\<rparr>"
  let ?s = "set_leader (l\<lparr>ls_read_barriers := fmupd i ?b (ls_read_barriers l)\<rparr>) s"
  have req: "floor_ok w s r" if "?req = Some r" "cr_current_term s = w_term w" for r
    using that w(2) l(1) log entry_eq[OF log] unfolding log_ok_def
    by (auto simp: in_office_def floor_ok_def split: if_splits)
  have ws: "watched w ?s"
    unfolding watched_def
  proof (intro allI impI)
    fix k b' assume a: "cr_role ?s = LeaderState k" "cr_current_term ?s = w_term w" "fmlookup (ls_read_barriers k) (w_barrier w) = Some b'"
    show "barrier_ok w ?s b'"
    proof (cases "i = w_barrier w")
      case True
      then have "b' = ?b" "cr_local s \<in> w_nodes w" "cr_current_term s = w_term w" using a local by (auto simp: set_leader_def)
      then show ?thesis using req by (auto simp: barrier_ok_def floor_ok_def set_leader_def)
    next
      case False
      then have "barrier_ok w s b'" using w(1) a l by (auto simp: watched_def set_leader_def)
      then show ?thesis by (auto simp: barrier_ok_def floor_ok_def set_leader_def)
    qed
  qed
  have "safe w (Inr effects, s')" if "complete_read_barriers ?s = (effects, s')" for effects s'
    using complete_read_barriers_safe[OF ws office_set_leader[OF w(2) l(1)] _ that, of H'] log by (simp add: set_leader_def)
  moreover have "safe w (for_each (\<lambda>peer. probe_effect H peer Contact (Some i)) ps ?s)" for ps
    using ws by (intro safe_keeps keeps_ops yields_weaken(1)[OF yields_probes])
  ultimately show ?thesis
    using l w(1) by (auto simp: begin_read_barrier_def Let_def intro!: safe_plain split: prod.split)
qed

lemma cancel_read_barrier_safe:
  assumes "watched w s"
  shows "safe w (cancel_read_barrier i s)"
proof -
  have "watched w (set_leader (l\<lparr>ls_read_barriers := fmdrop i (ls_read_barriers l)\<rparr>) s)" if "cr_role s = LeaderState l" for l
    using assms that by (auto simp: watched_def set_leader_def barrier_ok_def floor_ok_def split: if_splits)
  then show ?thesis
    using assms by (auto simp: cancel_read_barrier_def intro!: safe_plain split: role_state.split)
qed

lemma applied_through_safe:
  assumes w: "watched w s" "in_office w s" and log: "log_ok H (cr_log s)"
  shows "safe w (applied_through k s)"
proof -
  let ?s = "s\<lparr>cr_applied_index := k\<rparr>"
  have "watched w ?s" "in_office w ?s" using w by (auto simp: watched_def in_office_def barrier_ok_def floor_ok_def)
  then have "safe w (Inr effects, s')" if "complete_read_barriers ?s = (effects, s')" for effects s'
    using complete_read_barriers_safe[OF _ _ _ that, of w H] log by simp
  then show ?thesis using w(1) by (auto simp: applied_through_def intro!: safe_plain split: prod.split)
qed

lemma after_persistence_keeps:
  assumes "\<not> activates (pend_action q)"
  shows "keeps (after_persistence_action H q)" "yields (list_all no_ready) (after_persistence_action H q)"
proof -
  have k: "keeps (\<lambda>s. cbind (if b then advance_follower_commit j else ret []) (\<lambda>effects s''. (Inr (effects @ [append_reply_effect s'' to reply]), s'')) (follow_leader ld s))"
    for b j to reply ld by (rule keeps_follow) (intro keeps_ops)
  have y: "yields (list_all no_ready) (cbind (if b then advance_follower_commit j else ret []) (\<lambda>effects s''. (Inr (effects @ [append_reply_effect s'' to reply]), s'')))"
    for b j to reply by (rule yields_bind[where P = "list_all no_ready"]) (use yields_advance(2) in \<open>auto simp: yields_def ret_def\<close>)
  have "keeps (after_persistence_action H q) \<and> yields (list_all no_ready) (after_persistence_action H q)"
  proof (cases "pend_action q")
    case Campaign
    then show ?thesis using keeps_finish_campaign[of H] yields_finish_campaign[of H] by (simp add: after_persistence_action_def keeps_def yields_def)
  next
    case (Proposal proposal position)
    then show ?thesis
      using keeps_finish_proposal[of H] yields_finish_proposal[of H] by (simp add: after_persistence_action_def keeps_def yields_def)
  next
    case (AfterCommittedPrefix src k)
    then show ?thesis
      using keeps_finish_committed_prefix yields_finish_committed_prefix by (simp add: after_persistence_action_def keeps_def yields_def)
  next
    case (AppendReply to leader ci reply)
    then show ?thesis using k y by (simp add: after_persistence_action_def keeps_def yields_def)
  qed (use assms in \<open>auto simp: after_persistence_action_def activates_def keeps_def yields_def Let_def split: option.splits\<close>)
  then show "keeps (after_persistence_action H q)" "yields (list_all no_ready) (after_persistence_action H q)" by simp_all
qed

lemma mutated_watched:
  assumes ok: "node_ok H phased N s" and m: "mutation_ok H s m" and w: "watched w s"
  shows "watched w (mutated (s\<lparr>cr_pending := None\<rparr>) m)"
proof -
  let ?s = "mutated (s\<lparr>cr_pending := None\<rparr>) m"
  have adv: "take (cr_commit_index s) (cr_log ?s) = take (cr_commit_index s) (cr_log s)"
    using mutated_advances[OF ok m] by (simp add: advances_def)
  have "floor_ok w ?s r" if "floor_ok w s r" for r
  proof -
    have "r - 1 < cr_commit_index s" using that by (auto simp: floor_ok_def)
    then have "cr_log ?s ! (r - 1) = cr_log s ! (r - 1)" using adv by (metis nth_take)
    then show ?thesis using that by (simp add: floor_ok_def mutated_def)
  qed
  moreover have "cr_role ?s = cr_role s \<and> cr_current_term ?s = cr_current_term s \<or> cr_role ?s = FollowerState"
    using m by (auto simp: mutated_def mutation_ok_def new_term_def split: option.splits)
  ultimately show ?thesis using w by (auto simp: watched_def barrier_ok_def mutated_def)
qed

lemma finish_persistence_safe:
  assumes ok: "node_ok H phased N s" and q: "\<And>q. cr_pending s = Some q \<Longrightarrow> \<not> activates (pend_action q)" and w: "watched w s"
  shows "safe w (finish_persistence H i s)"
proof (cases "\<exists>q. cr_pending s = Some q \<and> pend_id q = i")
  case False
  then show ?thesis using w by (auto simp: finish_persistence_def intro!: safe_plain split: option.split)
next
  case True
  then obtain q where q: "cr_pending s = Some q" "pend_id q = i" "\<not> activates (pend_action q)" using q by blast
  let ?s = "s\<lparr>cr_pending := None\<rparr>"
  have al: "alike s ?s" by (simp add: alike_def)
  have m: "mutation_ok H s (pend_mutation q)" using node_okD(7)[OF ok] q by (simp add: pending_ok_def)
  then have m': "mutation_ok H ?s (pend_mutation q)" using alike_new(4)[OF al] by simp
  have "finish_persistence H i s = after_persistence_action H q (mutated ?s (pend_mutation q))"
    using q apply_mutation_ok[OF node_okD(1)[OF completed_node_ok[OF ok]] m'] by (simp add: finish_persistence_def cbind_def)
  then show ?thesis using safe_keeps[OF after_persistence_keeps[OF q(3)] mutated_watched[OF ok m w]] by simp
qed

text \<open>
  One input keeps the watch, provided its confirmations come from watched nodes, and releases the watched
  barrier only as promised.
\<close>

lemma step_safe:
  assumes ok: "node_ok H False N s" and w: "watched w s" "in_office w s"
    and src: "\<And>src inc response. input = Message src inc (AppendResponse response) \<Longrightarrow>
      ares_read_barrier_id response = Some (w_barrier w) \<Longrightarrow> ares_term response = w_term w \<Longrightarrow> src \<in> w_nodes w"
    and local: "input = BeginReadBarrier (w_barrier w) \<Longrightarrow> cr_current_term s = w_term w \<Longrightarrow> cr_local s \<in> w_nodes w"
  shows "safe w (step H input s)"
proof -
  have log: "log_ok H (cr_log s)" by (rule node_okD(1)[OF ok])
  have q: "\<not> activates (pend_action q)" if "cr_pending s = Some q" for q
    using node_okD(7)[OF ok] that by (auto simp: pending_ok_def action_ok_for_def activates_def split: after_persistence.splits)
  have "safe w (start_election s)"
    unfolding start_election_def using w(1) by (auto intro!: safe_plain safe_begin_persistence split: option.split)
  moreover have "safe w (propose H proposal operation version command s)" for proposal operation version command
    unfolding propose_def Let_def using w(1) by (intro safe_split) (auto intro!: safe_plain safe_begin_persistence split: option.split sum.split)
  moreover have "safe w (activate_joint_plan joint incs position s)" "safe w (activate_stable_plan plan incs position s)"
    for joint incs position plan
    unfolding activate_joint_plan_def activate_stable_plan_def Let_def
    using w(1) by (auto intro!: safe_plain safe_begin_persistence split: active_quorum_plan.split sum.split)
  ultimately have "safe w (dispatch H input s)"
    using receive_safe[OF w log] finish_persistence_safe[OF ok q w(1)] safe_keeps[OF keeps_heartbeat yields_weaken(1)[OF yields_heartbeat] w(1), of H]
      begin_read_barrier_safe[OF w log] cancel_read_barrier_safe[OF w(1)] applied_through_safe[OF w log] src local
    by (cases input) (auto simp only: dispatch_def core_input.case)
  then show ?thesis unfolding step_def using w(1) by (auto intro!: safe_plain)
qed

end
