(* ===== verification/Core_Answers.thy ===== *)
theory Core_Answers
  imports Core_Reads
begin

text \<open>
  Answers to a leader. Whatever a core sends as the response to an append request carries the term the core is
  in when the response leaves: a node that answers in a term has not passed it.
\<close>

definition current :: "(core_error + core_effect list) \<times> core \<Rightarrow> bool" where
  "current rs \<longleftrightarrow> (\<forall>x to q. fst rs = Inr x \<longrightarrow> Send to (AppendResponse q) \<in> set x \<longrightarrow> ares_term q = cr_current_term (snd rs))"

lemma no_answerD: "list_all no_answer x \<Longrightarrow> Send to (AppendResponse q) \<notin> set x"
  by (auto simp: list_all_iff)

lemma current_silent: "(\<And>x. r = Inr x \<Longrightarrow> list_all no_answer x) \<Longrightarrow> current (r, s)"
  using no_answerD by (auto simp: current_def)

lemma current_yields: "yields (list_all no_answer) m \<Longrightarrow> current (m s)"
  using no_answerD by (auto simp: current_def yields_def)

lemma current_answers [intro!]:
  "current (Inr [append_reply_effect s to reply], s)" "current (Inr [membership_notice_effect s to], s)"
  "current (Inr [Send to (AppendResponse ((membership_notice s)\<lparr>ares_next_index_hint := k\<rparr>))], s)"
  by (simp_all add: current_def append_reply_effect_def membership_notice_effect_def membership_notice_def)

lemma current_split:
  "(b \<Longrightarrow> current x) \<Longrightarrow> (\<not> b \<Longrightarrow> current y) \<Longrightarrow> current (if b then x else y)"
  "(\<And>e. m = Inl e \<Longrightarrow> current (f e)) \<Longrightarrow> (\<And>v. m = Inr v \<Longrightarrow> current (g v)) \<Longrightarrow> current (case m of Inl e \<Rightarrow> f e | Inr v \<Rightarrow> g v)"
  "(\<And>c d. p = (c, d) \<Longrightarrow> current (k c d)) \<Longrightarrow> current (case p of (c, d) \<Rightarrow> k c d)"
  "(o' = None \<Longrightarrow> current x) \<Longrightarrow> (\<And>z. o' = Some z \<Longrightarrow> current (h z)) \<Longrightarrow> current (case o' of None \<Rightarrow> x | Some z \<Rightarrow> h z)"
  "(r = FollowerState \<Longrightarrow> current x) \<Longrightarrow> (\<And>V. r = CandidateState V \<Longrightarrow> current (cv V)) \<Longrightarrow> (\<And>l. r = LeaderState l \<Longrightarrow> current (lv l)) \<Longrightarrow>
     current (case r of FollowerState \<Rightarrow> x | CandidateState V \<Rightarrow> cv V | LeaderState l \<Rightarrow> lv l)"
  by (simp_all split: sum.split prod.split option.split role_state.split)

lemma current_persistence: "current (begin_persistence m a s)"
  by (auto simp: begin_persistence_def current_def split: option.splits)

text \<open>A reply after the effects of an operation that itself sends none.\<close>

lemma current_reply:
  assumes "yields (list_all no_answer) m"
  shows "current (cbind m (\<lambda>effects s'. (Inr (effects @ [append_reply_effect s' to reply]), s')) s)"
    "current (cbind m (\<lambda>effects s'. (Inr (effects @ [membership_notice_effect s' to]), s')) s)"
proof -
  have "list_all no_answer x" if "m s = (Inr x, s')" for x s'
    using assms that unfolding yields_def by (metis fst_conv)
  then show "current (cbind m (\<lambda>effects s'. (Inr (effects @ [append_reply_effect s' to reply]), s')) s)"
    "current (cbind m (\<lambda>effects s'. (Inr (effects @ [membership_notice_effect s' to]), s')) s)"
    by (auto simp: cbind_def current_def append_reply_effect_def membership_notice_effect_def membership_notice_def
        dest!: no_answerD split: prod.split sum.split)
qed

lemmas silent_advance = yields_weaken(2)[OF yields_advance(1)] yields_weaken(2)[OF yields_advance(2)]

lemma silent_complete: "complete_read_barriers s = (x, s') \<Longrightarrow> list_all no_answer x"
  by (auto simp: complete_read_barriers_def Let_def list_all_iff split: role_state.splits if_splits)

lemma silent_acknowledge: "yields (list_all no_answer) (acknowledge_read_barrier peer i)"
  by (auto simp: yields_def acknowledge_read_barrier_def Let_def dest: silent_complete
      split: role_state.splits option.splits if_splits prod.splits)

lemma silent_probe: "yields no_answer (probe_effect H peer kind rb)"
  using yields_probe_effect[of H peer kind rb] by (auto simp: yields_def)

lemma silent_after_evidence: "yields (list_all no_answer) (after_evidence H src response k l)"
proof -
  have "yields (list_all no_answer) (cbind advance_leader_commit (\<lambda>committed.
     cbind (acknowledge_read_barrier src i) (\<lambda>reads.
       if b then cbind (probe_effect H src Replication None) (\<lambda>probe. ret (committed @ reads @ [probe]))
       else ret (committed @ reads))))" for i b
    by (rule yields_bind[OF silent_advance(1)], rule yields_bind[OF silent_acknowledge])
      (auto intro!: yields_bind[OF silent_probe] yields_ret)
  then show ?thesis by (simp add: yields_def after_evidence_def)
qed

lemma silent_replay: "replay_membership_prefix H s peer response = Inr x \<Longrightarrow> list_all no_answer x"
  by (auto simp: replay_membership_prefix_def Let_def result_simps split: if_splits)

lemma append_response_current: "current (append_response_received H src response s)"
proof -
  have p: "current (cbind (probe_effect H src Replication None) (\<lambda>probe. ret [probe]) s')" for s'
    by (rule current_yields) (auto intro!: yields_bind[OF silent_probe] yields_ret)
  have "current (replication_evidence H src response k l ev s)" for k l ev
    unfolding replication_evidence_def Let_def
    by (auto intro!: current_silent current_yields[OF silent_after_evidence] current_yields[OF silent_acknowledge]
        split: probe_result.split option.split)
  then show ?thesis
    unfolding append_response_received_def Let_def persist_step_down_def
    by (intro current_split) (auto intro!: current_silent current_persistence p dest: silent_replay)
qed

lemma append_request_current: "current (append_request_received H src request s)"
  unfolding append_request_received_def Let_def
  by (intro current_split) (auto intro!: current_silent current_persistence current_reply(1)[OF silent_advance(2)])

lemma receive_prefix_current: "current (receive_committed_prefix H src prefix s)"
  unfolding receive_committed_prefix_def Let_def finish_committed_prefix_def
  by (intro current_split) (auto intro!: current_silent current_persistence current_reply(2)[OF silent_advance(2)])

lemma vote_current: "current (vote_request_received H src request s)" "current (vote_response_received H src response s)"
proof -
  have "current (vote_request_stale H s src request, s)"
    by (cases "vote_request_stale H s src request")
      (auto simp: vote_request_stale_def vote_effect_def result_simps current_def membership_notice_effect_def membership_notice_def
        dest!: silent_replay no_answerD split: if_splits)
  then show "current (vote_request_received H src request s)"
    unfolding vote_request_received_def Let_def
    by (intro current_split) (auto simp: vote_effect_def intro!: current_silent[where r = "Inl e" for e] current_silent[where r = "Inr [Send t (VoteResponse v)]" for t v] current_persistence)
  show "current (vote_response_received H src response s)"
    unfolding vote_response_received_def Let_def persist_step_down_def
    by (intro current_split)
      (auto intro!: current_silent current_persistence current_yields[OF yields_weaken(2)[OF yields_become_leader]])
qed

lemma begin_read_barrier_current: "current (begin_read_barrier H i s)"
  unfolding begin_read_barrier_def Let_def
  by (intro current_split)
    (auto intro!: current_silent current_yields[OF yields_weaken(2)[OF yields_probes]] dest: silent_complete)

lemma after_persistence_current: "current (after_persistence_action H q s)"
proof -
  have "yields (list_all no_answer) (if b then advance_follower_commit j else ret [])" for b j
    using silent_advance(2) by (simp add: yields_ret)
  moreover have "current (finish_plan_activation H plan incs position s)" for plan incs position
    unfolding finish_plan_activation_def Let_def
    by (intro current_split) (auto intro!: current_silent current_yields[OF yields_weaken(2)[OF yields_probes]])
  ultimately show ?thesis
    unfolding after_persistence_action_def Let_def finish_committed_prefix_def
    by (auto simp: vote_effect_def intro!: current_silent current_reply silent_advance yields_ret
        current_yields[OF yields_weaken(2)[OF yields_finish_campaign]]
        current_yields[OF yields_weaken(2)[OF yields_finish_proposal]] split: after_persistence.split option.split)
qed

lemma step_current: "current (step H input s)"
proof -
  have "current (cbind (apply_durable_mutation H m) (\<lambda>_. after_persistence_action H q) s')" for m q s'
    using after_persistence_current by (auto simp: cbind_def intro!: current_silent split: prod.split sum.split)
  then have "current (finish_persistence H i s)" for i
    unfolding finish_persistence_def by (auto intro!: current_silent split: option.split)
  moreover have "current (start_election s)" "current (propose H proposal operation version command s)" "current (cancel_read_barrier b s)"
    "current (activate_joint_plan joint incs position s)" "current (activate_stable_plan plan incs position s)" "current (applied_through k s)"
    for proposal operation version command b joint plan incs position k
    unfolding start_election_def propose_def cancel_read_barrier_def activate_joint_plan_def activate_stable_plan_def applied_through_def Let_def
    by (auto intro!: current_silent current_persistence dest: silent_complete split: option.split sum.split role_state.split active_quorum_plan.split prod.split)
  moreover have "current (receive H src inc m s)" for src inc m
    unfolding receive_def
    by (auto intro!: current_silent append_response_current append_request_current receive_prefix_current vote_current
        split: sum.split core_message.split)
  ultimately show ?thesis
    unfolding step_def dispatch_def
    by (auto intro!: current_silent begin_read_barrier_current current_yields[OF yields_weaken(2)[OF yields_heartbeat]] split: core_input.split)
qed

end
