(* ===== verification/Cluster_Reads.thy ===== *)
theory Cluster_Reads
  imports Core_Answers Cluster_Scenario
begin

text \<open>
  Linearizable reads of a cluster under one plan. A read quorum that answers a leader after a barrier was begun
  shows that nobody had been elected in a later term when it was begun, so everything committed anywhere by
  then is below the index the barrier releases.
\<close>

section \<open>Read quorums of the protocol\<close>

text \<open>A replica that led in a term either has moved on or still commits at least what it had committed.\<close>

definition office :: "nat \<Rightarrow> nat \<Rightarrow> replica \<Rightarrow> bool" where
  "office t c r \<longleftrightarrow> t < rp_term r \<or> rp_term r = t \<and> (rp_role r = RFollower \<or> (\<exists>M. rp_role r = RLeader M \<and> c \<le> rp_commit r))"

lemma action_office:
  assumes "action elect commitq n N r r' sends"
  shows "rp_term r \<le> rp_term r'" "office t c r \<Longrightarrow> office t c r'"
  using assms by (cases; auto simp: office_def)+

lemma steps_office:
  assumes "(sys_step elect commitq)\<^sup>*\<^sup>* S S'"
  shows "rp_term (fst S n) \<le> rp_term (fst S' n)" "office t c (fst S n) \<Longrightarrow> office t c (fst S' n)"
proof -
  have "rp_term (fst S n) \<le> rp_term (fst S' n) \<and> (office t c (fst S n) \<longrightarrow> office t c (fst S' n))"
    using assms
  proof (induction rule: rtranclp_induct)
    case (step S' S'')
    from step.hyps(2) show ?case
    proof cases
      case (sys_stepI m N R r' sends)
      then show ?thesis using step.IH action_office[OF sys_stepI(3)] by (cases "m = n") auto
    qed
  qed simp
  then show "rp_term (fst S n) \<le> rp_term (fst S' n)" "office t c (fst S n) \<Longrightarrow> office t c (fst S' n)" by blast+
qed

context quorum_provider
begin

lemma read_bound:
  assumes p: "valid p" and ok: "system_ok (sat p Election) (sat p Commit) h S"
    and Q: "sat p Read Q" "\<And>m. m |\<in>| Q \<Longrightarrow> rp_term (fst S m) \<le> t"
    and L: "rp_role (fst S L) = RLeader M" "rp_term (fst S L) = t"
  shows "rp_commit (fst S n) \<le> rp_commit (fst S L) \<or>
    (\<exists>b < t. committed (sat p Commit) h b (take (rp_commit (fst S n)) (rp_log (fst S n))))"
proof -
  have r: "replica_ok (sat p Commit) h m (fst S m)" for m using ok by (simp add: system_ok_def)
  have o: "leaders_ok (sat p Election) h" using ok by (simp add: system_ok_def history_ok_def)
  let ?l = "take (rp_commit (fst S n)) (rp_log (fst S n))"
  have c: "committed (sat p Commit) h (rp_term (fst S n)) ?l" "length ?l = rp_commit (fst S n)"
    using r[of n] by (simp_all add: replica_ok_def log_held_def)
  show ?thesis
  proof (cases "?l = []")
    case True
    then have "rp_commit (fst S n) = 0" using c(2) by (metis list.size(3))
    then show ?thesis by simp
  next
    case False
    then obtain u k where u: "chosen (sat p Commit) h u k" "length ?l \<le> k" "?l = take (length ?l) (hg h u)"
      using c(1) by (auto simp: committed_def)
    have "hg h u \<noteq> []" using u(1) by (auto simp: chosen_def)
    then obtain ld where ld: "hl h u = Some ld" using leaders_log_empty[OF o] by (cases "hl h u") auto
    note q = leaderD[OF o ld]
    obtain m where m: "m |\<in>| hq h u" "m |\<in>| Q" using shared_elector[OF p q(1) Q(1)] by blast
    then obtain l where "hv h u m = Some (ld, l)" using q(2) by blast
    then have "u \<le> rp_term (fst S m)" using r[of m] vote_later[of h m "fst S m" u] by (simp add: replica_ok_def)
    then have ut: "u \<le> t" using Q(2)[OF m(2)] by simp
    show ?thesis
    proof (cases "u = t")
      case True
      then have "k \<le> rp_commit (fst S L)" using u(1) r[of L] L by (auto simp: replica_ok_def role_ok_def chosen_def)
      then show ?thesis using u(2) c(2) by simp
    next
      case False
      then have "u < t" using ut by simp
      moreover have "committed (sat p Commit) h u ?l" using u unfolding committed_def by blast
      ultimately show ?thesis by blast
    qed
  qed
qed

lemma read_covers:
  assumes p: "valid p" and ok: "history_ok (sat p Election) h" and c: "committed (sat p Commit) h b l" "b < t"
    and e: "traced h log" "0 < r" "r \<le> length log" "entry_term (log ! (r - 1)) = t"
  shows "length l < r"
proof (rule ccontr)
  assume r: "\<not> length l < r"
  have o: "leaders_ok (sat p Election) h" "ballots_ok h" using ok by (auto simp: history_ok_def)
  have w: "hl h t \<noteq> None" "r - 1 < length (hg h t)" "take (Suc (r - 1)) log = take (Suc (r - 1)) (hg h t)"
    using tracedD[OF e(1), of "r - 1"] e(2-4) by auto
  have "l \<noteq> []" using r e(2) by auto
  then obtain u k where u: "chosen (sat p Commit) h u k" "length l \<le> k" "l = take (length l) (hg h u)" "u \<le> b"
    using c(1) by (auto simp: committed_def)
  have "take (length l) (hg h t) = l" using committed_leader[OF p ok c(1) w(1)] c(2) by simp
  then have "hg h t ! (r - 1) = hg h u ! (r - 1)" using u(3) r e(2) by (metis diff_less less_le_trans less_one not_less nth_take)
  moreover have "log ! (r - 1) = hg h t ! (r - 1)" using w(3) by (rule nth_take_eq) simp
  moreover have "entry_term (hg h u ! (r - 1)) \<le> u"
    by (rule leader_terms[OF o]) (use u(1,2) r e(2) in \<open>auto simp: chosen_def\<close>)
  ultimately show False using e(4) u(4) c(2) by simp
qed

end

section \<open>Barriers of a cluster\<close>

definition guarded :: "watch \<Rightarrow> node_id \<Rightarrow> cluster \<Rightarrow> bool" where
  "guarded w L K \<longleftrightarrow>
     L \<in> w_nodes w \<and> office (w_term w) (w_floor w) (abs_nodes (fst K) L) \<and>
     (\<forall>s. fst K L = Some s \<longrightarrow> watched w s) \<and>
     (\<forall>n s. fst K n = Some s \<longrightarrow> cr_current_term s \<le> w_term w \<longrightarrow> n \<in> w_nodes w) \<and>
     (\<forall>src response. (src, L, AppendResponse response) \<in> snd K \<longrightarrow> ares_read_barrier_id response = Some (w_barrier w) \<longrightarrow>
        ares_term response = w_term w \<longrightarrow> src \<in> w_nodes w)"

lemma office_core: "office (w_term w) (w_floor w) (abs_core s) \<Longrightarrow> in_office w s"
  by (auto simp: office_def in_office_def abs_core_def)

lemma guarded_step:
  assumes sim: "simulated H plan config K M" and g: "guarded w L K" and s: "fst K L = Some s" and d: "deliverable (snd K) L input"
  shows "safe w (step H input s)"
proof (rule step_safe)
  show "node_ok H False M s" using sim s by (simp add: simulated_def)
  show "watched w s" "in_office w s" using g s office_core by (auto simp: guarded_def abs_nodes_def)
  show "cr_local s \<in> w_nodes w" using g sim s by (simp add: guarded_def simulated_def)
  fix src inc response
  assume "input = Message src inc (AppendResponse response)" "ares_read_barrier_id response = Some (w_barrier w)" "ares_term response = w_term w"
  then show "src \<in> w_nodes w" using d g by (auto simp: deliverable_def guarded_def)
qed

lemma cluster_step_guarded:
  assumes cfg: "configured H plan config" and sim: "simulated H plan config K M" and st: "cluster_step H config K K'" and g: "guarded w L K"
  shows "guarded w L K'"
proof -
  obtain M' where "plan_steps plan (abs_nodes (fst K), M) (abs_nodes (fst K'), M')"
    using cluster_step_simulated[OF cfg sim st] by blast
  note o = steps_office[OF this, unfolded fst_conv]
  have office: "office (w_term w) (w_floor w) (abs_nodes (fst K') L)" using g o(2) by (simp add: guarded_def)
  have dom: "fst K' n = Some s' \<Longrightarrow> \<exists>s. fst K n = Some s" for n s' using st by cases (auto split: if_splits)
  have terms: "n \<in> w_nodes w" if t: "fst K' n = Some s'" "cr_current_term s' \<le> w_term w" for n s'
  proof -
    obtain s where s: "fst K n = Some s" using dom t(1) by blast
    then have "cr_current_term s \<le> cr_current_term s'" using o(1)[of n] t(1) by (simp add: abs_nodes_def)
    then show ?thesis using g s t(2) by (simp add: guarded_def)
  qed
  have "watched w s'" if "fst K' L = Some s'" for s'
    using st
  proof cases
    case (handle C n s N input result t)
    then show ?thesis
      using g that guarded_step[OF sim g, of s input] by (cases "n = L") (auto simp: guarded_def safe_def)
  next
    case (set_budgets C n s budget overrides result t N)
    then show ?thesis using g that
      by (auto simp: guarded_def set_replication_budgets_def watched_def barrier_ok_def floor_ok_def split: if_splits)
  next
    case (clear_budgets C n s N)
    then show ?thesis using g that
      by (auto simp: guarded_def clear_replication_budget_overrides_def watched_def barrier_ok_def floor_ok_def split: if_splits)
  next
    case (crash C n s durable t N)
    then show ?thesis using g that restore_shape[OF crash(5)] by (auto simp: guarded_def watched_def split: if_splits)
  qed
  moreover have "src \<in> w_nodes w"
    if "(src, L, AppendResponse response) \<in> snd K'" "ares_read_barrier_id response = Some (w_barrier w)" "ares_term response = w_term w"
    for src response
  proof (cases "(src, L, AppendResponse response) \<in> snd K")
    case True
    then show ?thesis using g that(2,3) by (auto simp: guarded_def)
  next
    case False
    from st show ?thesis
    proof cases
      case (handle C n s N input result t)
      then have "(src, L, AppendResponse response) \<in> sent_by n result" using that(1) False by simp
      then have "src = n" "ares_term response = cr_current_term t"
        using step_current[of H input s] handle(5) by (auto simp: sent_by_def current_def split: sum.splits)
      then show ?thesis using terms[of n t] handle(2) that(3) by simp
    qed (use that(1) False in simp_all)
  qed
  ultimately show ?thesis using g office terms by (auto simp: guarded_def)
qed

lemma cluster_run_guarded:
  assumes cfg: "configured H plan config" and run: "reaches H config K K'" and sim: "simulated H plan config K M" and g: "guarded w L K"
  shows "guarded w L K'"
  using run
proof (induction rule: rtranclp_induct)
  case (step K' K'')
  obtain M' where "simulated H plan config K' M'" using cluster_run_simulated[OF cfg step.hyps(1) sim] by blast
  then show ?case using cluster_step_guarded[OF cfg _ step.hyps(2) step.IH] by blast
qed (rule g)

text \<open>
  C2. Linearizable reads: let a node lead when it begins a read barrier whose identifier is fresh in its term.
  If the barrier is released in that term at some index, then the leader has applied everything up to that
  index, every entry that any node had committed when the barrier was begun lies at or below it, and those
  entries are the leader's own. This covers crashes, restarts, and lost, repeated or reordered messages.
\<close>

theorem read_barrier_linearizable:
  assumes cfg: "configured H plan config" and run: "reaches H config (boot H config) K" "reaches H config K K'"
    and begun: "fst K L = Some s0" "cr_role s0 = LeaderState l" "i |\<notin>| fmdom (ls_read_barriers l)"
      "\<And>src response. (src, L, AppendResponse response) \<in> snd K \<Longrightarrow> ares_read_barrier_id response = Some i \<Longrightarrow>
         ares_term response < cr_current_term s0"
    and ready: "fst K' L = Some s" "deliverable (snd K') L input" "step H input s = (Inr effects, s')"
      "ReadBarrierReady i r \<in> set effects" "cr_current_term s' = cr_current_term s0"
    and n: "fst K n = Some sn"
  shows "r \<le> cr_applied_index s' \<and> cr_commit_index sn \<le> r \<and>
    take (cr_commit_index sn) (cr_log sn) = take (cr_commit_index sn) (cr_log s')"
proof -
  let ?c = "active_satisfies (Stable plan) Commit" and ?t = "cr_current_term s0"
  let ?K = "((fst K')(L \<mapsto> s'), snd K' \<union> sent_by L (Inr effects))"
  have valid: "valid_active H (Stable plan)" using cfg by (simp add: configured_def)
  have "cluster_step H config K' ?K" using handle[of "fst K'" L s "snd K'" input H "Inr effects" s' config] ready(1-3) by simp
  then have run': "reaches H config K ?K" using run(2) by simp
  obtain M M' h h' where x: "simulated H plan config K M" "explains plan h K M" "simulated H plan config ?K M'" "explains plan h' ?K M'" "extends ?c h h'"
    using cluster_histories[OF cfg run(1) run'] by metis
  define w where "w = \<lparr>w_barrier = i, w_term = ?t, w_nodes = {m. rp_term (abs_nodes (fst K) m) \<le> ?t}, w_floor = cr_commit_index s0\<rparr>"
  have s': "fst ?K L = Some s'" by simp
  have "guarded w L K"
    using begun unfolding guarded_def w_def
    by (force simp: abs_nodes_def office_def watched_def abs_core_def fmdom_notD)
  then have g: "guarded w L K'" by (rule cluster_run_guarded[OF cfg run(2) x(1)])
  obtain M1 where M1: "simulated H plan config K' M1" using cluster_run_simulated[OF cfg run(2) x(1)] by blast
  have "released w s' r" using guarded_step[OF M1 g ready(1,2)] ready(3-5) by (simp add: safe_def w_def)
  then obtain Q where q: "cr_commit_index s0 \<le> r" "0 < r" "r \<le> cr_commit_index s'" "entry_term (cr_log s' ! (r - 1)) = ?t"
    "r \<le> cr_applied_index s'" "\<And>m. m |\<in>| Q \<Longrightarrow> rp_term (abs_nodes (fst K) m) \<le> ?t" "active_satisfies (cr_active_plan s') Read Q"
    by (auto simp: released_def floor_ok_def w_def)
  have plan: "cr_active_plan s' = Stable plan" using x(3) s' unfolding simulated_def settled_def by metis
  let ?l = "take (cr_commit_index sn) (cr_log sn)"
  note sn = explains_log[OF x(2) n] and sl = explains_log[OF x(4) s']
  have "cr_commit_index sn \<le> cr_commit_index s0 \<or> (\<exists>b < ?t. committed ?c h b ?l)"
    using active.read_bound[OF valid x(2) q(7)[unfolded plan], of ?t L _ n] q(6) begun(1,2) n by (simp add: abs_nodes_def abs_core_def)
  moreover have "cr_commit_index sn < r" if "committed ?c h b ?l" "b < ?t" for b
  proof -
    have "committed ?c h' b ?l" using that(1) x(5) by (simp add: extends_def)
    from active.read_covers[OF valid explains_history[OF x(4)] this that(2) sl(1) q(2) _ q(4)]
    show ?thesis using q(3) sl(3) sn(3) by simp
  qed
  ultimately have le: "cr_commit_index sn \<le> r" using q(1) by (meson order_trans less_imp_le)
  have "committed ?c h' (cr_current_term sn) ?l" using sn(2) x(5) by (simp add: extends_def)
  from active.committed_agree[OF valid explains_history[OF x(4)] this sl(2)]
  have "?l = take (length ?l) (take (cr_commit_index s') (cr_log s'))" using le q(3) sn(3) sl(3) by simp
  then show ?thesis using le q(3,5) sn(3) by (simp add: min_absorb1 min_absorb2)
qed

section \<open>A barrier in the run of three voters\<close>

text \<open>The first leader applies its entry, begins a barrier and is confirmed by the second node.\<close>

definition barrier_begun :: "event list" where
  "barrier_begun = [Feed nodeA (AppliedThrough 1), Feed nodeA (BeginReadBarrier (ReadBarrierId 1)), Deliver 12 1]"

definition barrier_free :: "core \<Rightarrow> bool" where
  "barrier_free s = (case cr_role s of LeaderState l \<Rightarrow> fmdom (ls_read_barriers l) = {||} | _ \<Rightarrow> False)"

definition mentions_barrier :: "node_id \<times> node_id \<times> core_message \<Rightarrow> bool" where
  "mentions_barrier x = (case x of (_, _, AppendResponse response) \<Rightarrow> ares_read_barrier_id response \<noteq> None | _ \<Rightarrow> False)"

definition fresh_scene :: "scene option \<Rightarrow> bool" where
  "fresh_scene sc = (case sc of None \<Rightarrow> False | Some sc' \<Rightarrow> list_all (\<lambda>x. \<not> mentions_barrier x) (snd sc'))"

text \<open>The answer of the second node releases the barrier at the committed index.\<close>

definition releases :: "core \<Rightarrow> core_message \<Rightarrow> bool" where
  "releases s m = (case step one_digest (Message nodeB 1 m) s of
     (Inr effects, s') \<Rightarrow> list_ex (\<lambda>e. e = ReadBarrierReady (ReadBarrierId 1) 1) effects \<and> cr_current_term s' = 1
   | _ \<Rightarrow> False)"

definition answer_releases :: "scene option \<Rightarrow> bool" where
  "answer_releases sc = (case sc of None \<Rightarrow> False | Some sc' \<Rightarrow> 14 < length (snd sc') \<and>
     (case map_of (fst sc') nodeA of None \<Rightarrow> False | Some s \<Rightarrow>
       (case snd sc' ! 14 of (src, to, m) \<Rightarrow> src = nodeB \<and> to = nodeA \<and> releases s m)))"

lemma trio_fresh: "let sc = play one_digest (elected @ replicated) trio_scene in fresh_scene sc \<and> node_in sc nodeA barrier_free"
  by code_simp

lemma trio_answer: "answer_releases (play one_digest (elected @ replicated @ barrier_begun) trio_scene)"
  by code_simp

lemma trio_barrier_later:
  "reaches one_digest trio_config (cluster_at (elected @ replicated)) (cluster_at (elected @ replicated @ barrier_begun))"
  using cluster_at_extended[of "elected @ replicated" barrier_begun] trio_fresh trio_answer
  by (auto simp: Let_def node_in_def answer_releases_def split: option.splits)

lemma trio_release:
  obtains s m effects s' where "fst (cluster_at (elected @ replicated @ barrier_begun)) nodeA = Some s"
    "(nodeB, nodeA, m) \<in> snd (cluster_at (elected @ replicated @ barrier_begun))"
    "step one_digest (Message nodeB 1 m) s = (Inr effects, s')" "ReadBarrierReady (ReadBarrierId 1) 1 \<in> set effects" "cr_current_term s' = 1"
proof -
  obtain sc s src to m where sc: "play one_digest (elected @ replicated @ barrier_begun) trio_scene = Some sc" "14 < length (snd sc)"
    "map_of (fst sc) nodeA = Some s" "snd sc ! 14 = (nodeB, nodeA, m)" "releases s m"
    using trio_answer by (auto simp: answer_releases_def split: option.splits prod.splits)
  obtain effects s' where e: "step one_digest (Message nodeB 1 m) s = (Inr effects, s')" "ReadBarrierReady (ReadBarrierId 1) 1 \<in> set effects"
    "cr_current_term s' = 1"
    using sc(5) by (auto simp: releases_def list_ex_iff split: prod.splits sum.splits)
  have "(nodeB, nodeA, m) \<in> set (snd sc)" using sc(2,4) by (metis nth_mem)
  then show thesis using that[of s m effects s'] sc(1,3) e by (simp add: cluster_at_def)
qed

lemma trio_unmentioned:
  assumes "(src, dst, AppendResponse response) \<in> snd (cluster_at (elected @ replicated))"
  shows "ares_read_barrier_id response = None"
proof -
  obtain sc where "play one_digest (elected @ replicated) trio_scene = Some sc" "list_all (\<lambda>x. \<not> mentions_barrier x) (snd sc)"
    using trio_fresh by (auto simp: Let_def fresh_scene_def split: option.splits)
  then show ?thesis using assms by (auto simp: cluster_at_def list_all_iff mentions_barrier_def)
qed

theorem read_barrier_linearizable_witness:
  "\<exists>s m effects s' sn. fst (cluster_at (elected @ replicated @ barrier_begun)) nodeA = Some s \<and>
     step one_digest (Message nodeB 1 m) s = (Inr effects, s') \<and> ReadBarrierReady (ReadBarrierId 1) 1 \<in> set effects \<and>
     fst (cluster_at (elected @ replicated)) nodeB = Some sn \<and> cr_commit_index sn = 1 \<and> 1 \<le> cr_applied_index s' \<and>
     take 1 (cr_log sn) = take 1 (cr_log s')"
proof -
  let ?K = "cluster_at (elected @ replicated)"
  obtain s m effects s' where r: "fst (cluster_at (elected @ replicated @ barrier_begun)) nodeA = Some s"
    "(nodeB, nodeA, m) \<in> snd (cluster_at (elected @ replicated @ barrier_begun))"
    "step one_digest (Message nodeB 1 m) s = (Inr effects, s')" "ReadBarrierReady (ReadBarrierId 1) 1 \<in> set effects" "cr_current_term s' = 1"
    by (rule trio_release)
  obtain s0 where s0: "fst ?K nodeA = Some s0" "leads 1 1 s0" "barrier_free s0"
    using node_in_cluster[of "elected @ replicated" nodeA "leads 1 1"] node_in_cluster[of "elected @ replicated" nodeA barrier_free]
      trio_committed_run trio_fresh by (auto simp: Let_def)
  obtain sn where sn: "fst ?K nodeB = Some sn" "cr_commit_index sn = 1"
    using node_in_cluster[of "elected @ replicated" nodeB "\<lambda>s. cr_commit_index s = 1 \<and> map entry_term (cr_log s) = [1]"] trio_committed_run
    by (auto simp: Let_def)
  obtain l where l: "cr_role s0 = LeaderState l" "ReadBarrierId 1 |\<notin>| fmdom (ls_read_barriers l)"
    using s0(3) by (auto simp: barrier_free_def split: role_state.splits)
  have d: "deliverable (snd (cluster_at (elected @ replicated @ barrier_begun))) nodeA (Message nodeB 1 m)"
    using r(2) by (simp add: deliverable_def)
  have "1 \<le> cr_applied_index s' \<and> cr_commit_index sn \<le> 1 \<and> take (cr_commit_index sn) (cr_log sn) = take (cr_commit_index sn) (cr_log s')"
    by (rule read_barrier_linearizable[OF trio_configured cluster_at_reached trio_barrier_later s0(1) l _ r(1) d r(3,4) _ sn(1)])
      (use trio_unmentioned s0(2) r(5) in \<open>auto simp: leads_def\<close>)
  then show ?thesis using r(1,3,4) sn by auto
qed

end
