(* ===== verification/Consensus_Store.thy ===== *)
theory Consensus_Store
  imports Core_State Plan_Record
begin

text \<open>
  The SQLite persistence adapter of the consensus core (\<open>repository/consensus.rs\<close>, its \<open>accounting.rs\<close> and
  \<open>repository/quorum_plan.rs\<close> of \<open>meshspan-metadata\<close>). A database is a record of the tables the adapter reads
  and writes, each with its rows in primary key order and its integer columns as signed integers. A function
  that runs in a transaction returns an error, and then the database keeps its old contents, or the new
  database. Blobs that Rust types as fixed arrays carry no length check here. What offline recovery leaves in
  its own tables is given by its decoded contents.
\<close>

section \<open>Tables\<close>

datatype store_error =
    Sqlite | StoreCore core_error | CorruptState | InvalidMutation | MembershipEpochMismatch
  | RecoveryBoundExceeded | InjectedFault | MissingQuorumPlan | RecoveryAdmissionRequired
  | InvalidQuorumPlan | QuorumPlanRecord plan_record_error

record vote_row =
  vr_partition :: bytes
  vr_term :: int
  vr_voted_for :: "bytes option"
  vr_epoch :: int

record log_row =
  lr_index :: int
  lr_term :: int
  lr_kind :: int
  lr_version :: int
  lr_payload :: bytes
  lr_digest :: bytes

record plan_row =
  pr_partition :: bytes
  pr_phase :: int
  pr_epoch :: int
  pr_version :: int
  pr_canonical :: bytes
  pr_digest :: bytes
  pr_index :: int
  pr_term :: int
  pr_origin :: int

record plan_history_row =
  ph_index :: int
  ph_epoch :: int
  ph_version :: int
  ph_canonical :: bytes
  ph_digest :: bytes

record accounting_row =
  ar_entries :: int
  ar_bytes :: int
  ar_revision :: int
  ar_version :: int

record member_row =
  mr_node :: bytes
  mr_revision :: int
  mr_role :: int
  mr_state :: int

record node_row =
  nr_node :: bytes
  nr_state :: int
  nr_activated :: "int option"

record database =
  db_partition :: bytes
  db_recovery_pending :: bool
  db_recovery_origin :: "(active_quorum_plan \<times> log_position) option"
  db_vote :: "vote_row option"
  db_log :: "log_row list"
  db_applied_index :: int
  db_applied_term :: int
  db_accounting :: "accounting_row option"
  db_plan :: "plan_row option"
  db_plan_history :: "plan_history_row list"
  db_membership :: "int option"
  db_members :: "member_row list"
  db_nodes :: "node_row list"

definition COMMAND_ENTRY_KIND :: int where "COMMAND_ENTRY_KIND = 1"
definition MAXIMUM_RECOVERED_LOG_ENTRIES :: nat where "MAXIMUM_RECOVERED_LOG_ENTRIES = 1000000"
definition MAXIMUM_RECOVERED_LOG_BYTES :: nat where "MAXIMUM_RECOVERED_LOG_BYTES = 512 * 1024 * 1024"
definition PLAN_RECORD_VERSION :: int where "PLAN_RECORD_VERSION = 1"
definition i64_max :: nat where "i64_max = 9223372036854775807"

section \<open>Integer columns and identifiers\<close>

text \<open>The conversions of the two modules differ in the error they report.\<close>

definition to_i64 :: "store_error \<Rightarrow> nat \<Rightarrow> store_error + int" where
  "to_i64 e n = (if n \<le> i64_max then Inr (int n) else Inl e)"

definition nonnegative_u64 :: "store_error \<Rightarrow> int \<Rightarrow> store_error + nat" where
  "nonnegative_u64 e v = (if 0 \<le> v then Inr (nat v) else Inl e)"

definition positive_u64 :: "store_error \<Rightarrow> int \<Rightarrow> store_error + nat" where
  "positive_u64 e v = try_r (nonnegative_u64 e v) (\<lambda>n. if n = 0 then Inl e else Inr n)"

definition stored_node_id :: "store_error \<Rightarrow> bytes \<Rightarrow> store_error + node_id" where
  "stored_node_id e bs =
     (if length bs \<noteq> 16 then Inl e else map_err (\<lambda>_. e) (node_id_from_bytes bs))"

definition stored_operation_id :: "bytes \<Rightarrow> store_error + operation_id" where
  "stored_operation_id bs =
     (if length bs \<noteq> 16 then Inl CorruptState
      else map_err (\<lambda>_. CorruptState) (try_r (validate_identifier bs) (\<lambda>b. Inr (OperationId b))))"

section \<open>Accounting\<close>

record accounting =
  acc_entry_count :: nat
  acc_payload_bytes :: nat
  acc_revision :: int

definition require_bounds :: "accounting \<Rightarrow> store_error + unit" where
  "require_bounds a =
     (if acc_entry_count a > MAXIMUM_RECOVERED_LOG_ENTRIES \<or> acc_payload_bytes a > MAXIMUM_RECOVERED_LOG_BYTES
      then Inl RecoveryBoundExceeded else Inr ())"

definition accounting_read :: "database \<Rightarrow> store_error + accounting" where
  "accounting_read db =
     (case db_accounting db of
        None \<Rightarrow> Inl CorruptState
      | Some row \<Rightarrow>
          if ar_version row \<noteq> 1 \<or> ar_revision row < 0 then Inl CorruptState
          else try_r (nonnegative_u64 CorruptState (ar_entries row)) (\<lambda>entries.
               try_r (nonnegative_u64 CorruptState (ar_bytes row)) (\<lambda>bytes.
               let a = \<lparr>acc_entry_count = entries, acc_payload_bytes = bytes, acc_revision = ar_revision row\<rparr>
               in try_r (require_bounds a) (\<lambda>_. Inr a))))"

definition payload_total :: "log_row list \<Rightarrow> nat" where
  "payload_total rows = sum_list (map (\<lambda>r. length (lr_payload r)) rows)"

definition accounting_verify :: "database \<Rightarrow> store_error + unit" where
  "accounting_verify db =
     (case db_accounting db of
        None \<Rightarrow> Inl CorruptState
      | Some row \<Rightarrow>
          if ar_version row = 1 \<and> 0 \<le> ar_revision row \<and> ar_entries row = int (length (db_log db)) \<and>
             ar_bytes row = int (payload_total (db_log db)) \<and> ar_entries row \<le> int MAXIMUM_RECOVERED_LOG_ENTRIES \<and>
             ar_bytes row \<le> int MAXIMUM_RECOVERED_LOG_BYTES
          then Inr () else Inl CorruptState)"

text \<open>Deleting log rows also deletes the plan history rows that reference them.\<close>

definition delete_suffix :: "accounting \<Rightarrow> nat \<Rightarrow> database \<Rightarrow> store_error + accounting \<times> database" where
  "delete_suffix prior from db =
     try_r (to_i64 InvalidMutation from) (\<lambda>from.
     let removed = filter (\<lambda>r. from \<le> lr_index r) (db_log db)
     in try_r (ok_or CorruptState (checked_sub (acc_entry_count prior) (length removed))) (\<lambda>entries.
        try_r (ok_or CorruptState (checked_sub (acc_payload_bytes prior) (payload_total removed))) (\<lambda>bytes.
        Inr (prior\<lparr>acc_entry_count := entries, acc_payload_bytes := bytes\<rparr>,
             db\<lparr>db_log := filter (\<lambda>r. lr_index r < from) (db_log db),
                db_plan_history := filter (\<lambda>p. ph_index p < from) (db_plan_history db)\<rparr>))))"

definition accounting_store :: "accounting \<Rightarrow> accounting \<Rightarrow> database \<Rightarrow> store_error + database" where
  "accounting_store prior next db =
     try_r (require_bounds next) (\<lambda>_.
       if next = prior then Inr db
       else if acc_revision prior \<ge> int i64_max then Inl RecoveryBoundExceeded
       else try_r (to_i64 InvalidMutation (acc_entry_count next)) (\<lambda>entries.
            try_r (to_i64 InvalidMutation (acc_payload_bytes next)) (\<lambda>bytes.
            try_r (to_i64 InvalidMutation (acc_entry_count prior)) (\<lambda>prior_entries.
            try_r (to_i64 InvalidMutation (acc_payload_bytes prior)) (\<lambda>prior_bytes.
              if db_accounting db = Some \<lparr>ar_entries = prior_entries, ar_bytes = prior_bytes,
                   ar_revision = acc_revision prior, ar_version = 1\<rparr>
              then Inr (db\<lparr>db_accounting := Some \<lparr>ar_entries = entries, ar_bytes = bytes,
                   ar_revision = acc_revision prior + 1, ar_version = 1\<rparr>\<rparr>)
              else Inl CorruptState)))))"

definition with_payload :: "nat \<Rightarrow> accounting \<Rightarrow> store_error + accounting" where
  "with_payload payload_bytes a =
     try_r (ok_or RecoveryBoundExceeded (checked_add u64_max (acc_entry_count a) 1)) (\<lambda>entries.
     try_r (ok_or RecoveryBoundExceeded (checked_add u64_max (acc_payload_bytes a) payload_bytes)) (\<lambda>bytes.
     let next = a\<lparr>acc_entry_count := entries, acc_payload_bytes := bytes\<rparr>
     in try_r (require_bounds next) (\<lambda>_. Inr next)))"

section \<open>The active quorum plan\<close>

definition phase_kind :: "active_quorum_plan \<Rightarrow> int" where
  "phase_kind active = (case active of Stable _ \<Rightarrow> 1 | Joint _ \<Rightarrow> 2)"

definition verify_transition_entry :: "database \<Rightarrow> log_position \<Rightarrow> store_error + unit" where
  "verify_transition_entry db position =
     try_r (to_i64 InvalidQuorumPlan (pos_index position)) (\<lambda>index.
     try_r (to_i64 InvalidQuorumPlan (pos_term position)) (\<lambda>t.
       if list_ex (\<lambda>r. lr_index r = index \<and> lr_term r = t) (db_log db) then Inr () else Inl InvalidQuorumPlan))"

definition verify_transition_history :: "database \<Rightarrow> log_position \<Rightarrow> active_quorum_plan \<Rightarrow> store_error + unit" where
  "verify_transition_history db position active =
     try_r (to_i64 InvalidQuorumPlan (pos_index position)) (\<lambda>index.
     case find (\<lambda>p. ph_index p = index) (db_plan_history db) of
       None \<Rightarrow> Inl InvalidQuorumPlan
     | Some p \<Rightarrow>
         try_r (positive_u64 InvalidQuorumPlan (ph_epoch p)) (\<lambda>epoch.
         if epoch \<noteq> active_membership_epoch active \<or> ph_version p \<noteq> PLAN_RECORD_VERSION then Inl InvalidQuorumPlan
         else try_r (map_err QuorumPlanRecord (encode_plan active)) (\<lambda>canonical.
           if ph_canonical p \<noteq> canonical \<or> ph_digest p \<noteq> active_proof_digest active
           then Inl InvalidQuorumPlan else Inr ())))"

definition verify_quorum_origin :: "database \<Rightarrow> active_quorum_plan \<Rightarrow> log_position \<Rightarrow> store_error + unit" where
  "verify_quorum_origin db active position =
     (if db_recovery_origin db = Some (active, position) then Inr () else Inl InvalidQuorumPlan)"

definition valid_stored_header :: "database \<Rightarrow> plan_row \<Rightarrow> active_quorum_plan \<Rightarrow> store_error + log_position" where
  "valid_stored_header db row active =
     try_r (nonnegative_u64 InvalidQuorumPlan (pr_index row)) (\<lambda>index.
     try_r (nonnegative_u64 InvalidQuorumPlan (pr_term row)) (\<lambda>t.
       if pr_partition row \<noteq> db_partition db \<or> pr_phase row \<noteq> phase_kind active then Inl InvalidQuorumPlan
       else try_r (positive_u64 InvalidQuorumPlan (pr_epoch row)) (\<lambda>epoch.
         if epoch \<noteq> active_membership_epoch active \<or> pr_version row \<noteq> PLAN_RECORD_VERSION
            \<or> pr_digest row \<noteq> active_proof_digest active \<or> (index = 0) \<noteq> (t = 0)
         then Inl InvalidQuorumPlan else Inr \<lparr>pos_term = t, pos_index = index\<rparr>)))"

definition load_plan :: "(bytes \<Rightarrow> bytes) \<Rightarrow> database \<Rightarrow> store_error + active_quorum_plan option" where
  "load_plan H db =
     (case db_plan db of
        None \<Rightarrow> Inr None
      | Some row \<Rightarrow>
          try_r (map_err QuorumPlanRecord (decode_plan H (pr_canonical row))) (\<lambda>active.
          try_r (valid_stored_header db row active) (\<lambda>position.
          try_r (if pr_origin row = 1 then
                   if position = GENESIS then Inr ()
                   else try_r (verify_transition_entry db position) (\<lambda>_. verify_transition_history db position active)
                 else if pr_origin row = 2 then
                   try_r (verify_transition_entry db position) (\<lambda>_. verify_quorum_origin db active position)
                 else Inl InvalidQuorumPlan) (\<lambda>_. Inr (Some active)))))"

definition verify_epoch :: "(bytes \<Rightarrow> bytes) \<Rightarrow> database \<Rightarrow> nat \<Rightarrow> store_error + unit" where
  "verify_epoch H db epoch =
     try_r (load_plan H db) (\<lambda>found.
     try_r (ok_or MissingQuorumPlan found) (\<lambda>active.
       if active_membership_epoch active = epoch then Inr () else Inl MembershipEpochMismatch))"

definition valid_successor :: "active_quorum_plan \<Rightarrow> active_quorum_plan \<Rightarrow> bool" where
  "valid_successor current next =
     (case (current, next) of
        (Stable old, Joint joint) \<Rightarrow> old = joint_old joint
      | (Joint joint, Stable new) \<Rightarrow> joint_new joint = new
      | _ \<Rightarrow> False)"

definition advance_applied_position :: "log_position \<Rightarrow> database \<Rightarrow> store_error + database" where
  "advance_applied_position position db =
     try_r (to_i64 InvalidQuorumPlan (pos_index position)) (\<lambda>index.
     try_r (to_i64 InvalidQuorumPlan (pos_term position)) (\<lambda>t.
       if db_applied_index db = int (pos_index position - 1)
       then Inr (db\<lparr>db_applied_index := index, db_applied_term := t\<rparr>) else Inl InvalidQuorumPlan))"

definition update_member :: "node_id \<Rightarrow> int \<Rightarrow> int \<Rightarrow> int \<Rightarrow> database \<Rightarrow> store_error + database" where
  "update_member node revision role state db =
     (let hit = (\<lambda>m. mr_node m = node_bytes node \<and> mr_state m \<in> {1, 2})
      in if length (filter hit (db_members db)) = 1
         then Inr (db\<lparr>db_members := map (\<lambda>m. if hit m then m\<lparr>mr_revision := revision, mr_role := role, mr_state := state\<rparr> else m)
                (db_members db)\<rparr>)
         else Inl InvalidQuorumPlan)"

definition activate_node :: "int \<Rightarrow> node_id \<Rightarrow> database \<Rightarrow> store_error + database" where
  "activate_node updated_at node db =
     (let hit = (\<lambda>n. nr_node n = node_bytes node \<and> nr_state n \<in> {1, 2})
      in if length (filter hit (db_nodes db)) = 1
         then Inr (db\<lparr>db_nodes := map (\<lambda>n. if hit n then n\<lparr>nr_state := 2,
                nr_activated := (case nr_activated n of None \<Rightarrow> Some updated_at | Some v \<Rightarrow> Some v)\<rparr> else n) (db_nodes db)\<rparr>)
         else Inl InvalidQuorumPlan)"

definition synchronise_membership_projection :: "compiled_quorum_plan \<Rightarrow> int \<Rightarrow> database \<Rightarrow> store_error + database" where
  "synchronise_membership_projection plan updated_at db =
     (case db_membership db of
        None \<Rightarrow> Inr db
      | Some current \<Rightarrow>
          try_r (to_i64 InvalidQuorumPlan (spec_membership_epoch (plan_spec plan))) (\<lambda>epoch.
          if current \<noteq> epoch - 1 then Inl InvalidQuorumPlan
          else try_r (try_map (\<lambda>m. stored_node_id InvalidQuorumPlan (mr_node m))
                 (filter (\<lambda>m. mr_state m \<in> {1, 2}) (db_members db))) (\<lambda>stored.
          if fset_of_list stored \<noteq> plan_members plan then Inl InvalidQuorumPlan
          else try_r (try_fold (\<lambda>db voter. try_r (update_member voter epoch 1 1 db) (activate_node updated_at voter))
                 db (btree_iter (spec_voters (plan_spec plan)))) (\<lambda>db.
               try_r (try_fold (\<lambda>db learner. update_member learner epoch 2 2 db)
                 db (btree_iter (spec_learners (plan_spec plan)))) (\<lambda>db.
          Inr (db\<lparr>db_membership := Some epoch\<rparr>))))))"

definition persist_plan :: "(bytes \<Rightarrow> bytes) \<Rightarrow> durable_quorum_plan \<Rightarrow> int \<Rightarrow> database \<Rightarrow> store_error + database" where
  "persist_plan H durable updated_at db =
     (let position = dqp_activated_position durable; active = dqp_active_plan durable
      in if position = GENESIS then Inl InvalidQuorumPlan
         else try_r (load_plan H db) (\<lambda>found.
              try_r (ok_or MissingQuorumPlan found) (\<lambda>current.
              if \<not> valid_successor current active then Inl InvalidQuorumPlan
              else try_r (verify_transition_entry db position) (\<lambda>_.
                   try_r (advance_applied_position position db) (\<lambda>db.
                   try_r (map_err QuorumPlanRecord (encode_plan active)) (\<lambda>canonical.
                   try_r (to_i64 InvalidQuorumPlan (active_membership_epoch active)) (\<lambda>epoch.
                   try_r (to_i64 InvalidQuorumPlan (pos_index position)) (\<lambda>index.
                   try_r (to_i64 InvalidQuorumPlan (pos_term position)) (\<lambda>t.
                   case db_plan db of
                     None \<Rightarrow> Inl InvalidQuorumPlan
                   | Some row \<Rightarrow>
                       if pr_partition row \<noteq> db_partition db then Inl InvalidQuorumPlan
                       else if list_ex (\<lambda>p. ph_index p = index) (db_plan_history db) then Inl Sqlite
                       else let db' = db\<lparr>db_plan := Some (row\<lparr>pr_phase := phase_kind active, pr_epoch := epoch,
                                  pr_version := PLAN_RECORD_VERSION, pr_canonical := canonical,
                                  pr_digest := active_proof_digest active, pr_index := index, pr_term := t, pr_origin := 1\<rparr>),
                                db_plan_history := insort_key ph_index \<lparr>ph_index = index, ph_epoch = epoch,
                                  ph_version = PLAN_RECORD_VERSION, ph_canonical = canonical,
                                  ph_digest = active_proof_digest active\<rparr> (db_plan_history db)\<rparr>
                            in case active of
                                 Stable plan \<Rightarrow> synchronise_membership_projection plan updated_at db'
                               | Joint _ \<Rightarrow> Inr db')))))))))"

definition has_consensus_history :: "database \<Rightarrow> bool" where
  "has_consensus_history db = (db_vote db \<noteq> None \<or> db_log db \<noteq> [])"

section \<open>Votes and log rows\<close>

definition persist_vote :: "nat \<Rightarrow> durable_mutation \<Rightarrow> database \<Rightarrow> store_error + database" where
  "persist_vote epoch m db =
     (let target_epoch = (case mut_membership_epoch m of None \<Rightarrow> epoch | Some e \<Rightarrow> e)
      in if target_epoch \<noteq> epoch \<and> target_epoch \<noteq> saturating_add u64_max epoch 1 then Inl MembershipEpochMismatch
         else try_r (case db_vote db of
               None \<Rightarrow> if mut_vote_state m = None then Inl InvalidMutation else Inr ()
             | Some row \<Rightarrow>
                 if vr_partition row \<noteq> db_partition db then Inl MembershipEpochMismatch
                 else try_r (positive_u64 CorruptState (vr_epoch row)) (\<lambda>stored_epoch.
                   if stored_epoch \<noteq> epoch then Inl MembershipEpochMismatch
                   else case mut_vote_state m of
                       None \<Rightarrow> Inr ()
                     | Some (t, voted_for) \<Rightarrow>
                         try_r (nonnegative_u64 CorruptState (vr_term row)) (\<lambda>current_term.
                         try_r (case vr_voted_for row of None \<Rightarrow> Inr None
                                | Some bs \<Rightarrow> try_r (stored_node_id CorruptState bs) (\<lambda>v. Inr (Some v))) (\<lambda>current_vote.
                           if t < current_term \<or> (t = current_term \<and> current_vote \<noteq> None \<and> voted_for \<noteq> current_vote)
                           then Inl InvalidMutation else Inr ())))) (\<lambda>_.
           case mut_vote_state m of
             Some (t, voted_for) \<Rightarrow>
               if t = 0 then Inl InvalidMutation
               else try_r (to_i64 InvalidMutation t) (\<lambda>stored_term.
                    try_r (to_i64 InvalidMutation target_epoch) (\<lambda>stored_epoch.
                    Inr (db\<lparr>db_vote := Some \<lparr>vr_partition = db_partition db, vr_term = stored_term,
                           vr_voted_for = map_option node_bytes voted_for, vr_epoch = stored_epoch\<rparr>\<rparr>)))
           | None \<Rightarrow>
               if mut_membership_epoch m \<noteq> None then
                 try_r (to_i64 InvalidMutation target_epoch) (\<lambda>stored_epoch.
                   case db_vote db of
                     None \<Rightarrow> Inl InvalidMutation
                   | Some row \<Rightarrow> Inr (db\<lparr>db_vote := Some (row\<lparr>vr_epoch := stored_epoch\<rparr>)\<rparr>))
               else Inr db))"

definition read_last_log_index :: "database \<Rightarrow> store_error + nat" where
  "read_last_log_index db =
     nonnegative_u64 CorruptState (case last_opt (db_log db) of None \<Rightarrow> 0 | Some r \<Rightarrow> lr_index r)"

definition read_last_log_term :: "database \<Rightarrow> store_error + nat" where
  "read_last_log_term db =
     (case last_opt (db_log db) of None \<Rightarrow> Inr 0 | Some r \<Rightarrow> positive_u64 CorruptState (lr_term r))"

text \<open>The primary key and the column checks of the log table.\<close>

definition insert_log_row :: "log_row \<Rightarrow> database \<Rightarrow> store_error + database" where
  "insert_log_row row db =
     (if list_ex (\<lambda>r. lr_index r = lr_index row) (db_log db) \<or> lr_index row \<le> 0 \<or> lr_term row \<le> 0
         \<or> lr_kind row \<le> 0 \<or> lr_version row \<le> 0
      then Inl Sqlite
      else Inr (db\<lparr>db_log := insort_key lr_index row (db_log db)\<rparr>))"

definition entry_payload :: "log_entry \<Rightarrow> bytes" where
  "entry_payload e = operation_bytes (le_operation_id e) @ le_command e"

fun append_rows ::
  "(bytes \<Rightarrow> bytes) \<Rightarrow> log_entry list \<Rightarrow> nat \<Rightarrow> nat \<Rightarrow> accounting \<Rightarrow> database \<Rightarrow> store_error + accounting \<times> database" where
  "append_rows H [] expected previous next db = Inr (next, db)"
| "append_rows H (e # es) expected previous next db =
     (if entry_index e \<noteq> expected \<or> entry_term e < previous then Inl InvalidMutation
      else try_r (with_payload (length (entry_payload e)) next) (\<lambda>next.
           try_r (to_i64 InvalidMutation (entry_index e)) (\<lambda>index.
           try_r (to_i64 InvalidMutation (entry_term e)) (\<lambda>t.
           try_r (insert_log_row \<lparr>lr_index = index, lr_term = t, lr_kind = COMMAND_ENTRY_KIND,
               lr_version = int (le_command_version e), lr_payload = entry_payload e, lr_digest = entry_digest H e\<rparr> db) (\<lambda>db.
           try_r (ok_or InvalidMutation (checked_add u64_max expected 1)) (\<lambda>expected.
             append_rows H es expected (entry_term e) next db))))))"

definition persist_log :: "(bytes \<Rightarrow> bytes) \<Rightarrow> durable_mutation \<Rightarrow> database \<Rightarrow> store_error + database" where
  "persist_log H m db =
     try_r (accounting_read db) (\<lambda>prior.
     try_r (nonnegative_u64 CorruptState (db_applied_index db)) (\<lambda>applied_index.
     try_r (case mut_truncate_from m of
              None \<Rightarrow> Inr (prior, db)
            | Some truncate_from \<Rightarrow>
                if truncate_from = 0 \<or> truncate_from \<le> applied_index then Inl InvalidMutation
                else try_r (read_last_log_index db) (\<lambda>last_index.
                  if truncate_from > saturating_add u64_max last_index 1 then Inl InvalidMutation
                  else delete_suffix prior truncate_from db)) (\<lambda>(next, db).
     try_r (read_last_log_index db) (\<lambda>last_index.
     try_r (ok_or InvalidMutation (checked_add u64_max last_index 1)) (\<lambda>expected.
     try_r (read_last_log_term db) (\<lambda>previous.
     try_r (append_rows H (mut_append m) expected previous next db) (\<lambda>(next, db).
       accounting_store prior next db)))))))"

section \<open>Mutations\<close>

fun validate_mutation_entries :: "(bytes \<Rightarrow> bytes) \<Rightarrow> log_entry option \<Rightarrow> log_entry list \<Rightarrow> store_error + unit" where
  "validate_mutation_entries H previous [] = Inr ()"
| "validate_mutation_entries H previous (e # es) =
     try_r (map_err (\<lambda>_. InvalidMutation) (entry_validate H e)) (\<lambda>_.
       if (case previous of None \<Rightarrow> False | Some prior \<Rightarrow>
             entry_index e \<noteq> saturating_add u64_max (entry_index prior) 1 \<or> entry_term e < entry_term prior)
       then Inl InvalidMutation
       else validate_mutation_entries H (Some e) es)"

definition require_admitted :: "database \<Rightarrow> store_error + unit" where
  "require_admitted db = (if db_recovery_pending db then Inl RecoveryAdmissionRequired else Inr ())"

datatype store_failpoint = NoFailpoint | BeforeCommit

definition persist_mutation_with_failpoint ::
  "(bytes \<Rightarrow> bytes) \<Rightarrow> nat \<Rightarrow> durable_mutation \<Rightarrow> int \<Rightarrow> store_failpoint \<Rightarrow> database \<Rightarrow> (store_error + unit) \<times> database" where
  "persist_mutation_with_failpoint H epoch m persisted_at failpoint db =
     (case (try_r (require_admitted db) (\<lambda>_.
        if epoch = 0
           \<or> (mut_vote_state m = None \<and> mut_truncate_from m = None \<and> mut_append m = [] \<and> mut_membership_epoch m = None
              \<and> mut_quorum_plan m = None)
           \<or> (mut_membership_epoch m \<noteq> None) \<noteq> (mut_quorum_plan m \<noteq> None)
           \<or> (case mut_quorum_plan m of None \<Rightarrow> False | Some plan \<Rightarrow>
                active_membership_epoch (dqp_active_plan plan) \<noteq> (case mut_membership_epoch m of None \<Rightarrow> 0 | Some e \<Rightarrow> e))
        then Inl InvalidMutation
        else try_r (validate_mutation_entries H None (mut_append m)) (\<lambda>_.
             try_r (verify_epoch H db epoch) (\<lambda>_.
             try_r (persist_vote epoch m db) (\<lambda>db.
             try_r (persist_log H m db) (\<lambda>db.
             try_r (case mut_quorum_plan m of None \<Rightarrow> Inr db | Some plan \<Rightarrow> persist_plan H plan persisted_at db) (\<lambda>db.
             if failpoint = BeforeCommit then Inl InjectedFault else Inr db))))))) of
        Inl e \<Rightarrow> (Inl e, db)
      | Inr db' \<Rightarrow> (Inr (), db'))"

definition persist_mutation :: "(bytes \<Rightarrow> bytes) \<Rightarrow> nat \<Rightarrow> durable_mutation \<Rightarrow> int \<Rightarrow> database \<Rightarrow> (store_error + unit) \<times> database" where
  "persist_mutation H epoch m persisted_at = persist_mutation_with_failpoint H epoch m persisted_at NoFailpoint"

definition initialise_plan :: "(bytes \<Rightarrow> bytes) \<Rightarrow> compiled_quorum_plan \<Rightarrow> database \<Rightarrow> (store_error + active_quorum_plan) \<times> database" where
  "initialise_plan H plan db =
     (let active = Stable plan
      in case (try_r (require_admitted db) (\<lambda>_.
           try_r (map_err QuorumPlanRecord (encode_plan active)) (\<lambda>canonical.
           try_r (load_plan H db) (\<lambda>already.
           if already = None \<and> has_consensus_history db then Inl MissingQuorumPlan
           else try_r (to_i64 InvalidQuorumPlan (active_membership_epoch active)) (\<lambda>epoch.
             let db' = (case db_plan db of
                   Some _ \<Rightarrow> db
                 | None \<Rightarrow> if epoch \<le> 0 then db else db\<lparr>db_plan := Some \<lparr>pr_partition = db_partition db,
                     pr_phase = phase_kind active, pr_epoch = epoch, pr_version = PLAN_RECORD_VERSION,
                     pr_canonical = canonical, pr_digest = active_proof_digest active, pr_index = 0, pr_term = 0,
                     pr_origin = 1\<rparr>\<rparr>)
             in try_r (load_plan H db') (\<lambda>found.
                try_r (ok_or MissingQuorumPlan found) (\<lambda>stored.
                if stored \<noteq> active then Inl InvalidQuorumPlan else Inr (stored, db')))))))) of
         Inl e \<Rightarrow> (Inl e, db)
       | Inr (stored, db') \<Rightarrow> (Inr stored, db'))"

section \<open>Recovery\<close>

definition decode_row :: "(bytes \<Rightarrow> bytes) \<Rightarrow> log_row \<Rightarrow> store_error + log_entry" where
  "decode_row H r =
     try_r (stored_operation_id (take 16 (lr_payload r))) (\<lambda>operation.
     try_r (positive_u64 CorruptState (lr_term r)) (\<lambda>t.
     try_r (positive_u64 CorruptState (lr_index r)) (\<lambda>index.
     try_r (if 0 \<le> lr_version r \<and> lr_version r \<le> int u16_max then Inr (nat (lr_version r)) else Inl CorruptState) (\<lambda>version.
     try_r (map_err StoreCore (log_entry_new H \<lparr>pos_term = t, pos_index = index\<rparr> operation version (drop 16 (lr_payload r)))) (\<lambda>e.
       if lr_digest r \<noteq> entry_digest H e then Inl CorruptState else Inr e)))))"

fun load_rows :: "(bytes \<Rightarrow> bytes) \<Rightarrow> log_row list \<Rightarrow> nat \<Rightarrow> log_entry list \<Rightarrow> store_error + log_entry list" where
  "load_rows H [] total_bytes log = Inr log"
| "load_rows H (r # rs) total_bytes log =
     (if length log = MAXIMUM_RECOVERED_LOG_ENTRIES then Inl RecoveryBoundExceeded
      else try_r (ok_or RecoveryBoundExceeded (checked_add u64_max total_bytes (length (lr_payload r)))) (\<lambda>total_bytes.
        if total_bytes > MAXIMUM_RECOVERED_LOG_BYTES \<or> lr_kind r \<noteq> COMMAND_ENTRY_KIND \<or> length (lr_payload r) < 16
        then Inl CorruptState
        else try_r (decode_row H r) (\<lambda>e. load_rows H rs total_bytes (log @ [e]))))"

definition load_log :: "(bytes \<Rightarrow> bytes) \<Rightarrow> database \<Rightarrow> store_error + log_entry list" where
  "load_log H db = load_rows H (take (MAXIMUM_RECOVERED_LOG_ENTRIES + 1) (db_log db)) 0 []"

fun validate_recovered_loop :: "nat \<Rightarrow> nat \<Rightarrow> nat \<Rightarrow> log_entry list \<Rightarrow> store_error + nat" where
  "validate_recovered_loop current_term expected previous [] = Inr expected"
| "validate_recovered_loop current_term expected previous (e # es) =
     (if entry_index e \<noteq> expected \<or> entry_term e < previous \<or> entry_term e > current_term then Inl CorruptState
      else try_r (ok_or CorruptState (checked_add u64_max expected 1)) (\<lambda>expected.
        validate_recovered_loop current_term expected (entry_term e) es))"

definition validate_recovered_state :: "durable_core_state \<Rightarrow> store_error + unit" where
  "validate_recovered_state state =
     try_r (validate_recovered_loop (dur_current_term state) 1 0 (dur_log state)) (\<lambda>expected.
       if dur_applied_index state \<ge> expected then Inl CorruptState else Inr ())"

definition load_state_from_connection :: "(bytes \<Rightarrow> bytes) \<Rightarrow> database \<Rightarrow> nat \<Rightarrow> store_error + durable_core_state" where
  "load_state_from_connection H db epoch =
     try_r (accounting_verify db) (\<lambda>_.
     try_r (case db_vote db of
              None \<Rightarrow> Inr (0, None)
            | Some row \<Rightarrow>
                if vr_partition row \<noteq> db_partition db then Inl MembershipEpochMismatch
                else try_r (positive_u64 CorruptState (vr_epoch row)) (\<lambda>stored_epoch.
                  if stored_epoch \<noteq> epoch then Inl MembershipEpochMismatch
                  else try_r (nonnegative_u64 CorruptState (vr_term row)) (\<lambda>t.
                       try_r (case vr_voted_for row of None \<Rightarrow> Inr None
                              | Some bs \<Rightarrow> try_r (stored_node_id CorruptState bs) (\<lambda>v. Inr (Some v))) (\<lambda>voted_for.
                       if t = 0 \<and> voted_for \<noteq> None then Inl CorruptState else Inr (t, voted_for))))) (\<lambda>(current_term, voted_for).
     try_r (load_log H db) (\<lambda>log.
     if current_term = 0 \<and> log \<noteq> [] then Inl CorruptState
     else try_r (nonnegative_u64 CorruptState (db_applied_index db)) (\<lambda>applied_index.
          try_r (nonnegative_u64 CorruptState (db_applied_term db)) (\<lambda>applied_term.
          if applied_index > 0 \<and> (case get_opt log (applied_index - 1) of None \<Rightarrow> True | Some e \<Rightarrow> entry_term e \<noteq> applied_term)
          then Inl CorruptState
          else let state = \<lparr>dur_current_term = current_term, dur_voted_for = voted_for, dur_log = log,
                   dur_applied_index = applied_index\<rparr>
               in try_r (validate_recovered_state state) (\<lambda>_. Inr state))))))"

definition load_state :: "(bytes \<Rightarrow> bytes) \<Rightarrow> database \<Rightarrow> nat \<Rightarrow> store_error + durable_core_state" where
  "load_state H db epoch =
     try_r (require_admitted db) (\<lambda>_.
       if epoch = 0 then Inl MembershipEpochMismatch
       else try_r (verify_epoch H db epoch) (\<lambda>_. load_state_from_connection H db epoch))"

section \<open>Application of a term confirmation\<close>

definition apply_term_confirmation :: "(bytes \<Rightarrow> bytes) \<Rightarrow> log_entry \<Rightarrow> database \<Rightarrow> (store_error + unit) \<times> database" where
  "apply_term_confirmation H e db =
     (case (try_r (map_err StoreCore (entry_validate H e)) (\<lambda>_.
        if \<not> is_term_confirmation e then Inl InvalidMutation
        else try_r (require_admitted db) (\<lambda>_.
             try_r (to_i64 InvalidMutation (entry_index e)) (\<lambda>index.
             try_r (to_i64 InvalidMutation (entry_term e)) (\<lambda>t.
             if \<not> list_ex (\<lambda>r. r = \<lparr>lr_index = index, lr_term = t, lr_kind = 1, lr_version = int (le_command_version e),
                  lr_payload = entry_payload e, lr_digest = entry_digest H e\<rparr>) (db_log db)
             then Inl InvalidMutation
             else try_r (nonnegative_u64 CorruptState (db_applied_index db)) (\<lambda>applied.
                  try_r (nonnegative_u64 CorruptState (db_applied_term db)) (\<lambda>applied_term.
                  if applied = entry_index e \<and> applied_term = entry_term e then Inr db
                  else if checked_add u64_max applied 1 \<noteq> Some (entry_index e) \<or> applied_term > entry_term e
                  then Inl InvalidMutation
                  else Inr (db\<lparr>db_applied_index := index, db_applied_term := t\<rparr>)))))))) of
        Inl e \<Rightarrow> (Inl e, db)
      | Inr db' \<Rightarrow> (Inr (), db'))"

definition applied_entry :: "(bytes \<Rightarrow> bytes) \<Rightarrow> log_position \<Rightarrow> database \<Rightarrow> store_error + log_entry option" where
  "applied_entry H position db =
     try_r (require_admitted db) (\<lambda>_.
       if pos_index position = 0 \<or> pos_term position = 0 then Inl InvalidMutation
       else try_r (to_i64 InvalidMutation (pos_index position)) (\<lambda>index.
            try_r (to_i64 InvalidMutation (pos_term position)) (\<lambda>t.
            case find (\<lambda>r. lr_index r = index \<and> lr_term r = t \<and> lr_index r \<le> db_applied_index db) (db_log db) of
              None \<Rightarrow> Inr None
            | Some r \<Rightarrow>
                let payload = take (MAXIMUM_LOG_ENTRY_BYTES + 16) (lr_payload r)
                in if lr_kind r \<noteq> COMMAND_ENTRY_KIND \<or> length (lr_payload r) < 16
                      \<or> length (lr_payload r) > MAXIMUM_LOG_ENTRY_BYTES + 16 \<or> length (lr_digest r) \<noteq> 32
                   then Inl CorruptState
                   else try_r (stored_operation_id (take 16 payload)) (\<lambda>operation.
                        try_r (if 0 \<le> lr_version r \<and> lr_version r \<le> int u16_max then Inr (nat (lr_version r)) else Inl CorruptState) (\<lambda>version.
                        try_r (map_err StoreCore (log_entry_new H position operation version (drop 16 payload))) (\<lambda>e.
                          if lr_digest r \<noteq> entry_digest H e then Inl CorruptState else Inr (Some e)))))))"

definition truncate_recovery_suffix :: "nat \<Rightarrow> database \<Rightarrow> store_error + database" where
  "truncate_recovery_suffix retained_index db =
     try_r (accounting_read db) (\<lambda>prior.
     try_r (ok_or InvalidMutation (checked_add u64_max retained_index 1)) (\<lambda>from.
     try_r (delete_suffix prior from db) (\<lambda>(next, db). accounting_store prior next db)))"

end
