(* ===== verification/Partition_Driver.thy ===== *)
theory Partition_Driver
  imports Consensus_Store "HOL-Library.While_Combinator"
begin

text \<open>
  The persistence-first loop around the consensus core (\<open>driver.rs\<close> of \<open>meshspan-cluster\<close>). A driver owns a
  core, a store and at most one failed persistence. It hands out an effect only after every mutation the
  effect depends on is durable. The store is a parameter: the operation \<open>persist\<close> of the trait
  \<open>PartitionConsensusPersistence\<close>.
\<close>

datatype driver_effect =
    DriverSend node_id core_message
  | ApplyCommitted "log_entry list"
  | DriverRoleChanged role nat
  | DriverProposalAppended proposal_id log_position
  | DriverReadBarrierReady read_barrier_id nat
  | DriverRejected core_error

datatype ('e, 'r) driver_error =
    DriverCore core_error
  | DriverPersistence 'e
  | DriverAuthority 'r
  | InvalidCommittedCommand
  | WriteFenced
  | PersistenceBlocked
  | NoBlockedPersistence

record blocked_persistence =
  bp_id :: persistence_id
  bp_epoch :: nat
  bp_mutation :: durable_mutation

record 'st driver =
  dr_core :: core
  dr_persistence :: 'st
  dr_blocked :: "blocked_persistence option"

type_synonym ('st, 'e) persist = "'st \<Rightarrow> nat \<Rightarrow> durable_mutation \<Rightarrow> int \<Rightarrow> ('e + unit) \<times> 'st"
type_synonym ('st, 'e, 'r, 'a) driver_result = "((('e, 'r) driver_error + 'a) \<times> 'st driver) option"

definition driver_new :: "core \<Rightarrow> 'st \<Rightarrow> 'st driver" where
  "driver_new s st = \<lparr>dr_core = s, dr_persistence = st, dr_blocked = None\<rparr>"

abbreviation driver_epoch :: "'st driver \<Rightarrow> nat" where
  "driver_epoch d \<equiv> active_membership_epoch (cr_active_plan (dr_core d))"

text \<open>Effects of the core that may leave the driver as they are.\<close>

fun safe_effect :: "core_effect \<Rightarrow> driver_effect option" where
  "safe_effect (Persist _ _) = None"
| "safe_effect (Send to message) = Some (DriverSend to message)"
| "safe_effect (CommitReady entries) = Some (ApplyCommitted entries)"
| "safe_effect (RoleChanged role t) = Some (DriverRoleChanged role t)"
| "safe_effect (ProposalAppended proposal position) = Some (DriverProposalAppended proposal position)"
| "safe_effect (ReadBarrierReady barrier applied) = Some (DriverReadBarrierReady barrier applied)"
| "safe_effect (Rejected e) = Some (DriverRejected e)"

text \<open>One mutation is made durable and acknowledged to the core, or blocks the driver.\<close>

definition driver_persist ::
  "('st, 'e) persist \<Rightarrow> (bytes \<Rightarrow> bytes) \<Rightarrow> int \<Rightarrow> persistence_id \<Rightarrow> nat \<Rightarrow> durable_mutation \<Rightarrow> 'st driver \<Rightarrow>
     (('e, 'r) driver_error + core_effect list) \<times> 'st driver" where
  "driver_persist persist H persisted_at i epoch mutation d =
     (case persist (dr_persistence d) epoch mutation persisted_at of
        (Inl e, st) \<Rightarrow> (Inl (DriverPersistence e), d\<lparr>dr_persistence := st,
            dr_blocked := Some \<lparr>bp_id = i, bp_epoch = epoch, bp_mutation = mutation\<rparr>\<rparr>)
      | (Inr _, st) \<Rightarrow>
          (case step H (Persisted i) (dr_core d) of
             (Inl e, s) \<Rightarrow> (Inl (DriverCore e), d\<lparr>dr_core := s, dr_persistence := st\<rparr>)
           | (Inr effects, s) \<Rightarrow> (Inr effects, d\<lparr>dr_core := s, dr_persistence := st\<rparr>)))"

text \<open>
  The loop over the pending queue. A persisted mutation puts what the core answers in front of the queue; a
  failed one blocks the driver and leaves the loop.
\<close>

record ('st, 'e, 'r) queue_state =
  qs_pending :: "core_effect list"
  qs_safe :: "driver_effect list"
  qs_failed :: "('e, 'r) driver_error option"
  qs_driver :: "'st driver"

definition process_effect ::
  "('st, 'e) persist \<Rightarrow> (bytes \<Rightarrow> bytes) \<Rightarrow> int \<Rightarrow> ('st, 'e, 'r) queue_state \<Rightarrow> ('st, 'e, 'r) queue_state" where
  "process_effect persist H persisted_at q =
     (case qs_pending q of
        [] \<Rightarrow> q
      | effect # rest \<Rightarrow>
          (case effect of
             Persist i mutation \<Rightarrow>
               (case driver_persist persist H persisted_at i (driver_epoch (qs_driver q)) mutation (qs_driver q) of
                  (Inl e, d) \<Rightarrow> q\<lparr>qs_pending := rest, qs_failed := Some e, qs_driver := d\<rparr>
                | (Inr effects, d) \<Rightarrow> q\<lparr>qs_pending := effects @ rest, qs_driver := d\<rparr>)
           | _ \<Rightarrow> q\<lparr>qs_pending := rest, qs_safe := qs_safe q @ [the (safe_effect effect)]\<rparr>))"

definition process_queue ::
  "('st, 'e) persist \<Rightarrow> (bytes \<Rightarrow> bytes) \<Rightarrow> int \<Rightarrow> ('st, 'e, 'r) queue_state \<Rightarrow> ('st, 'e, 'r) queue_state option" where
  "process_queue persist H persisted_at =
     while_option (\<lambda>q. qs_pending q \<noteq> [] \<and> qs_failed q = None) (process_effect persist H persisted_at)"

definition driver_process ::
  "('st, 'e) persist \<Rightarrow> (bytes \<Rightarrow> bytes) \<Rightarrow> int \<Rightarrow> core_effect list \<Rightarrow> 'st driver \<Rightarrow> ('st, 'e, 'r, driver_effect list) driver_result" where
  "driver_process persist H persisted_at effects d =
     (case process_queue persist H persisted_at \<lparr>qs_pending = effects, qs_safe = [], qs_failed = None, qs_driver = d\<rparr> of
        None \<Rightarrow> None
      | Some q \<Rightarrow> Some (case qs_failed q of Some e \<Rightarrow> Inl e | None \<Rightarrow> Inr (qs_safe q), qs_driver q))"

definition driver_step ::
  "('st, 'e) persist \<Rightarrow> (bytes \<Rightarrow> bytes) \<Rightarrow> core_input \<Rightarrow> int \<Rightarrow> 'st driver \<Rightarrow> ('st, 'e, 'r, driver_effect list) driver_result" where
  "driver_step persist H input persisted_at d =
     (if dr_blocked d \<noteq> None then Some (Inl PersistenceBlocked, d)
      else case step H input (dr_core d) of
          (Inl e, s) \<Rightarrow> Some (Inl (DriverCore e), d\<lparr>dr_core := s\<rparr>)
        | (Inr effects, s) \<Rightarrow> driver_process persist H persisted_at effects (d\<lparr>dr_core := s\<rparr>))"

definition retry_persistence ::
  "('st, 'e) persist \<Rightarrow> (bytes \<Rightarrow> bytes) \<Rightarrow> int \<Rightarrow> 'st driver \<Rightarrow> ('st, 'e, 'r, driver_effect list) driver_result" where
  "retry_persistence persist H persisted_at d =
     (case dr_blocked d of
        None \<Rightarrow> Some (Inl NoBlockedPersistence, d)
      | Some blocked \<Rightarrow>
          (case driver_persist persist H persisted_at (bp_id blocked) (bp_epoch blocked) (bp_mutation blocked)
                  (d\<lparr>dr_blocked := None\<rparr>) of
             (Inl e, d') \<Rightarrow> Some (Inl e, d')
           | (Inr effects, d') \<Rightarrow> driver_process persist H persisted_at effects d'))"

definition driver_set_replication_budgets ::
  "replication_batch_budget \<Rightarrow> (node_id, replication_batch_budget) fmap \<Rightarrow> 'st driver \<Rightarrow> (('e, 'r) driver_error + unit) \<times> 'st driver" where
  "driver_set_replication_budgets default_budget peer_budgets d =
     (case set_replication_budgets default_budget peer_budgets (dr_core d) of
        (Inl e, s) \<Rightarrow> (Inl (DriverCore e), d\<lparr>dr_core := s\<rparr>)
      | (Inr _, s) \<Rightarrow> (Inr (), d\<lparr>dr_core := s\<rparr>))"

record scoped_proposal =
  sp_scope_id :: bytes
  sp_routing_epoch :: nat
  sp_proposal_id :: proposal_id
  sp_operation_id :: operation_id
  sp_command_version :: nat
  sp_command :: bytes

text \<open>Whether the store permits a write of the scope at a route epoch is a parameter.\<close>

definition propose_scoped ::
  "('st \<Rightarrow> bytes \<Rightarrow> nat \<Rightarrow> 'r + bool) \<Rightarrow> ('st, 'e) persist \<Rightarrow> (bytes \<Rightarrow> bytes) \<Rightarrow> scoped_proposal \<Rightarrow> int \<Rightarrow> 'st driver \<Rightarrow>
     ('st, 'e, 'r, driver_effect list) driver_result" where
  "propose_scoped permits persist H proposal persisted_at d =
     (case permits (dr_persistence d) (sp_scope_id proposal) (sp_routing_epoch proposal) of
        Inl e \<Rightarrow> Some (Inl (DriverAuthority e), d)
      | Inr allowed \<Rightarrow>
          if \<not> allowed then Some (Inl WriteFenced, d)
          else driver_step persist H (Propose (sp_proposal_id proposal) (sp_operation_id proposal)
                 (sp_command_version proposal) (sp_command proposal)) persisted_at d)"

definition driver_apply_term_confirmation ::
  "(database, store_error) persist \<Rightarrow> (bytes \<Rightarrow> bytes) \<Rightarrow> log_entry \<Rightarrow> int \<Rightarrow> database driver \<Rightarrow>
     (database, store_error, 'r, driver_effect list) driver_result" where
  "driver_apply_term_confirmation persist H e now d =
     (if \<not> is_term_confirmation e \<or> entry_index e > cr_commit_index (dr_core d) \<or> entry (dr_core d) (entry_index e) \<noteq> Some e
      then Some (Inl InvalidCommittedCommand, d)
      else case apply_term_confirmation H e (dr_persistence d) of
          (Inl err, db) \<Rightarrow> Some (Inl (DriverPersistence err), d\<lparr>dr_persistence := db\<rparr>)
        | (Inr _, db) \<Rightarrow> driver_step persist H (AppliedThrough (entry_index e)) now (d\<lparr>dr_persistence := db\<rparr>))"

end
