(* ===== verification/Store_Recovery.thy ===== *)
theory Store_Recovery
  imports Consensus_Store Core_Log
begin

text \<open>
  What a database records. Loading succeeds exactly when the tables record one durable state of the core, and
  a mutation that the adapter accepts moves the database to the record of the mutated state; one that it
  refuses leaves the database alone.
\<close>

section \<open>Rows and entries\<close>

definition entry_typed :: "log_entry \<Rightarrow> bool" where
  "entry_typed e \<longleftrightarrow> identifier_ok (operation_bytes (le_operation_id e)) \<and> le_command_version e \<le> u16_max"

definition row_of :: "(bytes \<Rightarrow> bytes) \<Rightarrow> log_entry \<Rightarrow> log_row" where
  "row_of H e = \<lparr>lr_index = int (entry_index e), lr_term = int (entry_term e), lr_kind = COMMAND_ENTRY_KIND,
     lr_version = int (le_command_version e), lr_payload = entry_payload e, lr_digest = entry_digest H e\<rparr>"

lemma row_of_simps [simp]:
  "lr_index (row_of H e) = int (entry_index e)" "lr_term (row_of H e) = int (entry_term e)"
  "lr_payload (row_of H e) = entry_payload e" "lr_kind (row_of H e) = COMMAND_ENTRY_KIND"
  "lr_version (row_of H e) = int (le_command_version e)" "lr_digest (row_of H e) = entry_digest H e"
  by (simp_all add: row_of_def)

lemma log_entry_new_sound:
  assumes "log_entry_new H position operation version command = Inr e"
  shows "entry_validate H e = Inr ()" "le_position e = position" "le_operation_id e = operation"
     "le_command_version e = version" "le_command e = command"
proof -
  have c: "e = \<lparr>le_position = position, le_operation_id = operation, le_command_version = version,
      le_command = command, le_command_digest = command_digest H version command\<rparr>"
    "position_valid position" "position \<noteq> GENESIS" "version \<noteq> 0" "\<not> (version = TERM_CONFIRMATION_VERSION \<and> command \<noteq> TERM_CONFIRMATION_BYTES)"
    "length command \<le> MAXIMUM_LOG_ENTRY_BYTES"
    using assms unfolding log_entry_new_def from_shared_command_def by (simp_all split: if_splits)
  then show "entry_validate H e = Inr ()" "le_position e = position" "le_operation_id e = operation"
     "le_command_version e = version" "le_command e = command"
    unfolding entry_validate_def by simp_all
qed

lemma log_entry_new_complete:
  assumes "entry_validate H e = Inr ()"
  shows "log_entry_new H (le_position e) (le_operation_id e) (le_command_version e) (le_command e) = Inr e"
proof -
  have c: "position_valid (le_position e)" "le_position e \<noteq> GENESIS" "le_command_version e \<noteq> 0"
    "\<not> (le_command_version e = TERM_CONFIRMATION_VERSION \<and> le_command e \<noteq> TERM_CONFIRMATION_BYTES)"
    "length (le_command e) \<le> MAXIMUM_LOG_ENTRY_BYTES" "le_command_digest e = command_digest H (le_command_version e) (le_command e)"
    using assms unfolding entry_validate_def by (simp_all split: if_splits)
  then show ?thesis unfolding log_entry_new_def from_shared_command_def by (simp flip: c(6))
qed

lemma stored_operation_id_iff:
  "stored_operation_id bs = Inr operation \<longleftrightarrow> identifier_ok bs \<and> operation = OperationId bs"
  by (auto simp: stored_operation_id_def validate_identifier_def identifier_ok_def)

lemma stored_node_id_iff: "stored_node_id e bs = Inr v \<longleftrightarrow> identifier_ok bs \<and> v = NodeId bs"
  by (auto simp: stored_node_id_def node_id_from_bytes_def validate_identifier_def identifier_ok_def)

lemma u64_conversions:
  "nonnegative_u64 e v = Inr n \<longleftrightarrow> v = int n" "positive_u64 e v = Inr n \<longleftrightarrow> v = int n \<and> 0 < n"
  "to_i64 e n = Inr v \<longleftrightarrow> n \<le> i64_max \<and> v = int n"
  by (auto simp: nonnegative_u64_def positive_u64_def to_i64_def split: if_splits)

text \<open>One row is decoded to an entry exactly when it is the row of that entry.\<close>

lemma decode_row_sound:
  assumes "decode_row H r = Inr e" "lr_kind r = COMMAND_ENTRY_KIND"
  shows "r = row_of H e" "entry_validate H e = Inr ()" "entry_typed e"
proof -
  obtain operation t index where d: "stored_operation_id (take 16 (lr_payload r)) = Inr operation"
    "positive_u64 CorruptState (lr_term r) = Inr t" "positive_u64 CorruptState (lr_index r) = Inr index"
    "0 \<le> lr_version r" "lr_version r \<le> int u16_max"
    "log_entry_new H \<lparr>pos_term = t, pos_index = index\<rparr> operation (nat (lr_version r)) (drop 16 (lr_payload r)) = Inr e"
    "lr_digest r = entry_digest H e"
    using assms(1) unfolding decode_row_def by (simp add: try_r_Inr map_err_Inr split: if_splits)
  note op = d(1)[unfolded stored_operation_id_iff] and tm = d(2)[unfolded u64_conversions] and ix = d(3)[unfolded u64_conversions]
    and new = log_entry_new_sound[OF d(6)]
  show "entry_validate H e = Inr ()" using new by simp
  show "entry_typed e" using new op d(4,5) by (simp add: entry_typed_def)
  have p: "entry_payload e = lr_payload r" using op new by (simp add: entry_payload_def)
  have "lr_index (row_of H e) = lr_index r" using ix new by simp
  moreover have "lr_term (row_of H e) = lr_term r" using tm new by simp
  moreover have "lr_version (row_of H e) = lr_version r" using new d(4) by simp
  ultimately show "r = row_of H e" using p assms(2) d(7) by (simp add: row_of_def)
qed

lemma decode_row_complete:
  assumes v: "entry_validate H e = Inr ()" and t: "entry_typed e"
  shows "decode_row H (row_of H e) = Inr e"
proof -
  have "length (operation_bytes (le_operation_id e)) = 16" using t by (simp add: entry_typed_def identifier_ok_def)
  then have p: "take 16 (entry_payload e) = operation_bytes (le_operation_id e)" "drop 16 (entry_payload e) = le_command e"
    by (simp_all add: entry_payload_def)
  have "log_entry_new H \<lparr>pos_term = entry_term e, pos_index = entry_index e\<rparr> (le_operation_id e) (le_command_version e) (le_command e) = Inr e"
    using log_entry_new_complete[OF v] by (cases "le_position e") simp
  moreover have "stored_operation_id (operation_bytes (le_operation_id e)) = Inr (le_operation_id e)"
    using t by (simp add: stored_operation_id_iff entry_typed_def)
  moreover have "positive_u64 CorruptState (int (entry_term e)) = Inr (entry_term e)"
    "positive_u64 CorruptState (int (entry_index e)) = Inr (entry_index e)"
    using entry_validate_position[OF v] by (simp_all add: u64_conversions)
  moreover have "0 \<le> int (le_command_version e) \<and> int (le_command_version e) \<le> int u16_max" using t by (simp add: entry_typed_def)
  ultimately show ?thesis by (simp only: decode_row_def row_of_simps p try_r.simps map_err.simps if_True nat_int simp_thms if_False)
qed

definition payload_sum :: "log_entry list \<Rightarrow> nat" where
  "payload_sum es = sum_list (map (\<lambda>e. length (entry_payload e)) es)"

lemma payload_total_rows [simp]: "payload_total (map (row_of H) es) = payload_sum es"
  by (simp add: payload_total_def payload_sum_def o_def)

lemma payload_total_append [simp]: "payload_total (xs @ ys) = payload_total xs + payload_total ys"
  by (simp add: payload_total_def)

lemma payload_sum_simps [simp]: "payload_sum [] = 0" "payload_sum (e # es) = length (entry_payload e) + payload_sum es"
  "payload_sum (xs @ ys) = payload_sum xs + payload_sum ys"
  by (simp_all add: payload_sum_def)

abbreviation decodable :: "(bytes \<Rightarrow> bytes) \<Rightarrow> log_entry list \<Rightarrow> bool" where
  "decodable H es \<equiv> (\<forall>e \<in> set es. entry_validate H e = Inr () \<and> entry_typed e)"

lemma recovery_bounds: "MAXIMUM_RECOVERED_LOG_BYTES \<le> i64_max" "MAXIMUM_RECOVERED_LOG_ENTRIES \<le> i64_max" "i64_max < u64_max"
  by (simp_all add: MAXIMUM_RECOVERED_LOG_BYTES_def MAXIMUM_RECOVERED_LOG_ENTRIES_def i64_max_def u64_max_def)

lemma load_rows_Cons:
  "load_rows H (r # rs) t log = Inr log' \<longleftrightarrow>
     length log \<noteq> MAXIMUM_RECOVERED_LOG_ENTRIES \<and> t + length (lr_payload r) \<le> MAXIMUM_RECOVERED_LOG_BYTES \<and>
     lr_kind r = COMMAND_ENTRY_KIND \<and> 16 \<le> length (lr_payload r) \<and>
     (\<exists>e. decode_row H r = Inr e \<and> load_rows H rs (t + length (lr_payload r)) (log @ [e]) = Inr log')"
proof (cases "t + length (lr_payload r) \<le> MAXIMUM_RECOVERED_LOG_BYTES")
  case True
  then have "checked_add u64_max t (length (lr_payload r)) = Some (t + length (lr_payload r))"
    using recovery_bounds unfolding checked_add_def by simp
  then show ?thesis using True by (auto simp: try_r_Inr ok_or_Inr split: if_splits)
next
  case False
  then show ?thesis by (cases "checked_add u64_max t (length (lr_payload r))") (simp_all add: checked_add_def split: if_splits)
qed

lemma load_rows_iff:
  assumes "length log \<le> MAXIMUM_RECOVERED_LOG_ENTRIES" "t \<le> MAXIMUM_RECOVERED_LOG_BYTES"
  shows "load_rows H rs t log = Inr log' \<longleftrightarrow>
    (\<exists>es. log' = log @ es \<and> rs = map (row_of H) es \<and> decodable H es \<and>
       length log + length es \<le> MAXIMUM_RECOVERED_LOG_ENTRIES \<and> t + payload_sum es \<le> MAXIMUM_RECOVERED_LOG_BYTES)"
  using assms
proof (induction rs arbitrary: t log)
  case (Cons r rs)
  let ?t = "t + length (lr_payload r)"
  show ?case (is "?lhs \<longleftrightarrow> ?rhs")
  proof
    assume ?lhs
    from this[unfolded load_rows_Cons] obtain e where 1: "length log \<noteq> MAXIMUM_RECOVERED_LOG_ENTRIES"
      "?t \<le> MAXIMUM_RECOVERED_LOG_BYTES" "lr_kind r = COMMAND_ENTRY_KIND" "16 \<le> length (lr_payload r)"
      "decode_row H r = Inr e" "load_rows H rs ?t (log @ [e]) = Inr log'" by blast
    have "length (log @ [e]) \<le> MAXIMUM_RECOVERED_LOG_ENTRIES" using 1(1) Cons.prems(1) by simp
    from 1(6)[unfolded Cons.IH[OF this 1(2)]] obtain es where "log' = (log @ [e]) @ es" "rs = map (row_of H) es" "decodable H es"
      "length (log @ [e]) + length es \<le> MAXIMUM_RECOVERED_LOG_ENTRIES" "?t + payload_sum es \<le> MAXIMUM_RECOVERED_LOG_BYTES" by blast
    moreover have "r = row_of H e" "entry_validate H e = Inr ()" "entry_typed e" using decode_row_sound[OF 1(5,3)] by blast+
    ultimately show ?rhs by (intro exI[of _ "e # es"]) simp
  next
    assume ?rhs
    then obtain e es where e: "log' = log @ e # es" "r = row_of H e" "rs = map (row_of H) es" "decodable H (e # es)"
      "length log + Suc (length es) \<le> MAXIMUM_RECOVERED_LOG_ENTRIES" "t + length (entry_payload e) + payload_sum es \<le> MAXIMUM_RECOVERED_LOG_BYTES"
      by (auto simp: Cons_eq_map_conv)
    have k: "lr_kind r = COMMAND_ENTRY_KIND" "16 \<le> length (lr_payload r)"
      using e(2,4) by (simp_all add: entry_payload_def entry_typed_def identifier_ok_def)
    have d: "decode_row H r = Inr e" using decode_row_complete e(2,4) by simp
    have b: "?t \<le> MAXIMUM_RECOVERED_LOG_BYTES" "length log \<noteq> MAXIMUM_RECOVERED_LOG_ENTRIES" using e(2,5,6) by simp_all
    have "length (log @ [e]) \<le> MAXIMUM_RECOVERED_LOG_ENTRIES" using e(5) by simp
    from Cons.IH[OF this b(1)] have "load_rows H rs ?t (log @ [e]) = Inr log'" using e by simp
    then show ?lhs unfolding load_rows_Cons using k b d by blast
  qed
qed auto

section \<open>What a database records\<close>

definition accounted :: "database \<Rightarrow> bool" where
  "accounted db \<longleftrightarrow>
     (\<exists>revision \<ge> 0. db_accounting db = Some \<lparr>ar_entries = int (length (db_log db)), ar_bytes = int (payload_total (db_log db)),
        ar_revision = revision, ar_version = 1\<rparr>) \<and>
     length (db_log db) \<le> MAXIMUM_RECOVERED_LOG_ENTRIES \<and> payload_total (db_log db) \<le> MAXIMUM_RECOVERED_LOG_BYTES"

definition vote_recorded :: "database \<Rightarrow> nat \<Rightarrow> nat \<Rightarrow> node_id option \<Rightarrow> bool" where
  "vote_recorded db epoch t vote \<longleftrightarrow>
     (case db_vote db of
        None \<Rightarrow> t = 0 \<and> vote = None
      | Some row \<Rightarrow> row = \<lparr>vr_partition = db_partition db, vr_term = int t, vr_voted_for = map_option node_bytes vote, vr_epoch = int epoch\<rparr> \<and>
          (\<forall>v. vote = Some v \<longrightarrow> identifier_ok (node_bytes v) \<and> 0 < t))"

definition terms_rise :: "nat \<Rightarrow> log_entry list \<Rightarrow> bool" where
  "terms_rise t es \<longleftrightarrow> sorted (map entry_term es) \<and> (\<forall>e \<in> set es. entry_term e \<le> t)"

definition applied_recorded :: "database \<Rightarrow> log_entry list \<Rightarrow> nat \<Rightarrow> bool" where
  "applied_recorded db log k \<longleftrightarrow>
     db_applied_index db = int k \<and> k \<le> length log \<and> 0 \<le> db_applied_term db \<and>
     (0 < k \<longrightarrow> int (entry_term (log ! (k - 1))) = db_applied_term db)"

definition records :: "(bytes \<Rightarrow> bytes) \<Rightarrow> database \<Rightarrow> nat \<Rightarrow> durable_core_state \<Rightarrow> bool" where
  "records H db epoch d \<longleftrightarrow>
     \<not> db_recovery_pending db \<and> 0 < epoch \<and> verify_epoch H db epoch = Inr () \<and>
     accounted db \<and> vote_recorded db epoch (dur_current_term d) (dur_voted_for d) \<and>
     db_log db = map (row_of H) (dur_log d) \<and> decodable H (dur_log d) \<and> log_ok H (dur_log d) \<and>
     terms_rise (dur_current_term d) (dur_log d) \<and> applied_recorded db (dur_log d) (dur_applied_index d)"

lemma accounting_verify_iff: "accounting_verify db = Inr () \<longleftrightarrow> accounted db"
proof (cases "db_accounting db")
  case (Some row)
  then show ?thesis by (cases row) (auto simp: accounting_verify_def accounted_def)
qed (simp add: accounting_verify_def accounted_def)

lemma validate_recovered_loop_iff:
  assumes "p + length es < u64_max"
  shows "validate_recovered_loop t (Suc p) previous es = Inr n \<longleftrightarrow>
    n = Suc (p + length es) \<and> (\<forall>i < length es. entry_index (es ! i) = Suc (p + i)) \<and>
    sorted (previous # map entry_term es) \<and> (\<forall>e \<in> set es. entry_term e \<le> t)"
  using assms
proof (induction es arbitrary: p previous)
  case (Cons e es)
  have c: "checked_add u64_max (Suc p) 1 = Some (Suc (Suc p))" using Cons.prems by simp
  have all: "(\<forall>i < length (e # es). entry_index ((e # es) ! i) = Suc (p + i)) \<longleftrightarrow>
      entry_index e = Suc p \<and> (\<forall>i < length es. entry_index (es ! i) = Suc (Suc p + i))"
    by (auto simp: less_Suc_eq_0_disj)
  have "validate_recovered_loop t (Suc p) previous (e # es) = Inr n \<longleftrightarrow>
      entry_index e = Suc p \<and> previous \<le> entry_term e \<and> entry_term e \<le> t \<and> validate_recovered_loop t (Suc (Suc p)) (entry_term e) es = Inr n"
    unfolding validate_recovered_loop.simps c ok_or.simps try_r.simps
    by (cases "entry_index e = Suc p"; cases "previous \<le> entry_term e"; cases "entry_term e \<le> t") simp_all
  also have "\<dots> \<longleftrightarrow> entry_index e = Suc p \<and> previous \<le> entry_term e \<and> entry_term e \<le> t \<and>
      n = Suc (Suc p + length es) \<and> (\<forall>i < length es. entry_index (es ! i) = Suc (Suc p + i)) \<and>
      sorted (entry_term e # map entry_term es) \<and> (\<forall>e \<in> set es. entry_term e \<le> t)"
    using Cons.IH[of "Suc p" "entry_term e"] Cons.prems by simp
  finally show ?case unfolding all sorted2 list.map by auto
qed auto

lemma log_ok_indices:
  assumes "decodable H log" "length log \<le> u64_max"
  shows "log_ok H log \<longleftrightarrow> (\<forall>i < length log. entry_index (log ! i) = Suc i)"
  using assms by (auto simp: log_ok_def)

lemma load_log_iff:
  assumes "accounted db"
  shows "load_log H db = Inr log \<longleftrightarrow> db_log db = map (row_of H) log \<and> decodable H log"
proof -
  have "take (MAXIMUM_RECOVERED_LOG_ENTRIES + 1) (db_log db) = db_log db" using assms by (simp add: accounted_def)
  then show ?thesis
    using assms load_rows_iff[of "[]" 0 H "db_log db" log]
    by (auto simp: load_log_def accounted_def)
qed

definition read_vote :: "database \<Rightarrow> nat \<Rightarrow> store_error + nat \<times> node_id option" where
  "read_vote db epoch =
     (case db_vote db of
        None \<Rightarrow> Inr (0, None)
      | Some row \<Rightarrow>
          if vr_partition row \<noteq> db_partition db then Inl MembershipEpochMismatch
          else try_r (positive_u64 CorruptState (vr_epoch row)) (\<lambda>stored_epoch.
            if stored_epoch \<noteq> epoch then Inl MembershipEpochMismatch
            else try_r (nonnegative_u64 CorruptState (vr_term row)) (\<lambda>t.
                 try_r (case vr_voted_for row of None \<Rightarrow> Inr None
                        | Some bs \<Rightarrow> try_r (stored_node_id CorruptState bs) (\<lambda>v. Inr (Some v))) (\<lambda>voted_for.
                 if t = 0 \<and> voted_for \<noteq> None then Inl CorruptState else Inr (t, voted_for)))))"

lemma read_vote_iff:
  assumes "0 < epoch"
  shows "read_vote db epoch = Inr (t, vote) \<longleftrightarrow> vote_recorded db epoch t vote"
proof (cases "db_vote db")
  case (Some row)
  obtain part u bs ep where row: "row = \<lparr>vr_partition = part, vr_term = u, vr_voted_for = bs, vr_epoch = ep\<rparr>"
    by (cases row)
  have id: "stored_node_id CorruptState b = Inr v \<longleftrightarrow> b = node_bytes v \<and> identifier_ok (node_bytes v)" for b v
    by (auto simp: stored_node_id_iff)
  show ?thesis
    using Some row assms
    by (cases bs; cases vote) (auto simp: read_vote_def vote_recorded_def try_r_Inr u64_conversions id split: if_splits)
qed (auto simp: read_vote_def vote_recorded_def)

lemma load_state_iff: "load_state H db epoch = Inr d \<longleftrightarrow> records H db epoch d"
proof -
  let ?k = "dur_applied_index d" and ?log = "dur_log d" and ?t = "dur_current_term d"
  have applied: "applied_recorded db log k \<longleftrightarrow> k \<le> length log \<and> (\<exists>u. db_applied_index db = int k \<and> db_applied_term db = int u \<and>
      \<not> (0 < k \<and> (case get_opt log (k - 1) of None \<Rightarrow> True | Some e \<Rightarrow> entry_term e \<noteq> u)))" for log k
  proof (cases "0 \<le> db_applied_term db")
    case True
    then obtain u where "db_applied_term db = int u" using zero_le_imp_eq_int by blast
    then show ?thesis by (auto simp: applied_recorded_def get_opt_def)
  qed (auto simp: applied_recorded_def)
  have valid: "validate_recovered_state d = Inr () \<longleftrightarrow>
      (\<forall>i < length ?log. entry_index (?log ! i) = Suc i) \<and> terms_rise ?t ?log \<and> ?k \<le> length ?log" if "length ?log < u64_max"
    using validate_recovered_loop_iff[of 0 ?log ?t 0] that
    by (auto simp: validate_recovered_state_def try_r_Inr terms_rise_def less_Suc_eq_le split: if_splits)
  have zero: "terms_rise 0 log \<Longrightarrow> decodable H log \<Longrightarrow> log = []" for log
    using entry_validate_position[of H "hd log"] by (cases log) (auto simp: terms_rise_def)
  have len: "length ?log < u64_max" if "accounted db" "db_log db = map (row_of H) ?log"
    using that recovery_bounds by (simp add: accounted_def)
  define tail where "tail u \<longleftrightarrow> db_applied_index db = int ?k \<and> db_applied_term db = int u \<and>
      \<not> (0 < ?k \<and> (case get_opt ?log (?k - 1) of None \<Rightarrow> True | Some e \<Rightarrow> entry_term e \<noteq> u))" for u
  have "load_state_from_connection H db epoch = Inr d \<longleftrightarrow>
      accounting_verify db = Inr () \<and> read_vote db epoch = Inr (?t, dur_voted_for d) \<and> load_log H db = Inr ?log \<and>
      \<not> (?t = 0 \<and> ?log \<noteq> []) \<and> (\<exists>u. tail u) \<and> validate_recovered_state d = Inr ()" (is "?lhs \<longleftrightarrow> ?rhs")
  proof
    assume ?lhs
    then show ?rhs unfolding load_state_from_connection_def read_vote_def[symmetric] tail_def
      by (auto simp: try_r_Inr u64_conversions Let_def split: if_splits)
  next
    assume rhs: ?rhs
    then obtain u where "tail u" by blast
    then have u: "nonnegative_u64 CorruptState (db_applied_index db) = Inr ?k" "nonnegative_u64 CorruptState (db_applied_term db) = Inr u"
      "\<not> (0 < ?k \<and> (case get_opt ?log (?k - 1) of None \<Rightarrow> True | Some e \<Rightarrow> entry_term e \<noteq> u))"
      by (simp_all add: u64_conversions tail_def)
    have z: "\<not> (?t = 0 \<and> ?log \<noteq> [])" using rhs by blast
    have eta: "\<lparr>dur_current_term = ?t, dur_voted_for = dur_voted_for d, dur_log = ?log, dur_applied_index = ?k\<rparr> = d" by (cases d) simp
    have "accounting_verify db = Inr ()" "read_vote db epoch = Inr (?t, dur_voted_for d)" "load_log H db = Inr ?log" "validate_recovered_state d = Inr ()"
      using rhs by simp_all
    then show ?lhs unfolding load_state_from_connection_def read_vote_def[symmetric]
      by (simp only: try_r.simps prod.case if_not_P[OF z] u(1,2) if_not_P[OF u(3)] Let_def eta)
  qed
  then show ?thesis
    unfolding load_state_def records_def require_admitted_def
    using applied[of ?log ?k, folded tail_def] valid zero len log_ok_indices[where H = H and log = ?log] read_vote_iff[of epoch db ?t "dur_voted_for d"]
      load_log_iff[of db H ?log] accounting_verify_iff[of db]
    by (auto simp: try_r_Inr)
qed

section \<open>The active plan outlives log mutations\<close>

text \<open>The plan was activated at a position that is applied, so no truncation reaches it.\<close>

definition anchored :: "database \<Rightarrow> bool" where
  "anchored db \<longleftrightarrow> (\<forall>row. db_plan db = Some row \<longrightarrow> pr_index row \<le> db_applied_index db)"

lemma find_filter: "(\<And>x. x \<in> set xs \<Longrightarrow> P x \<Longrightarrow> Q x) \<Longrightarrow> find P (filter Q xs) = find P xs"
  by (induction xs) auto

lemma load_plan_kept:
  assumes same: "db_plan db' = db_plan db" "db_partition db' = db_partition db" "db_recovery_origin db' = db_recovery_origin db"
    and anchor: "\<And>row. db_plan db = Some row \<Longrightarrow> pr_index row \<le> k"
    and log: "\<And>r. lr_index r \<le> k \<Longrightarrow> r \<in> set (db_log db') \<longleftrightarrow> r \<in> set (db_log db)"
    and history: "\<And>i. i \<le> k \<Longrightarrow> find (\<lambda>p. ph_index p = i) (db_plan_history db') = find (\<lambda>p. ph_index p = i) (db_plan_history db)"
  shows "load_plan H db' = load_plan H db"
proof (cases "db_plan db")
  case (Some row)
  have k: "pr_index row \<le> k" using anchor Some by blast
  have entry: "verify_transition_entry db' position = verify_transition_entry db position" if "int (pos_index position) \<le> k" for position
  proof -
    have "list_ex (\<lambda>r. lr_index r = int (pos_index position) \<and> lr_term r = t) (db_log db') =
        list_ex (\<lambda>r. lr_index r = int (pos_index position) \<and> lr_term r = t) (db_log db)" for t
      using log that by (auto simp: list_ex_iff)
    then show ?thesis by (auto simp: verify_transition_entry_def to_i64_def)
  qed
  have hist: "verify_transition_history db' position active = verify_transition_history db position active"
    if "int (pos_index position) \<le> k" for position active
    using history[OF that] by (simp add: verify_transition_history_def to_i64_def)
  have header: "valid_stored_header db' row active = valid_stored_header db row active" for active
    using same(2) by (simp add: valid_stored_header_def)
  have index: "int (pos_index position) \<le> k" if "valid_stored_header db row active = Inr position" for active position
    using that k by (auto simp: valid_stored_header_def try_r_Inr u64_conversions split: if_splits)
  have origin: "verify_quorum_origin db' active position = verify_quorum_origin db active position" for active position
    using same(3) by (simp add: verify_quorum_origin_def)
  show ?thesis
    unfolding load_plan_def same(1) Some header option.case
    by (rule try_r_cong[OF refl], rule try_r_cong[OF refl]) (simp add: entry[OF index] hist[OF index] origin)
qed (simp add: load_plan_def same)

lemma verify_epoch_kept: "load_plan H db' = load_plan H db \<Longrightarrow> verify_epoch H db' epoch = verify_epoch H db epoch"
  by (simp add: verify_epoch_def)

section \<open>Log rows under a mutation\<close>

lemma insort_key_last: "\<forall>r \<in> set rows. f r < f x \<Longrightarrow> insort_key f x rows = rows @ [x]" for f :: "'a \<Rightarrow> int"
  by (induction rows) auto

lemma rows_below:
  assumes "log_ok H log" "r \<in> set (map (row_of H) log)"
  shows "lr_index r \<le> int (length log)"
  using assms by (auto simp: log_ok_def in_set_conv_nth)

lemma insert_log_row_Inr:
  assumes "insert_log_row (row_of H e) db = Inr db'" "db_log db = map (row_of H) log" "log_ok H log" "entry_index e = Suc (length log)"
  shows "db' = db\<lparr>db_log := map (row_of H) (log @ [e])\<rparr>"
proof -
  have "insort_key lr_index (row_of H e) (db_log db) = db_log db @ [row_of H e]"
    by (rule insort_key_last, rule ballI) (use rows_below[OF assms(3)] assms(2,4) in fastforce)
  then show ?thesis using assms(1,2) by (auto simp: insert_log_row_def split: if_splits)
qed

definition add_entries :: "log_entry list \<Rightarrow> accounting \<Rightarrow> accounting" where
  "add_entries es a = a\<lparr>acc_entry_count := acc_entry_count a + length es, acc_payload_bytes := acc_payload_bytes a + payload_sum es\<rparr>"

lemma with_payload_Inr:
  "with_payload (length (entry_payload e)) a = Inr a' \<Longrightarrow> a' = add_entries [e] a"
  by (auto simp: with_payload_def add_entries_def try_r_Inr ok_or_Inr Let_def)

lemma append_rows_Cons:
  assumes "append_rows H (e # es) expected previous next db = Inr out"
  shows "\<exists>next1 db1. entry_index e = expected \<and> previous \<le> entry_term e \<and> with_payload (length (entry_payload e)) next = Inr next1 \<and>
    insert_log_row (row_of H e) db = Inr db1 \<and> append_rows H es (Suc expected) (entry_term e) next1 db1 = Inr out"
  using assms by (auto simp: try_r_Inr ok_or_Inr u64_conversions row_of_def split: if_splits)

lemma append_rows_Inr:
  assumes "append_rows H es (Suc (length log)) previous next db = Inr (next', db')" "db_log db = map (row_of H) log" "log_ok H log"
    "\<forall>e \<in> set es. entry_validate H e = Inr ()" "length log + length es \<le> u64_max"
  shows "db' = db\<lparr>db_log := map (row_of H) (log @ es)\<rparr>" "next' = add_entries es next" "log_ok H (log @ es)"
    "sorted (previous # map entry_term es)"
proof -
  have "db' = db\<lparr>db_log := map (row_of H) (log @ es)\<rparr> \<and> next' = add_entries es next \<and> log_ok H (log @ es) \<and> sorted (previous # map entry_term es)"
    using assms
  proof (induction es arbitrary: log previous "next" db)
    case (Cons e es)
    from append_rows_Cons[OF Cons.prems(1)] obtain next1 db1 where c: "entry_index e = Suc (length log)" "previous \<le> entry_term e"
      "with_payload (length (entry_payload e)) next = Inr next1" "insert_log_row (row_of H e) db = Inr db1"
      "append_rows H es (Suc (length (log @ [e]))) (entry_term e) next1 db1 = Inr (next', db')" by auto
    note db1 = insert_log_row_Inr[OF c(4) Cons.prems(2,3) c(1)]
    have "log_ok H (log @ [e])" using Cons.prems(3,4,5) c(1) by (auto simp: log_ok_def nth_append less_Suc_eq)
    from Cons.IH[OF c(5) _ this] have "db' = db1\<lparr>db_log := map (row_of H) ((log @ [e]) @ es)\<rparr>" "next' = add_entries es next1"
      "log_ok H ((log @ [e]) @ es)" "sorted (entry_term e # map entry_term es)"
      using Cons.prems(4,5) db1 by simp_all
    then show ?case using c(2) db1 with_payload_Inr[OF c(3)] by (auto simp: add_entries_def)
  qed (simp add: add_entries_def)
  then show "db' = db\<lparr>db_log := map (row_of H) (log @ es)\<rparr>" "next' = add_entries es next" "log_ok H (log @ es)"
    "sorted (previous # map entry_term es)" by blast+
qed

lemma truncated_rows:
  assumes "log_ok H log" "0 < k"
  shows "filter (\<lambda>r. lr_index r < int k) (map (row_of H) log) = map (row_of H) (take (k - 1) log)"
    "payload_total (filter (\<lambda>r. int k \<le> lr_index r) (map (row_of H) log)) = payload_sum (drop (k - 1) log)"
    "length (filter (\<lambda>r. int k \<le> lr_index r) (map (row_of H) log)) = length (drop (k - 1) log)"
proof -
  have keep: "filter (\<lambda>e. entry_index e < k) log = take (k - 1) log" by (rule filter_below_take[OF assms])
  have "filter (\<lambda>e. k \<le> entry_index e) (take (k - 1) log @ drop (k - 1) log) = drop (k - 1) log"
  proof -
    have "filter (\<lambda>e. k \<le> entry_index e) (take (k - 1) log) = []"
      using assms by (auto simp: log_ok_def filter_empty_conv in_set_conv_nth)
    moreover have "filter (\<lambda>e. k \<le> entry_index e) (drop (k - 1) log) = drop (k - 1) log"
      using assms by (auto simp: log_ok_def filter_id_conv in_set_conv_nth)
    ultimately show ?thesis by (simp only: filter_append append_Nil)
  qed
  then have drop: "filter (\<lambda>e. k \<le> entry_index e) log = drop (k - 1) log" by simp
  have "filter (\<lambda>r. lr_index r < int k) (map (row_of H) log) = map (row_of H) (filter (\<lambda>e. entry_index e < k) log)"
    "filter (\<lambda>r. int k \<le> lr_index r) (map (row_of H) log) = map (row_of H) (filter (\<lambda>e. k \<le> entry_index e) log)"
    by (simp_all add: filter_map o_def)
  then show "filter (\<lambda>r. lr_index r < int k) (map (row_of H) log) = map (row_of H) (take (k - 1) log)"
    "payload_total (filter (\<lambda>r. int k \<le> lr_index r) (map (row_of H) log)) = payload_sum (drop (k - 1) log)"
    "length (filter (\<lambda>r. int k \<le> lr_index r) (map (row_of H) log)) = length (drop (k - 1) log)"
    unfolding keep drop by simp_all
qed

text \<open>The accounting that matches a log.\<close>

definition accounts_for :: "accounting \<Rightarrow> log_entry list \<Rightarrow> bool" where
  "accounts_for a log \<longleftrightarrow> acc_entry_count a = length log \<and> acc_payload_bytes a = payload_sum log"

lemma payload_sum_split: "payload_sum (take k log) + payload_sum (drop k log) = payload_sum log"
  by (metis append_take_drop_id payload_sum_simps(3))

lemma delete_suffix_Inr:
  assumes "delete_suffix prior k db = Inr (next, db')" "db_log db = map (row_of H) log" "log_ok H log" "0 < k" "accounts_for prior log"
  shows "accounts_for next (take (k - 1) log)" "acc_revision next = acc_revision prior"
    "db' = db\<lparr>db_log := map (row_of H) (take (k - 1) log), db_plan_history := filter (\<lambda>p. ph_index p < int k) (db_plan_history db)\<rparr>"
proof -
  note t = truncated_rows[OF assms(3,4)]
  have "next = prior\<lparr>acc_entry_count := acc_entry_count prior - length (drop (k - 1) log),
      acc_payload_bytes := acc_payload_bytes prior - payload_sum (drop (k - 1) log)\<rparr>"
    "db' = db\<lparr>db_log := map (row_of H) (take (k - 1) log), db_plan_history := filter (\<lambda>p. ph_index p < int k) (db_plan_history db)\<rparr>"
    using assms(1) unfolding delete_suffix_def Let_def
    by (auto simp: try_r_Inr ok_or_Inr u64_conversions checked_sub_def assms(2) t t(3)[unfolded filter_map length_map] split: if_splits)
  then show "accounts_for next (take (k - 1) log)" "acc_revision next = acc_revision prior"
    "db' = db\<lparr>db_log := map (row_of H) (take (k - 1) log), db_plan_history := filter (\<lambda>p. ph_index p < int k) (db_plan_history db)\<rparr>"
    using assms(5) payload_sum_split[of "k - 1" log] by (auto simp: accounts_for_def)
qed

lemma accounting_read_Inr:
  assumes "accounting_read db = Inr a" "accounted db" "db_log db = map (row_of H) log"
  shows "accounts_for a log" "0 \<le> acc_revision a"
  using assms by (auto simp: accounting_read_def accounted_def accounts_for_def try_r_Inr u64_conversions Let_def)

lemma accounting_store_Inr:
  assumes "accounting_store prior next db = Inr db'" "accounting_read db0 = Inr prior" "db_accounting db = db_accounting db0"
    "acc_revision next = acc_revision prior" "accounts_for next log" "db_log db = map (row_of H) log"
  shows "\<exists>row. db' = db\<lparr>db_accounting := row\<rparr>" "accounted db'"
proof -
  have b: "acc_entry_count next \<le> MAXIMUM_RECOVERED_LOG_ENTRIES" "acc_payload_bytes next \<le> MAXIMUM_RECOVERED_LOG_BYTES"
    using assms(1) by (auto simp: accounting_store_def require_bounds_def try_r_Inr split: if_splits)
  have row: "db_accounting db = Some \<lparr>ar_entries = int (acc_entry_count prior), ar_bytes = int (acc_payload_bytes prior),
      ar_revision = acc_revision prior, ar_version = 1\<rparr>" "0 \<le> acc_revision prior"
    using assms(2,3) by (auto simp: accounting_read_def try_r_Inr u64_conversions Let_def split: option.splits if_splits)
  have "\<exists>row. db' = db\<lparr>db_accounting := row\<rparr> \<and> accounted db'"
  proof (cases "next = prior")
    case True
    then have "db' = db" using assms(1) by (auto simp: accounting_store_def try_r_Inr)
    then show ?thesis using row True b assms(5,6) by (intro exI[of _ "db_accounting db"]) (auto simp: accounted_def accounts_for_def)
  next
    case False
    then have "db' = db\<lparr>db_accounting := Some \<lparr>ar_entries = int (acc_entry_count next), ar_bytes = int (acc_payload_bytes next),
                   ar_revision = acc_revision prior + 1, ar_version = 1\<rparr>\<rparr>"
      using assms(1) by (auto simp: accounting_store_def try_r_Inr u64_conversions split: if_splits)
    then show ?thesis using row(2) b assms(5,6) by (auto simp: accounted_def accounts_for_def)
  qed
  then show "\<exists>row. db' = db\<lparr>db_accounting := row\<rparr>" "accounted db'" by blast+
qed

lemma last_log_index:
  assumes "db_log db = map (row_of H) log" "log_ok H log"
  shows "read_last_log_index db = Inr (length log)"
  using assms by (auto simp: read_last_log_index_def last_opt_def last_map last_conv_nth log_ok_def nonnegative_u64_def)

lemma last_log_term:
  assumes "db_log db = map (row_of H) log" "read_last_log_term db = Inr t"
  shows "t = (if log = [] then 0 else entry_term (last log))"
  using assms by (auto simp: read_last_log_term_def last_opt_def last_map u64_conversions split: if_splits)

text \<open>What a mutation leaves of the log before the new entries.\<close>

definition kept_log :: "durable_mutation \<Rightarrow> log_entry list \<Rightarrow> log_entry list" where
  "kept_log m log = (case mut_truncate_from m of None \<Rightarrow> log | Some k \<Rightarrow> take (k - 1) log)"

lemma mutated_log_kept: "mutated_log (mut_truncate_from m) (mut_append m) log = kept_log m log @ mut_append m"
  by (simp add: mutated_log_def kept_log_def)

lemma sorted_joined:
  fixes f :: "'a \<Rightarrow> nat"
  assumes "sorted (map f xs)" "sorted (map f ys)" "xs \<noteq> [] \<Longrightarrow> ys \<noteq> [] \<Longrightarrow> f (last xs) \<le> f (hd ys)"
  shows "sorted (map f (xs @ ys))"
proof -
  have "f x \<le> f y" if "x \<in> set xs" "y \<in> set ys" for x y
  proof -
    have ne: "xs \<noteq> []" "ys \<noteq> []" using that by auto
    have "sorted (map f (butlast xs @ [last xs]))" "x \<in> set (butlast xs @ [last xs])" using assms(1) that(1) ne(1) by simp_all
    then have "f x \<le> f (last xs)" by (auto simp: sorted_append)
    also have "\<dots> \<le> f (hd ys)" by (rule assms(3)[OF ne])
    also have "\<dots> \<le> f y" using assms(2) that(2) ne(2) by (cases ys) auto
    finally show ?thesis .
  qed
  then show ?thesis using assms(1,2) by (auto simp: sorted_append)
qed

lemma append_rows_bound:
  "append_rows H es expected previous next db = Inr out \<Longrightarrow> es = [] \<or> acc_entry_count next + length es \<le> MAXIMUM_RECOVERED_LOG_ENTRIES"
proof (induction es arbitrary: expected previous "next" db)
  case (Cons e es)
  from append_rows_Cons[OF Cons.prems] obtain next1 db1 where
    c: "with_payload (length (entry_payload e)) next = Inr next1" "append_rows H es (Suc expected) (entry_term e) next1 db1 = Inr out" by blast
  have "acc_entry_count next1 = Suc (acc_entry_count next)" using with_payload_Inr[OF c(1)] by (simp add: add_entries_def)
  moreover have "acc_entry_count next1 \<le> MAXIMUM_RECOVERED_LOG_ENTRIES"
    using c(1) by (auto simp: with_payload_def try_r_Inr Let_def require_bounds_def split: if_splits)
  ultimately show ?case using Cons.IH[OF c(2)] by auto
qed simp

text \<open>Truncation as the adapter performs it before it appends.\<close>

definition cut_log :: "durable_mutation \<Rightarrow> nat \<Rightarrow> accounting \<Rightarrow> database \<Rightarrow> store_error + accounting \<times> database" where
  "cut_log m applied prior db =
     (case mut_truncate_from m of
        None \<Rightarrow> Inr (prior, db)
      | Some truncate_from \<Rightarrow>
          if truncate_from = 0 \<or> truncate_from \<le> applied then Inl InvalidMutation
          else try_r (read_last_log_index db) (\<lambda>last_index.
            if truncate_from > saturating_add u64_max last_index 1 then Inl InvalidMutation
            else delete_suffix prior truncate_from db))"

definition same_history :: "nat \<Rightarrow> plan_history_row list \<Rightarrow> plan_history_row list \<Rightarrow> bool" where
  "same_history k old new \<longleftrightarrow> (\<forall>i \<le> int k. find (\<lambda>p. ph_index p = i) new = find (\<lambda>p. ph_index p = i) old)"

lemma cut_log_Inr:
  assumes c: "cut_log m k prior db = Inr (mid, db1)" and rows: "db_log db = map (row_of H) log" and log: "log_ok H log"
    and a: "accounts_for prior log"
  shows "accounts_for mid (kept_log m log)" "acc_revision mid = acc_revision prior" "\<And>j. mut_truncate_from m = Some j \<Longrightarrow> k < j"
    "\<exists>history. db1 = db\<lparr>db_log := map (row_of H) (kept_log m log), db_plan_history := history\<rparr> \<and> same_history k (db_plan_history db) history"
proof -
  consider "mut_truncate_from m = None" "mid = prior" "db1 = db" |
    j where "mut_truncate_from m = Some j" "0 < j" "k < j" "delete_suffix prior j db = Inr (mid, db1)"
    using c by (auto simp: cut_log_def try_r_Inr split: option.splits if_splits)
  then have "accounts_for mid (kept_log m log) \<and> acc_revision mid = acc_revision prior \<and> (\<forall>j. mut_truncate_from m = Some j \<longrightarrow> k < j) \<and>
     (\<exists>history. db1 = db\<lparr>db_log := map (row_of H) (kept_log m log), db_plan_history := history\<rparr> \<and> same_history k (db_plan_history db) history)"
  proof cases
    case 1
    then show ?thesis using a by (simp add: kept_log_def same_history_def) (rule exI[of _ "db_plan_history db"], simp add: rows[symmetric])
  next
    case (2 j)
    note d = delete_suffix_Inr[OF 2(4) rows log 2(2) a]
    have "same_history k (db_plan_history db) (filter (\<lambda>p. ph_index p < int j) (db_plan_history db))"
      unfolding same_history_def by (intro allI impI find_filter) (use 2(3) in simp)
    then show ?thesis using d 2 by (simp add: kept_log_def) blast
  qed
  then show "accounts_for mid (kept_log m log)" "acc_revision mid = acc_revision prior" "\<And>j. mut_truncate_from m = Some j \<Longrightarrow> k < j"
    "\<exists>history. db1 = db\<lparr>db_log := map (row_of H) (kept_log m log), db_plan_history := history\<rparr> \<and> same_history k (db_plan_history db) history"
    by blast+
qed

lemma kept_log_ok:
  assumes "log_ok H log" "sorted (map entry_term log)"
  shows "log_ok H (kept_log m log)" "sorted (map entry_term (kept_log m log))"
  using assms log_ok_take by (auto simp: kept_log_def take_map[symmetric] sorted_wrt_take split: option.split)

text \<open>
  A mutation of the log that the adapter accepts: the database then holds the rows of the mutated log, and the
  rest of it is as before but for accounting and plan history of truncated positions.
\<close>

lemma persist_log_Inr:
  assumes p: "persist_log H m db = Inr db'" and acc: "accounted db" and rows: "db_log db = map (row_of H) log" and log: "log_ok H log"
    and rise: "sorted (map entry_term log)" and applied: "db_applied_index db = int k"
    and es: "\<forall>e \<in> set (mut_append m). entry_validate H e = Inr ()"
  shows "accounted db'" "log_ok H (kept_log m log @ mut_append m)" "sorted (map entry_term (kept_log m log @ mut_append m))"
    "\<And>j. mut_truncate_from m = Some j \<Longrightarrow> k < j"
    "\<exists>row history. db' = db\<lparr>db_log := map (row_of H) (kept_log m log @ mut_append m), db_plan_history := history, db_accounting := row\<rparr> \<and>
       same_history k (db_plan_history db) history"
proof -
  let ?kept = "kept_log m log"
  obtain prior where prior: "accounting_read db = Inr prior" using p by (auto simp: persist_log_def try_r_Inr)
  have "nonnegative_u64 CorruptState (db_applied_index db) = Inr k" using applied by (simp add: u64_conversions)
  from p[unfolded persist_log_def prior this try_r.simps cut_log_def[symmetric]] obtain mid db1 last previous next' db2 where
    c: "cut_log m k prior db = Inr (mid, db1)" "read_last_log_index db1 = Inr last"
    "read_last_log_term db1 = Inr previous" "append_rows H (mut_append m) (Suc last) previous mid db1 = Inr (next', db2)"
    "accounting_store prior next' db2 = Inr db'"
    by (auto simp: try_r_Inr ok_or_Inr)
  note cut = cut_log_Inr[OF c(1) rows log accounting_read_Inr(1)[OF prior acc rows]]
  show "\<And>j. mut_truncate_from m = Some j \<Longrightarrow> k < j" by (rule cut(3))
  obtain history where h: "db1 = db\<lparr>db_log := map (row_of H) ?kept, db_plan_history := history\<rparr>" "same_history k (db_plan_history db) history"
    using cut(4) by blast
  note k = kept_log_ok[OF log rise, of m]
  have rows1: "db_log db1 = map (row_of H) ?kept" using h(1) by simp
  have last: "last = length ?kept" using c(2) last_log_index[OF rows1 k(1)] by simp
  have "length ?kept + length (mut_append m) \<le> u64_max"
    using append_rows_bound[OF c(4)] cut(1) k(1) recovery_bounds by (auto simp: accounts_for_def log_ok_def)
  note ap = append_rows_Inr[OF c(4)[unfolded last] rows1 k(1) es this]
  show "log_ok H (?kept @ mut_append m)" by (rule ap(3))
  show "sorted (map entry_term (?kept @ mut_append m))"
    by (rule sorted_joined[OF k(2)]) (use ap(4) last_log_term[OF rows1 c(3)] in \<open>auto simp: neq_Nil_conv split: if_splits\<close>)
  have "accounts_for next' (?kept @ mut_append m)" "acc_revision next' = acc_revision prior" "db_accounting db2 = db_accounting db"
    "db_log db2 = map (row_of H) (?kept @ mut_append m)"
    using ap(1,2) cut(1,2) h(1) by (simp_all add: accounts_for_def add_entries_def)
  note st = accounting_store_Inr[OF c(5) prior this(3,2,1,4)]
  show "accounted db'" by (rule st(2))
  show "\<exists>row history. db' = db\<lparr>db_log := map (row_of H) (?kept @ mut_append m), db_plan_history := history, db_accounting := row\<rparr> \<and>
       same_history k (db_plan_history db) history"
  proof -
    obtain row where "db' = db2\<lparr>db_accounting := row\<rparr>" using st(1) by blast
    then show ?thesis using ap(1) h by (intro exI[of _ row] exI[of _ history]) simp
  qed
qed

section \<open>Mutations\<close>

text \<open>The durable state after a mutation.\<close>

definition amended :: "durable_core_state \<Rightarrow> durable_mutation \<Rightarrow> durable_core_state" where
  "amended d m =
     \<lparr>dur_current_term = (case mut_vote_state m of None \<Rightarrow> dur_current_term d | Some (t, _) \<Rightarrow> t),
      dur_voted_for = (case mut_vote_state m of None \<Rightarrow> dur_voted_for d | Some (_, v) \<Rightarrow> v),
      dur_log = mutated_log (mut_truncate_from m) (mut_append m) (dur_log d), dur_applied_index = dur_applied_index d\<rparr>"

text \<open>Mutations under one plan, built from typed identifiers, whose entries do not pass the term they set.\<close>

definition mutation_typed :: "durable_mutation \<Rightarrow> bool" where
  "mutation_typed m \<longleftrightarrow>
     mut_membership_epoch m = None \<and> mut_quorum_plan m = None \<and> (\<forall>e \<in> set (mut_append m). entry_typed e) \<and>
     (\<forall>t v. mut_vote_state m = Some (t, Some v) \<longrightarrow> identifier_ok (node_bytes v))"

lemma persist_vote_Inr:
  assumes p: "persist_vote epoch m db = Inr db1" and m: "mutation_typed m" and e: "0 < epoch"
    and v: "vote_recorded db epoch (dur_current_term d) (dur_voted_for d)"
  shows "\<exists>row. db1 = db\<lparr>db_vote := row\<rparr>" "vote_recorded db1 epoch (dur_current_term (amended d m)) (dur_voted_for (amended d m))"
    "dur_current_term d \<le> dur_current_term (amended d m)"
proof -
  have "(\<exists>row. db1 = db\<lparr>db_vote := row\<rparr>) \<and> vote_recorded db1 epoch (dur_current_term (amended d m)) (dur_voted_for (amended d m)) \<and>
      dur_current_term d \<le> dur_current_term (amended d m)"
  proof (cases "mut_vote_state m")
    case None
    then have "db1 = db" using p m by (auto simp: persist_vote_def Let_def try_r_Inr mutation_typed_def split: option.splits if_splits)
    then show ?thesis using None v by (auto simp: amended_def intro: exI[of _ "db_vote db"])
  next
    case (Some tv)
    obtain t w where tv: "tv = (t, w)" by (cases tv)
    have db1: "db1 = db\<lparr>db_vote := Some \<lparr>vr_partition = db_partition db, vr_term = int t,
        vr_voted_for = map_option node_bytes w, vr_epoch = int epoch\<rparr>\<rparr>" "0 < t"
      using p m Some tv by (auto simp: persist_vote_def Let_def try_r_Inr mutation_typed_def u64_conversions split: option.splits if_splits)
    have "dur_current_term d \<le> t"
      using p v Some tv
      by (auto simp: persist_vote_def vote_recorded_def Let_def try_r_Inr u64_conversions split: option.splits if_splits)
    then show ?thesis using db1 m Some tv by (auto simp: amended_def vote_recorded_def mutation_typed_def)
  qed
  then show "\<exists>row. db1 = db\<lparr>db_vote := row\<rparr>" "vote_recorded db1 epoch (dur_current_term (amended d m)) (dur_voted_for (amended d m))"
    "dur_current_term d \<le> dur_current_term (amended d m)" by blast+
qed

lemma validate_entries_all: "validate_mutation_entries H previous es = Inr () \<Longrightarrow> \<forall>e \<in> set es. entry_validate H e = Inr ()"
  by (induction es arbitrary: previous) (auto simp: try_r_Inr map_err_Inr split: if_splits)

lemma persist_mutation_Inr:
  assumes "persist_mutation_with_failpoint H epoch m persisted_at failpoint db = (Inr (), db')" "mutation_typed m"
  shows "\<exists>db1. persist_vote epoch m db = Inr db1 \<and> persist_log H m db1 = Inr db' \<and> (\<forall>e \<in> set (mut_append m). entry_validate H e = Inr ())"
  using assms by (auto simp: persist_mutation_with_failpoint_def try_r_Inr mutation_typed_def split: sum.splits if_splits dest: validate_entries_all)

lemma persist_refused: "persist_mutation_with_failpoint H epoch m persisted_at failpoint db = (Inl e, db') \<Longrightarrow> db' = db"
  by (auto simp: persist_mutation_with_failpoint_def split: sum.splits)

lemma rows_upto:
  assumes "log_ok H log" "lr_index r \<le> int k"
  shows "r \<in> set (map (row_of H) log) \<longleftrightarrow> r \<in> set (map (row_of H) (take k log))"
proof
  assume "r \<in> set (map (row_of H) log)"
  then obtain i where i: "i < length log" "r = row_of H (log ! i)" by (auto simp: in_set_conv_nth)
  then have "i < k" using assms by (auto simp: log_ok_def)
  then have "log ! i \<in> set (take k log)" using i(1) by (metis length_take min_less_iff_conj nth_mem nth_take)
  then show "r \<in> set (map (row_of H) (take k log))" using i(2) by simp
qed (auto dest: in_set_takeD)

lemma persist_records:
  assumes p: "persist_mutation_with_failpoint H epoch m persisted_at failpoint db = (Inr (), db')" and m: "mutation_typed m"
    and r: "records H db epoch d" "anchored db" and t: "\<forall>e \<in> set (mut_append m). entry_term e \<le> dur_current_term (amended d m)"
  shows "records H db' epoch (amended d m)" "anchored db'"
proof -
  let ?k = "dur_applied_index d" and ?log = "dur_log d" and ?log' = "kept_log m (dur_log d) @ mut_append m"
  have a: "dur_log (amended d m) = ?log'" "dur_applied_index (amended d m) = ?k"
    using mutated_log_kept[of m ?log] by (simp_all add: amended_def)
  obtain db1 where s: "persist_vote epoch m db = Inr db1" "persist_log H m db1 = Inr db'" "\<forall>e \<in> set (mut_append m). entry_validate H e = Inr ()"
    using persist_mutation_Inr[OF p m] by blast
  have d: "0 < epoch" "accounted db" "vote_recorded db epoch (dur_current_term d) (dur_voted_for d)" "db_log db = map (row_of H) ?log"
    "decodable H ?log" "log_ok H ?log" "terms_rise (dur_current_term d) ?log" "applied_recorded db ?log ?k"
    using r(1) by (auto simp: records_def)
  note v = persist_vote_Inr[OF s(1) m d(1,3)]
  obtain row where db1: "db1 = db\<lparr>db_vote := row\<rparr>" using v(1) by blast
  have l: "accounted db1" "db_log db1 = map (row_of H) ?log" "db_applied_index db1 = int ?k" "sorted (map entry_term ?log)"
    using d db1 by (auto simp: accounted_def applied_recorded_def terms_rise_def)
  note g = persist_log_Inr[OF s(2) l(1,2) d(6) l(4,3) s(3)]
  obtain arow history where db': "db' = db1\<lparr>db_log := map (row_of H) ?log', db_plan_history := history, db_accounting := arow\<rparr>"
    "same_history ?k (db_plan_history db) history" using g(5) db1 by auto
  show "anchored db'" using r(2) db' db1 by (simp add: anchored_def)
  have pre: "take ?k (kept_log m ?log) = take ?k ?log" "?k \<le> length (kept_log m ?log)"
    using g(4) d(8) by (auto simp: kept_log_def applied_recorded_def min_def split: option.split)
  have "verify_epoch H db' epoch = verify_epoch H db epoch"
  proof (rule verify_epoch_kept[OF load_plan_kept[where k = "int ?k"]])
    show "pr_index row \<le> int ?k" if "db_plan db = Some row" for row
      using r(2) that d(8) by (auto simp: anchored_def applied_recorded_def)
    show "r \<in> set (db_log db') \<longleftrightarrow> r \<in> set (db_log db)" if "lr_index r \<le> int ?k" for r
      using rows_upto[OF g(2) that] rows_upto[OF d(6) that] pre db'(1) d(4) by simp
  qed (use db' db1 in \<open>simp_all add: same_history_def\<close>)
  moreover have "terms_rise (dur_current_term (amended d m)) ?log'"
    using g(3) t d(7) v(3) by (fastforce simp: terms_rise_def kept_log_def dest: in_set_takeD split: option.splits)
  moreover have "applied_recorded db' ?log' ?k"
  proof -
    have "?log' ! (?k - 1) = ?log ! (?k - 1)" if "0 < ?k"
      using pre that by (metis Suc_pred' lessI nth_append nth_take order_less_le_trans)
    then show ?thesis using d(8) pre(2) db' db1 by (auto simp: applied_recorded_def)
  qed
  moreover have "decodable H ?log'"
    using d(5) s(3) m by (auto simp: mutation_typed_def kept_log_def dest: in_set_takeD split: option.splits)
  moreover have "vote_recorded db' epoch (dur_current_term (amended d m)) (dur_voted_for (amended d m))"
    using v(2) db' by (cases "db_vote db1") (simp_all add: vote_recorded_def)
  ultimately show "records H db' epoch (amended d m)"
    using r(1) g(1,2) db' db1 a by (simp add: records_def)
qed

section \<open>Bootstrap and application\<close>

text \<open>A new partition database before and after its first plan is installed.\<close>

definition empty_database :: "bytes \<Rightarrow> database" where
  "empty_database part =
     \<lparr>db_partition = part, db_recovery_pending = False, db_recovery_origin = None, db_vote = None, db_log = [],
      db_applied_index = 0, db_applied_term = 0,
      db_accounting = Some \<lparr>ar_entries = 0, ar_bytes = 0, ar_revision = 0, ar_version = 1\<rparr>,
      db_plan = None, db_plan_history = [], db_membership = None, db_members = [], db_nodes = []\<rparr>"

lemma initialised_records:
  assumes v: "valid_plan H plan" and t: "spec_typed (plan_spec plan)"
    and e: "0 < spec_membership_epoch (plan_spec plan)" "spec_membership_epoch (plan_spec plan) \<le> i64_max"
  shows "\<exists>db. initialise_plan H plan (empty_database part) = (Inr (Stable plan), db) \<and>
    records H db (spec_membership_epoch (plan_spec plan)) durable_default \<and> anchored db"
proof -
  let ?epoch = "spec_membership_epoch (plan_spec plan)"
  obtain bs where bs: "encode_plan (Stable plan) = Inr bs" "decode_plan H bs = Inr (Stable plan)"
    using encode_plan_round_trip[of H "Stable plan"] v t by auto
  let ?row = "\<lparr>pr_partition = part, pr_phase = 1, pr_epoch = int ?epoch, pr_version = 1, pr_canonical = bs,
      pr_digest = plan_proof_digest plan, pr_index = 0, pr_term = 0, pr_origin = 1\<rparr>"
  let ?db = "(empty_database part)\<lparr>db_plan := Some ?row\<rparr>"
  have load: "load_plan H ?db = Inr (Some (Stable plan))"
    using bs(2) e by (simp add: load_plan_def valid_stored_header_def nonnegative_u64_def positive_u64_def phase_kind_def
        PLAN_RECORD_VERSION_def GENESIS_def empty_database_def)
  moreover have "load_plan H (empty_database part) = Inr None" by (simp add: load_plan_def empty_database_def)
  ultimately have "initialise_plan H plan (empty_database part) = (Inr (Stable plan), ?db)"
    using bs(1) e by (simp add: initialise_plan_def Let_def require_admitted_def has_consensus_history_def to_i64_def phase_kind_def
        PLAN_RECORD_VERSION_def empty_database_def)
  moreover have "records H ?db ?epoch durable_default"
    using load e(1) by (simp add: records_def verify_epoch_def accounted_def vote_recorded_def applied_recorded_def terms_rise_def
        durable_default_def empty_database_def payload_total_def)
  ultimately show ?thesis by (auto simp: anchored_def empty_database_def)
qed

lemma confirmation_Inr:
  assumes "apply_term_confirmation H e db = (Inr (), db')"
  shows "\<exists>r \<in> set (db_log db). lr_index r = int (entry_index e) \<and> lr_term r = int (entry_term e)" "0 < entry_index e" "0 < entry_term e"
    "(db' = db \<and> db_applied_index db = int (entry_index e)) \<or>
     (db' = db\<lparr>db_applied_index := int (entry_index e), db_applied_term := int (entry_term e)\<rparr> \<and>
        db_applied_index db < int (entry_index e))"
proof -
  have "entry_validate H e = Inr ()"
    using assms by (auto simp: apply_term_confirmation_def try_r_Inr map_err_Inr split: sum.splits)
  then show "0 < entry_index e" "0 < entry_term e" using entry_validate_position by blast+
  show "\<exists>r \<in> set (db_log db). lr_index r = int (entry_index e) \<and> lr_term r = int (entry_term e)"
    using assms by (force simp: apply_term_confirmation_def try_r_Inr u64_conversions list_ex_iff split: sum.splits if_splits)
  show "(db' = db \<and> db_applied_index db = int (entry_index e)) \<or>
     (db' = db\<lparr>db_applied_index := int (entry_index e), db_applied_term := int (entry_term e)\<rparr> \<and>
        db_applied_index db < int (entry_index e))"
    using assms by (auto simp: apply_term_confirmation_def try_r_Inr u64_conversions split: sum.splits if_splits)
qed

lemma confirmation_records:
  assumes c: "apply_term_confirmation H e db = (Inr (), db')" and r: "records H db epoch d" "anchored db"
  shows "records H db' epoch (d\<lparr>dur_applied_index := entry_index e\<rparr>)" "anchored db'" "entry_index e \<le> length (dur_log d)"
proof -
  note i = confirmation_Inr[OF c]
  have d: "db_log db = map (row_of H) (dur_log d)" "log_ok H (dur_log d)" "applied_recorded db (dur_log d) (dur_applied_index d)"
    "verify_epoch H db epoch = Inr ()"
    using r(1) by (auto simp: records_def)
  obtain j where j: "j < length (dur_log d)" "entry_index (dur_log d ! j) = entry_index e" "entry_term (dur_log d ! j) = entry_term e"
    using i(1) d(1) by (auto simp: in_set_conv_nth)
  then have pos: "entry_index e = Suc j" using d(2) by (simp add: log_ok_def)
  then show "entry_index e \<le> length (dur_log d)" using j(1) by simp
  have plan: "load_plan H (db\<lparr>db_applied_index := a, db_applied_term := b\<rparr>) = load_plan H db" for a b
    by (rule load_plan_kept[where k = "case db_plan db of None \<Rightarrow> 0 | Some row \<Rightarrow> pr_index row"]) auto
  have "records H db' epoch (d\<lparr>dur_applied_index := entry_index e\<rparr>) \<and> anchored db'"
    using i(4)
  proof (elim disjE conjE)
    assume "db' = db" "db_applied_index db = int (entry_index e)"
    moreover have "dur_applied_index d = entry_index e" using calculation d(3) by (simp add: applied_recorded_def)
    ultimately show ?thesis using r by (auto simp: records_def)
  next
    assume db': "db' = db\<lparr>db_applied_index := int (entry_index e), db_applied_term := int (entry_term e)\<rparr>"
      "db_applied_index db < int (entry_index e)"
    have "anchored db'" using r(2) db' by (auto simp: anchored_def)
    moreover have "verify_epoch H db' epoch = Inr ()" using d(4) db'(1) plan by (simp add: verify_epoch_def)
    moreover have "applied_recorded db' (dur_log d) (entry_index e)" using db'(1) j pos by (simp add: applied_recorded_def)
    moreover have "vote_recorded db' epoch t v = vote_recorded db epoch t v" for t v
      using db'(1) by (cases "db_vote db") (simp_all add: vote_recorded_def)
    moreover have "accounted db' = accounted db" using db'(1) by (simp add: accounted_def)
    ultimately show ?thesis using r(1) db'(1) by (simp add: records_def)
  qed
  then show "records H db' epoch (d\<lparr>dur_applied_index := entry_index e\<rparr>)" "anchored db'" by blast+
qed

section \<open>The contract of a consensus store\<close>

text \<open>
  What the driver relies on of its store. A refused mutation leaves the store alone; an accepted one takes
  the durable state it holds to the mutated state.
\<close>

locale consensus_persistence =
  fixes persist :: "'st \<Rightarrow> nat \<Rightarrow> durable_mutation \<Rightarrow> int \<Rightarrow> ('e + unit) \<times> 'st" and holding :: "'st \<Rightarrow> nat \<Rightarrow> durable_core_state \<Rightarrow> bool"
  assumes refused: "persist st epoch m now = (Inl e, st') \<Longrightarrow> st' = st"
    and accepted: "persist st epoch m now = (Inr (), st') \<Longrightarrow> mutation_typed m \<Longrightarrow> holding st epoch durable \<Longrightarrow>
      \<forall>e \<in> set (mut_append m). entry_term e \<le> dur_current_term (amended durable m) \<Longrightarrow> holding st' epoch (amended durable m)"

text \<open>The database, whether or not the transaction of a mutation is made to fail before it commits.\<close>

definition database_persist ::
  "(bytes \<Rightarrow> bytes) \<Rightarrow> store_failpoint \<Rightarrow> database \<Rightarrow> nat \<Rightarrow> durable_mutation \<Rightarrow> int \<Rightarrow> (store_error + unit) \<times> database" where
  "database_persist H failpoint db epoch m persisted_at = persist_mutation_with_failpoint H epoch m persisted_at failpoint db"

definition recorded :: "(bytes \<Rightarrow> bytes) \<Rightarrow> database \<Rightarrow> nat \<Rightarrow> durable_core_state \<Rightarrow> bool" where
  "recorded H db epoch d \<longleftrightarrow> records H db epoch d \<and> anchored db"

interpretation sqlite: consensus_persistence "database_persist H failpoint" "recorded H" for H failpoint
  by unfold_locales (auto simp: database_persist_def recorded_def persist_refused intro: persist_records)

end
