(* ===== verification/Driver_Durability.thy ===== *)
theory Driver_Durability
  imports Partition_Driver Store_Recovery Core_Answers Cluster
begin

text \<open>
  Why the driver's loop ends and what it keeps durable. A completed mutation never asks for another one, so
  every input costs at most one persistence. The store enters through its contract: a refused mutation leaves
  it alone, an accepted one moves it to the mutated state.
\<close>

section \<open>Completions ask for nothing\<close>

lemma unasked_follow:
  assumes "yields (list_all no_persist) m"
  shows "yields (list_all no_persist) (cbind m (\<lambda>effects s'. (Inr (effects @ [append_reply_effect s' to reply]), s')))"
    "yields (list_all no_persist) (cbind m (\<lambda>effects s'. (Inr (effects @ [membership_notice_effect s' to]), s')))"
  by (rule yields_bind[OF assms], simp add: yields_def append_reply_effect_def membership_notice_effect_def)+

lemma yields_app: "yields P m \<Longrightarrow> fst (m s) = Inr x \<Longrightarrow> P x"
  by (simp add: yields_def)

lemma unasked_activation: "yields (list_all no_persist) (finish_plan_activation H plan incs position)"
proof -
  have "fst (finish_plan_activation H plan incs position s) = Inr x \<Longrightarrow> list_all no_persist x" for s x
    unfolding finish_plan_activation_def Let_def
    by (auto split: option.splits if_splits dest: yields_app[OF yields_weaken(3)[OF yields_probes]])
  then show ?thesis by (simp add: yields_def)
qed

lemma after_persistence_unasked: "yields (list_all no_persist) (after_persistence_action H q)"
proof -
  have a: "yields (list_all no_persist) (if b then advance_follower_commit j else ret [])" for b j
    using yields_weaken(3)[OF yields_advance(2)] by (simp add: yields_ret)
  have "fst (after_persistence_action H q s) = Inr x \<Longrightarrow> list_all no_persist x" for s x
    unfolding after_persistence_action_def Let_def finish_committed_prefix_def
    using yields_app[OF unasked_follow(1)[OF a]] yields_app[OF unasked_follow(2)[OF yields_weaken(3)[OF yields_advance(2)]]]
      yields_app[OF unasked_activation] yields_app[OF yields_weaken(3)[OF yields_finish_campaign]]
      yields_app[OF yields_weaken(3)[OF yields_finish_proposal]]
    by (auto simp: vote_effect_def split: after_persistence.splits option.splits)
  then show ?thesis by (simp add: yields_def)
qed

lemma persisted_unasked:
  assumes "step H (Persisted i) s = (Inr x, s')"
  shows "list_all no_persist x"
proof -
  obtain q s1 where "after_persistence_action H q s1 = (Inr x, s')"
    using assms
    by (auto simp: step_def is_persisted_def dispatch_def finish_persistence_def cbind_def split: option.splits if_splits prod.splits sum.splits)
  then show ?thesis using yields_app[OF after_persistence_unasked, of H q s1] by simp
qed

section \<open>The loop ends\<close>

definition persist_count :: "core_effect list \<Rightarrow> nat" where
  "persist_count effects = length (filter (\<lambda>e. \<not> no_persist e) effects)"

lemma persist_count_simps [simp]:
  "persist_count [] = 0" "persist_count (e # es) = (if no_persist e then 0 else 1) + persist_count es"
  "persist_count (xs @ ys) = persist_count xs + persist_count ys" "list_all no_persist xs \<Longrightarrow> persist_count xs = 0"
  by (auto simp: persist_count_def filter_empty_conv list_all_iff)

lemma driver_persist_unasked:
  assumes "driver_persist persist H persisted_at i epoch m d = (Inr effects, d')"
  shows "list_all no_persist effects"
  using assms persisted_unasked by (auto simp: driver_persist_def split: prod.splits sum.splits)

lemma process_effect_decreases:
  assumes "qs_pending q \<noteq> []" "qs_failed q = None"
  shows "((qs_pending (process_effect persist H persisted_at q)), (qs_pending q)) \<in> measures [persist_count, length]"
proof -
  obtain e rest where e: "qs_pending q = e # rest" using assms(1) by (cases "qs_pending q") auto
  show ?thesis
    using e by (cases e) (auto simp: process_effect_def split: prod.splits sum.splits dest!: driver_persist_unasked)
qed

lemma process_queue_returns: "\<exists>q'. process_queue persist H persisted_at q = Some q'"
  unfolding process_queue_def
proof (rule wf_while_option_Some[where P = "\<lambda>_. True"])
  have "{(t, s). (True \<and> qs_pending s \<noteq> [] \<and> qs_failed s = None) \<and> t = process_effect persist H persisted_at s} \<subseteq>
      inv_image (measures [persist_count, length]) qs_pending"
    using process_effect_decreases by (fastforce simp: in_inv_image)
  then show "wf {(t, s). (True \<and> qs_pending s \<noteq> [] \<and> qs_failed s = None) \<and> t = process_effect persist H persisted_at s}"
    by (rule wf_subset[rotated]) simp
qed simp_all

lemma process_queue_unfold:
  "process_queue persist H persisted_at q =
     (if qs_pending q \<noteq> [] \<and> qs_failed q = None then process_queue persist H persisted_at (process_effect persist H persisted_at q)
      else Some q)"
  unfolding process_queue_def by (rule while_option_unfold)

text \<open>A queue without mutations is handed out as it is.\<close>

lemma process_queue_safe:
  assumes "list_all no_persist (qs_pending q)" "qs_failed q = None"
  shows "process_queue persist H persisted_at q =
    Some (q\<lparr>qs_pending := [], qs_safe := qs_safe q @ map (\<lambda>e. the (safe_effect e)) (qs_pending q)\<rparr>)"
  using assms
proof (induction "qs_pending q" arbitrary: q)
  case Nil
  then show ?case by (subst process_queue_unfold) (metis (no_types) append_Nil2 list.simps(8) queue_state.surjective queue_state.update_convs(1,2))
next
  case (Cons e es)
  let ?q = "q\<lparr>qs_pending := es, qs_safe := qs_safe q @ [the (safe_effect e)]\<rparr>"
  have "process_effect persist H persisted_at q = ?q"
    using Cons.hyps(2)[symmetric] Cons.prems(1) by (cases e) (simp_all add: process_effect_def)
  then show ?case
    using Cons.hyps(1)[of ?q] Cons.hyps(2)[symmetric] Cons.prems by (subst process_queue_unfold) simp
qed

definition handed_out :: "core_effect list \<Rightarrow> driver_effect list" where
  "handed_out effects = map (\<lambda>e. the (safe_effect e)) effects"

lemma driver_process_safe:
  "list_all no_persist effects \<Longrightarrow> driver_process persist H persisted_at effects d = Some (Inr (handed_out effects), d)"
  by (simp add: driver_process_def process_queue_safe handed_out_def)

text \<open>The outcome of one persistence, as the caller of the driver sees it.\<close>

definition delivered :: "('x + core_effect list) \<times> 'd \<Rightarrow> (('x + driver_effect list) \<times> 'd) option" where
  "delivered p = Some (case fst p of Inl e \<Rightarrow> Inl e | Inr effects \<Rightarrow> Inr (handed_out effects), snd p)"

lemma delivered_Some: "delivered (r, d) = Some (r', d') \<Longrightarrow> d' = d \<and> (\<forall>e. r' = Inl e \<longleftrightarrow> r = Inl e)"
  by (auto simp: delivered_def split: sum.splits)

lemma driver_process_delivered:
  "driver_persist persist H now i epoch m d = (Inr effects, d') \<Longrightarrow>
     driver_process persist' H later effects d1 = delivered (Inr effects, d1)"
  by (simp add: driver_process_safe[OF driver_persist_unasked] delivered_def)

lemma retry_delivered:
  assumes "dr_blocked d = Some b"
  shows "retry_persistence persist H now d =
    delivered (driver_persist persist H now (bp_id b) (bp_epoch b) (bp_mutation b) (d\<lparr>dr_blocked := None\<rparr>))"
  using assms by (auto simp: retry_persistence_def driver_process_delivered delivered_def split: prod.split sum.split)

lemma process_persist:
  "driver_process persist H now [Persist i m] d = delivered (driver_persist persist H now i (driver_epoch d) m d)" (is "_ = delivered ?p")
proof (cases ?p)
  case (Pair result d')
  show ?thesis
  proof (cases result)
    case (Inl e)
    then show ?thesis
      using Pair unfolding driver_process_def delivered_def
      by (subst process_queue_unfold) (simp add: process_effect_def, subst process_queue_unfold, simp)
  next
    case (Inr effects)
    then have "list_all no_persist effects" using driver_persist_unasked Pair by blast
    then show ?thesis
      using Pair Inr unfolding driver_process_def delivered_def
      by (subst process_queue_unfold) (simp add: process_effect_def process_queue_safe handed_out_def)
  qed
qed

lemma step_delivered:
  assumes "dr_blocked d = None" "step H input (dr_core d) = (Inr [Persist i m], s)"
  shows "driver_step persist H input now d =
    delivered (driver_persist persist H now i (active_membership_epoch (cr_active_plan s)) m (d\<lparr>dr_core := s\<rparr>))"
  using assms by (simp add: driver_step_def process_persist)

lemma step_safe_delivered:
  assumes "dr_blocked d = None" "step H input (dr_core d) = (r, s)" "\<And>x. r = Inr x \<Longrightarrow> list_all no_persist x"
  shows "driver_step persist H input now d = delivered (map_err DriverCore r, d\<lparr>dr_core := s\<rparr>)"
  using assms by (cases r) (simp_all add: driver_step_def driver_process_safe delivered_def)

section \<open>What an input asks to persist\<close>

text \<open>Inputs as the typed interfaces of Rust admit them, other than plan activations.\<close>

definition input_typed :: "core_input \<Rightarrow> bool" where
  "input_typed input =
     (case input of
        Propose _ operation version _ \<Rightarrow> identifier_ok (operation_bytes operation) \<and> version \<le> u16_max
      | ConfirmTerm _ operation \<Rightarrow> identifier_ok (operation_bytes operation)
      | Message _ _ (AppendRequest request) \<Rightarrow> list_all entry_typed (areq_entries request)
      | Message _ _ (CommittedPrefix prefix) \<Rightarrow> list_all entry_typed (pre_entries prefix)
      | ActivateJointPlan _ _ _ \<Rightarrow> False
      | ActivateStablePlan _ _ _ \<Rightarrow> False
      | _ \<Rightarrow> True)"

definition log_typed :: "durable_mutation \<Rightarrow> bool" where
  "log_typed m \<longleftrightarrow> mut_membership_epoch m = None \<and> mut_quorum_plan m = None \<and> (\<forall>e \<in> set (mut_append m). entry_typed e)"

lemma log_typed_simps [simp]:
  "log_typed (vote_mutation t v)" "log_typed (append_mutation vote tr es) \<longleftrightarrow> (\<forall>e \<in> set es. entry_typed e)"
  by (simp_all add: log_typed_def vote_mutation_def append_mutation_def)

definition asks :: "(core_error + core_effect list) \<times> core \<Rightarrow> bool" where
  "asks rs \<longleftrightarrow> (\<forall>x. fst rs = Inr x \<longrightarrow> list_all no_persist x \<or>
     (\<exists>q. cr_pending (snd rs) = Some q \<and> x = [Persist (pend_id q) (pend_mutation q)] \<and> \<not> activates (pend_action q) \<and> log_typed (pend_mutation q)))"

lemma asks_plain: "(\<And>x. r = Inr x \<Longrightarrow> list_all no_persist x) \<Longrightarrow> asks (r, s)"
  by (simp add: asks_def)

lemma asks_yields: "yields (list_all no_persist) m \<Longrightarrow> asks (m s)"
  by (simp add: asks_def yields_def)

lemma asks_begin: "log_typed m \<Longrightarrow> \<not> activates a \<Longrightarrow> asks (begin_persistence m a s)"
  by (auto simp: asks_def begin_persistence_def split: option.splits)

lemma asks_split:
  "(b \<Longrightarrow> asks x) \<Longrightarrow> (\<not> b \<Longrightarrow> asks y) \<Longrightarrow> asks (if b then x else y)"
  "(\<And>e. m = Inl e \<Longrightarrow> asks (f e)) \<Longrightarrow> (\<And>v. m = Inr v \<Longrightarrow> asks (g v)) \<Longrightarrow> asks (case m of Inl e \<Rightarrow> f e | Inr v \<Rightarrow> g v)"
  "(\<And>c d. p = (c, d) \<Longrightarrow> asks (k c d)) \<Longrightarrow> asks (case p of (c, d) \<Rightarrow> k c d)"
  "(o' = None \<Longrightarrow> asks x) \<Longrightarrow> (\<And>z. o' = Some z \<Longrightarrow> asks (h z)) \<Longrightarrow> asks (case o' of None \<Rightarrow> x | Some z \<Rightarrow> h z)"
  "(r = FollowerState \<Longrightarrow> asks x) \<Longrightarrow> (\<And>V. r = CandidateState V \<Longrightarrow> asks (cv V)) \<Longrightarrow> (\<And>l. r = LeaderState l \<Longrightarrow> asks (lv l)) \<Longrightarrow>
     asks (case r of FollowerState \<Rightarrow> x | CandidateState V \<Rightarrow> cv V | LeaderState l \<Rightarrow> lv l)"
  by (simp_all split: sum.split prod.split option.split role_state.split)

lemma activates_simps [simp]:
  "\<not> activates Campaign" "\<not> activates (VoteReply to g)" "\<not> activates (AppendReply to ld ci reply)" "\<not> activates (Proposal p pos)"
  "\<not> activates StepDown" "\<not> activates (AfterCommittedPrefix src k)"
  by (simp_all add: activates_def)

lemma log_delta_typed:
  "log_delta H s es = Inr (tr, appended) \<Longrightarrow> \<forall>e \<in> set es. entry_typed e \<Longrightarrow> e \<in> set appended \<Longrightarrow> entry_typed e"
  by (induction es) (auto split: option.splits if_splits)

lemma unasked_effects [simp]:
  "no_persist (append_reply_effect s to reply)" "no_persist (membership_notice_effect s to)" "no_persist (vote_effect s to g)"
  by (simp_all add: append_reply_effect_def membership_notice_effect_def vote_effect_def)

lemma unasked_complete: "complete_read_barriers s = (x, s') \<Longrightarrow> list_all no_persist x"
  by (auto simp: complete_read_barriers_def Let_def list_all_iff split: role_state.splits if_splits)

lemma unasked_acknowledge: "yields (list_all no_persist) (acknowledge_read_barrier peer i)"
  by (auto simp: yields_def acknowledge_read_barrier_def Let_def dest: unasked_complete
      split: role_state.splits option.splits if_splits prod.splits)

lemma unasked_probe: "yields no_persist (probe_effect H peer kind rb)"
  using yields_probe_effect[of H peer kind rb] by (auto simp: yields_def)

lemma unasked_after_evidence: "yields (list_all no_persist) (after_evidence H src response k l)"
proof -
  have "yields (list_all no_persist) (cbind advance_leader_commit (\<lambda>committed.
     cbind (acknowledge_read_barrier src i) (\<lambda>reads.
       if b then cbind (probe_effect H src Replication None) (\<lambda>probe. ret (committed @ reads @ [probe]))
       else ret (committed @ reads))))" for i b
    by (rule yields_bind[OF yields_weaken(3)[OF yields_advance(1)]], rule yields_bind[OF unasked_acknowledge])
      (auto intro!: yields_bind[OF unasked_probe] yields_ret)
  then show ?thesis by (simp add: yields_def after_evidence_def)
qed

lemma unasked_replay: "replay_membership_prefix H s peer response = Inr x \<Longrightarrow> list_all no_persist x"
  by (auto simp: replay_membership_prefix_def Let_def result_simps split: if_splits)

lemma append_response_asks: "asks (append_response_received H src response s)"
proof -
  have p: "asks (cbind (probe_effect H src Replication None) (\<lambda>probe. ret [probe]) s')" for s'
    by (rule asks_yields) (auto intro!: yields_bind[OF unasked_probe] yields_ret)
  have "asks (replication_evidence H src response k l ev s)" for k l ev
    unfolding replication_evidence_def Let_def
    by (auto intro!: asks_plain asks_yields[OF unasked_after_evidence] asks_yields[OF unasked_acknowledge]
        split: probe_result.split option.split)
  then show ?thesis
    unfolding append_response_received_def Let_def persist_step_down_def
    by (intro asks_split) (auto intro!: asks_plain asks_begin p dest: unasked_replay)
qed

lemma append_request_asks:
  assumes "list_all entry_typed (areq_entries request)"
  shows "asks (append_request_received H src request s)"
  using assms unfolding append_request_received_def Let_def list_all_iff
  by (intro asks_split)
    (auto intro!: asks_plain asks_begin asks_yields[OF unasked_follow(1)[OF yields_weaken(3)[OF yields_advance(2)]]] intro: log_delta_typed)

lemma receive_prefix_asks:
  assumes "list_all entry_typed (pre_entries prefix)"
  shows "asks (receive_committed_prefix H src prefix s)"
  using assms unfolding receive_committed_prefix_def Let_def finish_committed_prefix_def list_all_iff
  by (intro asks_split)
    (auto intro!: asks_plain asks_begin asks_yields[OF unasked_follow(2)[OF yields_weaken(3)[OF yields_advance(2)]]] intro: log_delta_typed)

lemma vote_asks: "asks (vote_request_received H src request s)" "asks (vote_response_received H src response s)"
proof -
  have "vote_request_stale H s src request = Inr x \<Longrightarrow> list_all no_persist x" for x
    by (auto simp: vote_request_stale_def result_simps dest: unasked_replay split: if_splits)
  then show "asks (vote_request_received H src request s)"
    unfolding vote_request_received_def Let_def by (intro asks_split) (auto intro!: asks_plain asks_begin)
  show "asks (vote_response_received H src response s)"
    unfolding vote_response_received_def Let_def persist_step_down_def
    by (intro asks_split) (auto intro!: asks_plain asks_begin asks_yields[OF yields_weaken(3)[OF yields_become_leader]])
qed

lemma begin_read_barrier_asks: "asks (begin_read_barrier H i s)"
  unfolding begin_read_barrier_def Let_def
  by (intro asks_split) (auto intro!: asks_plain asks_yields[OF yields_weaken(3)[OF yields_probes]] dest: unasked_complete)

lemma propose_asks:
  assumes "identifier_ok (operation_bytes operation)" "version \<le> u16_max"
  shows "asks (propose H proposal operation version command s)"
proof -
  have "log_entry_new H position operation version command = Inr e \<Longrightarrow> entry_typed e" for position e
    using log_entry_new_sound(3,4)[of H position operation version command e] assms by (simp add: entry_typed_def)
  then show ?thesis unfolding propose_def Let_def by (intro asks_split) (auto intro!: asks_plain asks_begin)
qed

lemma step_asks:
  assumes "input_typed input"
  shows "asks (step H input s)"
proof -
  have "asks (finish_persistence H i s)" for i
  proof -
    have "asks (step H (Persisted i) s)" using persisted_unasked by (cases "step H (Persisted i) s") (auto intro: asks_plain)
    then show ?thesis by (simp add: step_def is_persisted_def dispatch_def)
  qed
  moreover have "asks (start_election s)" "asks (cancel_read_barrier b s)" "asks (applied_through k s)" for b k
    unfolding start_election_def cancel_read_barrier_def applied_through_def Let_def
    by (auto intro!: asks_plain asks_begin dest: unasked_complete split: option.split role_state.split prod.split)
  moreover have "asks (receive H src inc m s)" if "input = Message src inc m" for src inc m
    using assms that unfolding receive_def
    by (auto simp: input_typed_def intro!: asks_plain append_response_asks append_request_asks receive_prefix_asks vote_asks
        split: sum.split core_message.splits)
  moreover have "TERM_CONFIRMATION_VERSION \<le> u16_max" by (simp add: TERM_CONFIRMATION_VERSION_def)
  ultimately show ?thesis
    using assms unfolding step_def dispatch_def
    by (auto simp: input_typed_def intro!: asks_plain begin_read_barrier_asks propose_asks
        asks_yields[OF yields_weaken(3)[OF yields_heartbeat]] split: core_input.splits)
qed

section \<open>Drivers in step with their store\<close>

text \<open>
  A driver is in step with its store: the core is a consistent one whose possible candidates have well-formed
  identifiers, the driver is blocked exactly on the mutation the core waits for, and the store holds the
  core's durable state with an applied index that is committed.
\<close>

definition blocked_on :: "core \<Rightarrow> blocked_persistence option" where
  "blocked_on s = map_option (\<lambda>q. \<lparr>bp_id = pend_id q, bp_epoch = active_membership_epoch (cr_active_plan s), bp_mutation = pend_mutation q\<rparr>)
     (cr_pending s)"

definition core_ok :: "(bytes \<Rightarrow> bytes) \<Rightarrow> core \<Rightarrow> bool" where
  "core_ok H s \<longleftrightarrow>
     node_ok H True UNIV s \<and> (\<forall>v. v |\<in>| active_eligible_leaders (cr_active_plan s) \<longrightarrow> identifier_ok (node_bytes v)) \<and>
     (\<forall>q. cr_pending s = Some q \<longrightarrow> \<not> activates (pend_action q) \<and> mutation_typed (pend_mutation q))"

definition in_store :: "('st \<Rightarrow> nat \<Rightarrow> durable_core_state \<Rightarrow> bool) \<Rightarrow> 'st driver \<Rightarrow> bool" where
  "in_store holding d \<longleftrightarrow> (\<exists>k \<le> cr_commit_index (dr_core d). holding (dr_persistence d) (driver_epoch d) (stored (dr_core d) k))"

definition driver_ok :: "('st \<Rightarrow> nat \<Rightarrow> durable_core_state \<Rightarrow> bool) \<Rightarrow> (bytes \<Rightarrow> bytes) \<Rightarrow> 'st driver \<Rightarrow> bool" where
  "driver_ok holding H d \<longleftrightarrow> core_ok H (dr_core d) \<and> dr_blocked d = blocked_on (dr_core d) \<and> in_store holding d"

lemma calm_core_ok: "calm s s' \<Longrightarrow> node_ok H True UNIV s' \<Longrightarrow> core_ok H s \<Longrightarrow> core_ok H s'"
  by (simp add: core_ok_def calm_def)

lemma calm_stored: "calm s s' \<Longrightarrow> stored s' k = stored s k \<and> blocked_on s' = blocked_on s"
  by (simp add: stored_def calm_def blocked_on_def)

lemma calm_in_store: "calm s s' \<Longrightarrow> in_store holding (d\<lparr>dr_core := s\<rparr>) \<Longrightarrow> in_store holding (d\<lparr>dr_core := s'\<rparr>)"
  using calm_stored[of s s'] by (auto simp: in_store_def calm_def intro: order_trans)

lemma stored_mutated: "stored (mutated s m) k = amended (stored s k) m"
  by (auto simp: stored_def amended_def mutated_def new_log_def new_term_def new_vote_def split: option.split)

lemma step_node_ok: "node_ok H True UNIV s \<Longrightarrow> node_ok H True UNIV (snd (step H input s))"
  using step_refines[OF _ refl any_input] by (simp add: refines_def)

text \<open>A typed input asks to persist nothing, or exactly the mutation the core now waits for.\<close>

lemma step_cases:
  assumes ok: "core_ok H s" and p: "cr_pending s = None" and i: "input_typed input" and s: "step H input s = (result, s')"
  obtains (calm) "calm s s'" "\<And>x. result = Inr x \<Longrightarrow> list_all no_persist x"
  | (asked) q where "result = Inr [Persist (pend_id q) (pend_mutation q)]" "cr_pending s' = Some q"
      "s' = s\<lparr>cr_next_persistence_id := Suc (cr_next_persistence_id s), cr_pending := Some q\<rparr>" "core_ok H s'"
proof (cases "is_persisted input")
  case True
  then obtain j where "input = Persisted j" by (auto simp: is_persisted_def split: core_input.splits)
  then have "result = Inl StalePersistence" "s' = s" using stale_persisted[of s j H] p s by auto
  then show ?thesis using calm by simp
next
  case False
  consider "calm s s'" | q where "s' = s\<lparr>cr_next_persistence_id := Suc (cr_next_persistence_id s), cr_pending := Some q\<rparr>"
      "result = Inr [Persist (pend_id q) (pend_mutation q)]" "elector_ok s (pend_mutation q)"
    using step_staged[OF False, of s H] s by (auto simp: staged_def)
  then show ?thesis
  proof cases
    case 1
    then show ?thesis using calm step_asks[OF i, of H s] s p by (auto simp: asks_def calm_def)
  next
    case (2 q)
    have "\<not> activates (pend_action q)" "log_typed (pend_mutation q)" using step_asks[OF i, of H s] 2 s by (auto simp: asks_def)
    moreover have "node_ok H True UNIV s'" using step_node_ok[of H s input] ok s by (simp add: core_ok_def)
    ultimately have "core_ok H s'" using 2 ok by (auto simp: core_ok_def mutation_typed_def log_typed_def elector_ok_def)
    then show ?thesis using asked 2 by simp
  qed
qed

context consensus_persistence
begin

lemma persist_pending:
  assumes ok: "core_ok H (dr_core d)" and q: "cr_pending (dr_core d) = Some q" and k: "in_store holding d"
    and p: "driver_persist persist H now (pend_id q) (driver_epoch d) (pend_mutation q) (d\<lparr>dr_blocked := None\<rparr>) = (result, d')"
  shows "(\<exists>e. result = Inl (DriverPersistence e) \<and> d' = d\<lparr>dr_blocked := blocked_on (dr_core d)\<rparr>) \<or>
    dr_blocked d' = None \<and> cr_active_plan (dr_core d') = cr_active_plan (dr_core d) \<and> driver_ok holding H d' \<and>
    (\<exists>r. step H (Persisted (pend_id q)) (dr_core d) = (r, dr_core d') \<and> result = map_err DriverCore r)"
proof -
  obtain r st where r: "persist (dr_persistence d) (driver_epoch d) (pend_mutation q) now = (r, st)" by fastforce
  show ?thesis
  proof (cases r)
    case (Inl e)
    then show ?thesis using p r q refused by (cases d) (auto simp: driver_persist_def blocked_on_def)
  next
    case (Inr u)
    let ?s = "dr_core d" and ?m = "pend_mutation q" and ?n = "snd (step H (Persisted (pend_id q)) (dr_core d))"
    have core: "node_ok H True UNIV ?s" "\<not> activates (pend_action q)" "mutation_typed ?m" using ok q by (auto simp: core_ok_def)
    note m = persisted_calm[OF core(1) q refl core(2)]
    let ?t = "mutated (?s\<lparr>cr_pending := None\<rparr>) ?m"
    have new: "dr_core d' = ?n" "dr_persistence d' = st" "dr_blocked d' = None"
      "\<exists>r. step H (Persisted (pend_id q)) (dr_core d) = (r, dr_core d') \<and> result = map_err DriverCore r"
      using p r Inr by (auto simp: driver_persist_def split: prod.splits sum.splits)
    obtain k where k: "k \<le> cr_commit_index ?s" "holding (dr_persistence d) (driver_epoch d) (stored ?s k)" using k by (auto simp: in_store_def)
    have am: "stored ?t k = amended (stored ?s k) ?m" by (simp add: stored_mutated) (simp add: stored_def)
    have "dur_current_term (amended (stored ?s k) ?m) = new_term ?s ?m"
      by (simp add: amended_def stored_def new_term_def split: option.split)
    then have "holding st (driver_epoch d) (stored ?t k)"
      unfolding am using accepted[of _ _ _ _ st, OF _ core(3) k(2)] r Inr m(1) by (simp add: mutation_ok_def)
    moreover have same: "cr_active_plan ?n = cr_active_plan ?s" "cr_pending ?n = None" "cr_commit_index ?s \<le> cr_commit_index ?n"
      using m(2) by (simp_all add: calm_def)
    ultimately have "\<exists>k \<le> cr_commit_index ?n. holding st (driver_epoch d) (stored ?n k)"
      using k(1) conjunct1[OF calm_stored[OF m(2), of k]] by (intro exI[of _ k]) simp
    then have "in_store holding d'" using new(1,2) same by (simp add: in_store_def)
    moreover have "core_ok H ?n" using ok same step_node_ok[OF core(1)] by (simp add: core_ok_def)
    ultimately show ?thesis using new same by (simp add: driver_ok_def blocked_on_def)
  qed
qed

lemma retry_keeps:
  fixes result :: "('e, 'r) driver_error + driver_effect list"
  assumes ok: "driver_ok holding H d" and r: "retry_persistence persist H now d = Some (result, d')"
  shows "driver_ok holding H d' \<and> cr_active_plan (dr_core d') = cr_active_plan (dr_core d)"
proof (cases "cr_pending (dr_core d)")
  case None
  then show ?thesis using ok r by (simp add: retry_persistence_def driver_ok_def blocked_on_def)
next
  case (Some q)
  have b: "dr_blocked d = Some \<lparr>bp_id = pend_id q, bp_epoch = driver_epoch d, bp_mutation = pend_mutation q\<rparr>"
    using ok Some by (simp add: driver_ok_def blocked_on_def)
  obtain r1 :: "('e, 'r) driver_error + core_effect list" and d1 where
    p: "driver_persist persist H now (pend_id q) (driver_epoch d) (pend_mutation q) (d\<lparr>dr_blocked := None\<rparr>) = (r1, d1)" by fastforce
  have d': "d' = d1" using r p delivered_Some[of r1 d1] by (simp add: retry_delivered[OF b])
  have "core_ok H (dr_core d)" "in_store holding d" using ok by (auto simp: driver_ok_def)
  from persist_pending[OF this(1) Some this(2) p] show ?thesis
    unfolding d' using ok by (auto simp: driver_ok_def in_store_def)
qed

text \<open>A step on an open driver either asks for nothing or ends in one persistence of what the core waits for.\<close>

lemma step_shape:
  fixes result :: "('e, 'r) driver_error + driver_effect list"
  assumes ok: "driver_ok holding H d" and b: "dr_blocked d = None" and i: "input_typed input"
    and r: "driver_step persist H input now d = Some (result, d')"
  obtains (safe) r1 s where "step H input (dr_core d) = (r1, s)" "delivered (map_err DriverCore r1, d\<lparr>dr_core := s\<rparr>) = Some (result, d')"
      "driver_ok holding H (d\<lparr>dr_core := s\<rparr>)" "cr_active_plan s = cr_active_plan (dr_core d)"
      "\<And>x. r1 = Inr x \<Longrightarrow> list_all no_persist x"
  | (asked) q s r1 where "step H input (dr_core d) = (Inr [Persist (pend_id q) (pend_mutation q)], s)" "cr_pending s = Some q"
      "core_ok H s" "in_store holding (d\<lparr>dr_core := s\<rparr>)" "delivered (r1, d') = Some (result, d')"
      "driver_persist persist H now (pend_id q) (active_membership_epoch (cr_active_plan s)) (pend_mutation q) (d\<lparr>dr_core := s\<rparr>) = (r1, d')"
      "cr_active_plan s = cr_active_plan (dr_core d)"
proof -
  have p: "cr_pending (dr_core d) = None" using ok b by (simp add: driver_ok_def blocked_on_def)
  have core: "core_ok H (dr_core d)" "in_store holding d" using ok by (auto simp: driver_ok_def)
  obtain r1 s where s: "step H input (dr_core d) = (r1, s)" by fastforce
  from core(1) p i s show ?thesis
  proof (cases rule: step_cases)
    case calm
    have "node_ok H True UNIV s" using step_node_ok[of H "dr_core d" input] core(1) s by (simp add: core_ok_def)
    then have "core_ok H s" using calm_core_ok[OF calm(1) _ core(1)] by blast
    moreover have "in_store holding (d\<lparr>dr_core := s\<rparr>)" using calm_in_store[OF calm(1), of holding d] core(2) by simp
    moreover have "blocked_on s = None" using calm(1) p by (simp add: calm_def blocked_on_def)
    ultimately have "driver_ok holding H (d\<lparr>dr_core := s\<rparr>)" using b by (simp add: driver_ok_def)
    moreover have "delivered (map_err DriverCore r1, d\<lparr>dr_core := s\<rparr>) = Some (result, d')"
      using r by (simp add: step_safe_delivered[OF b s calm(2)])
    moreover have "cr_active_plan s = cr_active_plan (dr_core d)" using calm(1) by (simp add: calm_def)
    ultimately show ?thesis using safe[OF s _ _ _ calm(2)] by (simp only:)
  next
    case (asked q)
    obtain r2 :: "('e, 'r) driver_error + core_effect list" and d2 where
      p2: "driver_persist persist H now (pend_id q) (active_membership_epoch (cr_active_plan s)) (pend_mutation q) (d\<lparr>dr_core := s\<rparr>) = (r2, d2)"
      by fastforce
    have eq: "delivered (r2, d2) = Some (result, d')" using r unfolding step_delivered[OF b s[unfolded asked(1)]] p2 .
    have d2: "d2 = d'" using delivered_Some[OF eq] by simp
    have "in_store holding (d\<lparr>dr_core := s\<rparr>)" using core(2) asked(3) by (simp add: in_store_def stored_def)
    moreover have "cr_active_plan s = cr_active_plan (dr_core d)" using asked(3) by simp
    ultimately show ?thesis using that(2)[OF s[unfolded asked(1)] asked(2,4) _ eq[unfolded d2] p2[unfolded d2]] by (simp only:)
  qed
qed

lemma step_keeps:
  fixes result :: "('e, 'r) driver_error + driver_effect list"
  assumes ok: "driver_ok holding H d" and i: "input_typed input" and r: "driver_step persist H input now d = Some (result, d')"
  shows "driver_ok holding H d' \<and> cr_active_plan (dr_core d') = cr_active_plan (dr_core d)"
proof (cases "dr_blocked d")
  case (Some b)
  then show ?thesis using ok r by (simp add: driver_step_def)
next
  case None
  from ok None i r show ?thesis
  proof (cases rule: step_shape)
    case (safe r1 s)
    then show ?thesis using delivered_Some[OF safe(2)] by simp
  next
    case (asked q s r1)
    let ?d = "d\<lparr>dr_core := s\<rparr>"
    have "?d\<lparr>dr_blocked := None\<rparr> = ?d" using None by simp
    with asked have "core_ok H (dr_core ?d)" "cr_pending (dr_core ?d) = Some q"
      "driver_persist persist H now (pend_id q) (driver_epoch ?d) (pend_mutation q) (?d\<lparr>dr_blocked := None\<rparr>) = (r1, d')" by simp_all
    from persist_pending[OF this(1,2) asked(4) this(3)] show ?thesis
      using asked(3,4,7) by (auto simp: driver_ok_def in_store_def)
  qed
qed

text \<open>
  A mutation that could not be persisted leaves the store as it was and closes the driver to further inputs;
  retrying it later, on this store or a repaired one, does what the step would have done then.
\<close>

lemma retry_resumes:
  fixes persist' :: "('st, 'f) persist"
  assumes ok: "driver_ok holding H d" and i: "input_typed input"
    and r: "driver_step persist H input now d = Some (Inl (DriverPersistence e) :: ('e, 'r) driver_error + driver_effect list, d')"
  shows "dr_persistence d' = dr_persistence d" "dr_blocked d' \<noteq> None"
    "retry_persistence persist' H later d' = driver_step persist' H input later d"
proof -
  have b: "dr_blocked d = None" using r by (auto simp: driver_step_def split: if_splits)
  have "dr_persistence d' = dr_persistence d \<and> dr_blocked d' \<noteq> None \<and>
    retry_persistence persist' H later d' = driver_step persist' H input later d"
    using ok b i r
  proof (cases rule: step_shape)
    case (safe r1 s)
    then show ?thesis by (cases r1) (auto simp: delivered_def)
  next
    case (asked q s r1)
    let ?d = "d\<lparr>dr_core := s\<rparr>"
    have d: "?d\<lparr>dr_blocked := None\<rparr> = ?d" using b by simp
    with asked have "core_ok H (dr_core ?d)" "cr_pending (dr_core ?d) = Some q"
      "driver_persist persist H now (pend_id q) (driver_epoch ?d) (pend_mutation q) (?d\<lparr>dr_blocked := None\<rparr>) = (r1, d')" by simp_all
    note pp = persist_pending[OF this(1,2) asked(4) this(3)]
    have "r1 = Inl (DriverPersistence e)" using delivered_Some[OF asked(5)] by blast
    then have "r1 \<noteq> map_err DriverCore r" for r by (cases r) simp_all
    then have d': "d' = ?d\<lparr>dr_blocked := blocked_on s\<rparr>" using pp by auto
    then have "dr_blocked d' = Some \<lparr>bp_id = pend_id q, bp_epoch = driver_epoch ?d, bp_mutation = pend_mutation q\<rparr>"
      using asked(2) by (simp add: blocked_on_def)
    then show ?thesis
      unfolding step_delivered[OF b asked(1)] by (simp add: retry_delivered d' d)
  qed
  then show "dr_persistence d' = dr_persistence d" "dr_blocked d' \<noteq> None"
    "retry_persistence persist' H later d' = driver_step persist' H input later d" by blast+
qed

end

end
