(* ===== verification/Driver_Cluster.thy ===== *)
theory Driver_Cluster
  imports Driver_Durability
begin

text \<open>
  A cluster whose nodes are drivers over databases. Every node steps through \<open>driver.rs\<close> and keeps its
  durable state in its own database; persistence may fail at any time; a node that restarts reads its database
  back. Such a cluster refines the cluster of cores, so what holds of the latter holds of what is on disk.
\<close>

section \<open>Drivers, databases and a network\<close>

type_synonym driver_cluster = "(node_id \<Rightarrow> database driver option) \<times> core_network"
type_synonym 'a outcome = "(store_error, unit) driver_error + 'a"

definition handed_by :: "node_id \<Rightarrow> driver_effect list outcome \<Rightarrow> core_network" where
  "handed_by n result = (case result of Inl _ \<Rightarrow> {} | Inr effects \<Rightarrow> {(n, to, m) | to m. DriverSend to m \<in> set effects})"

abbreviation config_epoch :: "core_config \<Rightarrow> nat" where
  "config_epoch config \<equiv> spec_membership_epoch (plan_spec (cfg_plan config))"

inductive driver_cluster_step :: "(bytes \<Rightarrow> bytes) \<Rightarrow> (node_id \<Rightarrow> core_config) \<Rightarrow> driver_cluster \<Rightarrow> driver_cluster \<Rightarrow> bool"
  for H config where
  stepped: "D n = Some d \<Longrightarrow> deliverable N n input \<Longrightarrow> input_typed input \<Longrightarrow>
    driver_step (database_persist H failpoint) H input now d = Some (result :: driver_effect list outcome, d') \<Longrightarrow>
    driver_cluster_step H config (D, N) (D(n \<mapsto> d'), N \<union> handed_by n result)"
| retried: "D n = Some d \<Longrightarrow>
    retry_persistence (database_persist H failpoint) H now d = Some (result :: driver_effect list outcome, d') \<Longrightarrow>
    driver_cluster_step H config (D, N) (D(n \<mapsto> d'), N \<union> handed_by n result)"
| confirmed: "D n = Some d \<Longrightarrow>
    driver_apply_term_confirmation (database_persist H failpoint) H e now d = Some (result :: driver_effect list outcome, d') \<Longrightarrow>
    driver_cluster_step H config (D, N) (D(n \<mapsto> d'), N \<union> handed_by n result)"
| budgeted: "D n = Some d \<Longrightarrow>
    driver_set_replication_budgets budget overrides d = (result :: unit outcome, d') \<Longrightarrow>
    driver_cluster_step H config (D, N) (D(n \<mapsto> d'), N)"
| restarted: "D n = Some d \<Longrightarrow> load_state H (dr_persistence d) (config_epoch (config n)) = Inr durable \<Longrightarrow>
    restore H (config n) durable = Inr s \<Longrightarrow>
    driver_cluster_step H config (D, N) (D(n \<mapsto> driver_new s (dr_persistence d)), N)"

definition driver_boot :: "(bytes \<Rightarrow> bytes) \<Rightarrow> (node_id \<Rightarrow> core_config) \<Rightarrow> (node_id \<Rightarrow> bytes) \<Rightarrow> driver_cluster" where
  "driver_boot H config part =
     ((\<lambda>n. case initialise_plan H (cfg_plan (config n)) (empty_database (part n)) of
         (Inl _, _) \<Rightarrow> None
       | (Inr _, db) \<Rightarrow> (case core_new H (config n) of Inl _ \<Rightarrow> None | Inr s \<Rightarrow> Some (driver_new s db))), {})"

abbreviation driver_reaches :: "(bytes \<Rightarrow> bytes) \<Rightarrow> (node_id \<Rightarrow> core_config) \<Rightarrow> driver_cluster \<Rightarrow> driver_cluster \<Rightarrow> bool" where
  "driver_reaches H config \<equiv> (driver_cluster_step H config)\<^sup>*\<^sup>*"

text \<open>The plan has the identifiers and epochs that a database can hold.\<close>

definition plan_storable :: "compiled_quorum_plan \<Rightarrow> bool" where
  "plan_storable plan \<longleftrightarrow>
     spec_typed (plan_spec plan) \<and> 0 < spec_membership_epoch (plan_spec plan) \<and> spec_membership_epoch (plan_spec plan) \<le> i64_max"

definition cores_of :: "driver_cluster \<Rightarrow> cluster" where
  "cores_of K = (\<lambda>n. map_option dr_core (fst K n), snd K)"

lemma cores_of_simps [simp]:
  "fst (cores_of K) n = map_option dr_core (fst K n)" "snd (cores_of K) = snd K"
  "cores_of (D(n \<mapsto> d), N) = ((fst (cores_of (D, N)))(n \<mapsto> dr_core d), N)" "fst (cores_of (D, N \<union> N')) = fst (cores_of (D, N))"
  by (auto simp: cores_of_def)

definition hosted :: "(bytes \<Rightarrow> bytes) \<Rightarrow> compiled_quorum_plan \<Rightarrow> database driver \<Rightarrow> bool" where
  "hosted H plan d \<longleftrightarrow> driver_ok (recorded H) H d \<and> cr_active_plan (dr_core d) = Stable plan"

abbreviation all_hosted :: "(bytes \<Rightarrow> bytes) \<Rightarrow> compiled_quorum_plan \<Rightarrow> driver_cluster \<Rightarrow> bool" where
  "all_hosted H plan K \<equiv> (\<forall>n d. fst K n = Some d \<longrightarrow> hosted H plan d)"

section \<open>Restarts\<close>

text \<open>What a driver's database gives back is the core's durable state, with some committed applied index.\<close>

lemma hosted_loads:
  assumes "hosted H plan d"
  shows "\<exists>k \<le> cr_commit_index (dr_core d).
    load_state H (dr_persistence d) (spec_membership_epoch (plan_spec plan)) = Inr (stored (dr_core d) k)"
  using assms by (auto simp: hosted_def driver_ok_def in_store_def recorded_def load_state_iff)

lemma hosted_survives:
  assumes "hosted H plan d" "load_state H (dr_persistence d) (spec_membership_epoch (plan_spec plan)) = Inr durable"
  shows "survives H (dr_core d) durable"
  using hosted_loads[OF assms(1)] assms(2) by (auto simp: survives_def)

lemma spec_typed_leaders:
  assumes "valid_plan H plan" "spec_typed (plan_spec plan)" "v |\<in>| active_eligible_leaders (Stable plan)"
  shows "identifier_ok (node_bytes v)"
  using assms by (auto simp: spec_typed_def identifiers_typed_def)

lemma restored_hosted:
  assumes cfg: "valid_plan H plan" "plan_storable plan" "cfg_plan config = plan"
    and l: "records H db (spec_membership_epoch (plan_spec plan)) durable" "anchored db" and r: "restore H config durable = Inr s"
  shows "hosted H plan (driver_new s db)"
proof -
  have "core_ok H s"
    using restored_node_ok(2)[OF r] restore_shape[OF r] cfg spec_typed_leaders[OF cfg(1)] by (simp add: core_ok_def plan_storable_def)
  moreover have "stored s (dur_applied_index durable) = durable" "cr_commit_index s = dur_applied_index durable"
    "cr_active_plan s = Stable plan" "cr_pending s = None"
    using restore_shape[OF r] cfg(3) by (simp_all add: stored_def)
  ultimately show ?thesis
    using l by (auto simp: hosted_def driver_ok_def in_store_def recorded_def driver_new_def blocked_on_def intro: exI[of _ "dur_applied_index durable"])
qed

section \<open>Refinement\<close>

lemma handed_sent:
  assumes "delivered (map_err DriverCore r, d) = Some (result, d')" "\<And>x. r = Inr x \<Longrightarrow> list_all no_persist x"
  shows "handed_by n result = sent_by n r"
proof (cases r)
  case (Inl e)
  then show ?thesis using assms(1) by (auto simp: delivered_def handed_by_def sent_by_def)
next
  case (Inr x)
  have "DriverSend to m \<in> set (handed_out x) \<longleftrightarrow> Send to m \<in> set x" for to m
  proof -
    have "e \<in> set x \<Longrightarrow> the (safe_effect e) = DriverSend to m \<longleftrightarrow> e = Send to m" for e
      using assms(2)[OF Inr] by (cases e) (auto simp: list_all_iff)
    then show ?thesis by (force simp: handed_out_def)
  qed
  then show ?thesis using assms(1) Inr by (auto simp: delivered_def handed_by_def sent_by_def)
qed

text \<open>One delivery or completion of a core, as a step of the cluster of cores.\<close>

lemma core_handles:
  assumes "fst K n = Some d" "deliverable (snd K) n input" "step H input (dr_core d) = (r, s)"
  shows "cluster_step H config (cores_of K) ((fst (cores_of K))(n \<mapsto> s), snd K \<union> sent_by n r)"
  using handle[of "fst (cores_of K)" n "dr_core d" "snd K" input H r s config] assms by (simp add: cores_of_def)

lemma persisted_handles:
  assumes "step H (Persisted i) s = (r, s')" "C n = Some s"
  shows "cluster_step H config (C, N) (C(n \<mapsto> s'), N \<union> sent_by n r)"
  using handle[of C n s N "Persisted i" H r s' config] assms by (simp add: deliverable_def)

lemma persist_simulated:
  fixes result :: "driver_effect list outcome" and d :: "database driver"
  assumes ok: "core_ok H (dr_core d)" "cr_pending (dr_core d) = Some q" "in_store (recorded H) d"
    and p: "driver_persist (database_persist H failpoint) H now (pend_id q) (driver_epoch d) (pend_mutation q) (d\<lparr>dr_blocked := None\<rparr>) = (r, d')"
      "delivered (r, d') = Some (result, d')" and C: "C n = Some (dr_core d)"
  shows "reaches H config (C, N) (C(n \<mapsto> dr_core d'), N \<union> handed_by n result)"
  using sqlite.persist_pending[OF ok p(1)]
proof (elim disjE exE conjE)
  fix e assume "r = Inl (DriverPersistence e)" "d' = d\<lparr>dr_blocked := blocked_on (dr_core d)\<rparr>"
  then show ?thesis using p(2) C by (auto simp: delivered_def handed_by_def fun_upd_idem)
next
  fix r1 assume r1: "step H (Persisted (pend_id q)) (dr_core d) = (r1, dr_core d')" "r = map_err DriverCore r1"
  have "handed_by n result = sent_by n r1"
    by (rule handed_sent[OF p(2)[unfolded r1(2)]]) (use persisted_unasked r1(1) in blast)
  then show ?thesis using persisted_handles[of H _ "dr_core d" r1 "dr_core d'" C n, OF r1(1) C, of config N] by simp
qed

lemma step_simulated:
  fixes result :: "driver_effect list outcome"
  assumes ok: "driver_ok (recorded H) H d" and K: "fst K n = Some d" and i: "deliverable (snd K) n input" "input_typed input"
    and r: "driver_step (database_persist H failpoint) H input now d = Some (result, d')"
  shows "reaches H config (cores_of K) ((fst (cores_of K))(n \<mapsto> dr_core d'), snd K \<union> handed_by n result)"
proof (cases "dr_blocked d")
  case (Some b)
  then have "d' = d" "handed_by n result = {}" using r by (auto simp: driver_step_def handed_by_def)
  then show ?thesis using K by (simp add: cores_of_def fun_upd_idem)
next
  case None
  from ok None i(2) r show ?thesis
  proof (cases rule: sqlite.step_shape)
    case (safe r1 s)
    have "handed_by n result = sent_by n r1" by (rule handed_sent[OF safe(2,5)])
    moreover have "dr_core d' = s" using delivered_Some[OF safe(2)] by simp
    ultimately show ?thesis using core_handles[OF K i(1) safe(1), of config] by simp
  next
    case (asked q s r1)
    let ?d = "d\<lparr>dr_core := s\<rparr>"
    have d: "?d\<lparr>dr_blocked := None\<rparr> = ?d" using None by simp
    have 1: "cluster_step H config (cores_of K) ((fst (cores_of K))(n \<mapsto> s), snd K)"
      using core_handles[OF K i(1) asked(1), of config] by (simp add: sent_by_def)
    have "reaches H config ((fst (cores_of K))(n \<mapsto> s), snd K) ((fst (cores_of K))(n \<mapsto> s, n \<mapsto> dr_core d'), snd K \<union> handed_by n result)"
      by (rule persist_simulated[where d = ?d and q = q and r = r1 and failpoint = failpoint and now = now]) (use asked d in simp_all)
    then show ?thesis using converse_rtranclp_into_rtranclp[of "cluster_step H config", OF 1] by simp
  qed
qed

lemma retry_simulated:
  fixes result :: "driver_effect list outcome"
  assumes h: "hosted H plan d" and K: "fst K n = Some d"
    and r: "retry_persistence (database_persist H failpoint) H now d = Some (result, d')"
  shows "reaches H config (cores_of K) ((fst (cores_of K))(n \<mapsto> dr_core d'), snd K \<union> handed_by n result)"
proof (cases "cr_pending (dr_core d)")
  case None
  then have "d' = d" "handed_by n result = {}"
    using h r by (auto simp: retry_persistence_def hosted_def driver_ok_def blocked_on_def handed_by_def)
  then show ?thesis using K by (simp add: cores_of_def fun_upd_idem)
next
  case (Some q)
  have b: "dr_blocked d = Some \<lparr>bp_id = pend_id q, bp_epoch = driver_epoch d, bp_mutation = pend_mutation q\<rparr>"
    and ok: "core_ok H (dr_core d)" "in_store (recorded H) d"
    using h Some by (auto simp: hosted_def driver_ok_def blocked_on_def)
  obtain r1 :: "core_effect list outcome" and d1 where
    p: "driver_persist (database_persist H failpoint) H now (pend_id q) (driver_epoch d) (pend_mutation q) (d\<lparr>dr_blocked := None\<rparr>) = (r1, d1)"
    by fastforce
  have eq: "delivered (r1, d1) = Some (result, d')" using r p by (simp add: retry_delivered[OF b])
  have d1: "d1 = d'" using delivered_Some[OF eq] by simp
  show ?thesis
    using persist_simulated[OF ok(1) Some ok(2) p[unfolded d1] eq[unfolded d1], of "fst (cores_of K)" n config "snd K"] K
    by (simp add: cores_of_def)
qed

lemma confirmation_hosted:
  assumes h: "hosted H plan d" and e: "entry_index e \<le> cr_commit_index (dr_core d)"
    and c: "apply_term_confirmation H e (dr_persistence d) = (Inr (), db)"
  shows "hosted H plan (d\<lparr>dr_persistence := db\<rparr>)"
proof -
  obtain k where "recorded H (dr_persistence d) (driver_epoch d) (stored (dr_core d) k)"
    using h by (auto simp: hosted_def driver_ok_def in_store_def)
  then have "recorded H db (driver_epoch d) ((stored (dr_core d) k)\<lparr>dur_applied_index := entry_index e\<rparr>)"
    using confirmation_records(1,2)[OF c] by (auto simp: recorded_def)
  then have "recorded H db (driver_epoch d) (stored (dr_core d) (entry_index e))" by (simp add: stored_def)
  then show ?thesis using h e by (auto simp: hosted_def driver_ok_def in_store_def)
qed

lemma confirm_simulated:
  fixes result :: "driver_effect list outcome"
  assumes h: "hosted H plan d" and K: "fst K n = Some d"
    and r: "driver_apply_term_confirmation (database_persist H failpoint) H e now d = Some (result, d')"
  shows "hosted H plan d'" "reaches H config (cores_of K) ((fst (cores_of K))(n \<mapsto> dr_core d'), snd K \<union> handed_by n result)"
proof -
  consider (idle) err where "d' = d" "result = Inl err"
    | (applied) db where "entry_index e \<le> cr_commit_index (dr_core d)" "apply_term_confirmation H e (dr_persistence d) = (Inr (), db)"
      "driver_step (database_persist H failpoint) H (AppliedThrough (entry_index e)) now (d\<lparr>dr_persistence := db\<rparr>) = Some (result, d')"
    using r by (auto simp: driver_apply_term_confirmation_def apply_term_confirmation_def not_less split: if_splits prod.splits sum.splits)
  then have "hosted H plan d' \<and> reaches H config (cores_of K) ((fst (cores_of K))(n \<mapsto> dr_core d'), snd K \<union> handed_by n result)"
  proof cases
    case idle
    then show ?thesis using h K by (simp add: cores_of_def handed_by_def fun_upd_idem)
  next
    case applied
    let ?d = "d\<lparr>dr_persistence := db\<rparr>" and ?K = "((fst K)(n \<mapsto> d\<lparr>dr_persistence := db\<rparr>), snd K)"
    have h': "hosted H plan ?d" using confirmation_hosted[OF h applied(1,2)] .
    have i: "input_typed (AppliedThrough j)" "deliverable N n (AppliedThrough j)" for j N
      by (simp_all add: input_typed_def deliverable_def)
    have "cores_of ?K = cores_of K" using K by (auto simp: cores_of_def)
    then show ?thesis
      using sqlite.step_keeps[OF _ i(1) applied(3)] step_simulated[of H ?d ?K n, OF _ _ i(2,1) applied(3)] h'
      by (simp add: hosted_def)
  qed
  then show "hosted H plan d'" "reaches H config (cores_of K) ((fst (cores_of K))(n \<mapsto> dr_core d'), snd K \<union> handed_by n result)"
    by blast+
qed

lemma budgets_frame:
  assumes "set_replication_budgets budget overrides s = (r, s')"
  shows "calm s s'" "frame s s'"
  using assms by (auto simp: set_replication_budgets_def frame_defs calm_def split: if_splits)

lemma budget_hosted:
  assumes h: "hosted H plan d" and s: "set_replication_budgets budget overrides (dr_core d) = (r, s)"
  shows "hosted H plan (d\<lparr>dr_core := s\<rparr>)"
proof -
  note f = budgets_frame[OF s]
  have "node_ok H True UNIV s" using frame_node_ok[OF f(2)] h by (auto simp: hosted_def driver_ok_def core_ok_def)
  then show ?thesis
    using h calm_core_ok[OF f(1)] calm_in_store[OF f(1), of "recorded H" d] calm_stored[OF f(1)] f(1)
    by (auto simp: hosted_def driver_ok_def calm_def)
qed

lemma driver_step_simulated:
  assumes cfg: "configured H plan config" "plan_storable plan" and K: "all_hosted H plan K"
    and s: "driver_cluster_step H config K K'"
  shows "reaches H config (cores_of K) (cores_of K') \<and> all_hosted H plan K'"
  using s
proof cases
  case (stepped D n d N input failpoint now result d')
  have h: "hosted H plan d" using K stepped(1,3) by simp
  then have "hosted H plan d'" using sqlite.step_keeps[OF _ stepped(5,6)] by (simp add: hosted_def)
  then show ?thesis
    using step_simulated[of H d K n, OF _ _ _ stepped(5,6), of config] h stepped(1-4) K by (simp add: hosted_def)
next
  case (retried D n d failpoint now result d' N)
  have h: "hosted H plan d" using K retried(1,3) by simp
  then have h': "hosted H plan d'" using sqlite.retry_keeps[OF _ retried(4)] by (simp add: hosted_def)
  have "reaches H config (cores_of K) ((fst (cores_of K))(n \<mapsto> dr_core d'), snd K \<union> handed_by n result)"
    by (rule retry_simulated[OF h _ retried(4)]) (use retried(1,3) in simp)
  then show ?thesis using h' K retried(1-3) by simp
next
  case (confirmed D n d failpoint e now result d' N)
  have h: "hosted H plan d" "fst K n = Some d" using K confirmed(1,3) by simp_all
  show ?thesis using confirm_simulated(1)[OF h confirmed(4)] confirm_simulated(2)[OF h confirmed(4), of config] confirmed(1-3) K by simp
next
  case (budgeted D n d budget overrides result d' N)
  obtain r s where b: "set_replication_budgets budget overrides (dr_core d) = (r, s)" by fastforce
  then have d': "d' = d\<lparr>dr_core := s\<rparr>" using budgeted(4) by (cases r) (auto simp: driver_set_replication_budgets_def)
  have "cluster_step H config (cores_of K) ((fst (cores_of K))(n \<mapsto> s), snd K)"
    using set_budgets[where C = "fst (cores_of K)" and n = n and N = "snd K", OF _ b, of H config] budgeted(1,3)
    by (simp add: cores_of_def)
  moreover have "hosted H plan d'" using budget_hosted[OF _ b] K budgeted(1,3) d' by simp
  ultimately show ?thesis using K budgeted(1,2,3) d' by auto
next
  case (restarted D n d durable s N)
  have plan: "cfg_plan (config n) = plan" "valid_plan H plan" using cfg(1) by (auto simp: configured_def)
  have h: "hosted H plan d" using K restarted(1,3) by simp
  have v: "survives H (dr_core d) durable" using hosted_survives[OF h] restarted(4) plan by simp
  have "cluster_step H config (cores_of K) ((fst (cores_of K))(n \<mapsto> s), snd K)"
    using crash[where C = "fst (cores_of K)" and n = n and N = "snd K" and config = config, OF _ v restarted(5)] restarted(1,3) by (simp add: cores_of_def)
  moreover have "anchored (dr_persistence d)" using h by (auto simp: hosted_def driver_ok_def in_store_def recorded_def)
  then have "hosted H plan (driver_new s (dr_persistence d))"
    using restored_hosted[OF plan(2) cfg(2) plan(1) _ _ restarted(5)] restarted(4) plan by (simp add: load_state_iff)
  ultimately show ?thesis using K restarted(1-3) by (auto simp: driver_new_def)
qed

lemma boot_hosted:
  assumes "configured H plan config" "plan_storable plan"
  shows "cores_of (driver_boot H config part) = boot H config" "all_hosted H plan (driver_boot H config part)"
proof -
  have plan: "cfg_plan (config n) = plan" "valid_plan H plan" for n using assms(1) by (auto simp: configured_def)
  have init: "\<exists>db. initialise_plan H plan (empty_database (part n)) = (Inr (Stable plan), db) \<and>
      records H db (spec_membership_epoch (plan_spec plan)) durable_default \<and> anchored db" for n
    using initialised_records[OF plan(2)] assms(2) by (simp add: plan_storable_def)
  have "map_option dr_core (fst (driver_boot H config part) n) = fst (boot H config) n" for n
    using init[of n] plan(1)[of n] by (auto simp: driver_boot_def boot_def driver_new_def split: sum.split)
  then show "cores_of (driver_boot H config part) = boot H config"
    by (auto simp: cores_of_def) (simp_all add: boot_def driver_boot_def)
  show "all_hosted H plan (driver_boot H config part)"
  proof (intro allI impI)
    fix n d assume "fst (driver_boot H config part) n = Some d"
    then obtain s db where s: "core_new H (config n) = Inr s" "d = driver_new s db"
      "records H db (spec_membership_epoch (plan_spec plan)) durable_default" "anchored db"
      using init[of n] plan(1)[of n] by (auto simp: driver_boot_def split: sum.splits)
    show "hosted H plan d"
      using restored_hosted[OF plan(2) assms(2) plan(1) s(3,4)] s(1,2) by (simp add: core_new_def)
  qed
qed

lemma driver_run_simulated:
  assumes cfg: "configured H plan config" "plan_storable plan" and K: "all_hosted H plan K" and run: "driver_reaches H config K K'"
  shows "reaches H config (cores_of K) (cores_of K') \<and> all_hosted H plan K'"
  using run
proof (induction rule: rtranclp_induct)
  case (step K1 K2)
  then show ?case using driver_step_simulated[OF cfg _ step.hyps(2)] by (meson rtranclp_trans)
qed (use K in simp)

lemma driver_boot_reaches:
  assumes "configured H plan config" "plan_storable plan" "driver_reaches H config (driver_boot H config part) K"
  shows "reaches H config (boot H config) (cores_of K)" "all_hosted H plan K"
  using driver_run_simulated[OF assms(1,2) boot_hosted(2)[OF assms(1,2)] assms(3)] boot_hosted(1)[OF assms(1,2)] by simp_all

end
