(* ===== verification/Driver_Properties.thy ===== *)
theory Driver_Properties
  imports Driver_Cluster Membership_Properties
begin

text \<open>
  What the driver and its database promise, alone and as nodes of a cluster, each applied to a run of a
  single voter that is elected, commits and applies an entry, fails to persist, retries and restarts.
\<close>

section \<open>A run on disk\<close>

datatype host_op = Handle core_input | Refuse core_input | Retry | Confirm nat | Restart

definition host_op :: "(bytes \<Rightarrow> bytes) \<Rightarrow> core_config \<Rightarrow> host_op \<Rightarrow> database driver \<Rightarrow> database driver option" where
  "host_op H config op d =
     (case op of
        Handle input \<Rightarrow> map_option snd (driver_step (database_persist H NoFailpoint) H input 0 d
          :: (database, store_error, unit, driver_effect list) driver_result)
      | Refuse input \<Rightarrow> map_option snd (driver_step (database_persist H BeforeCommit) H input 0 d
          :: (database, store_error, unit, driver_effect list) driver_result)
      | Retry \<Rightarrow> map_option snd (retry_persistence (database_persist H NoFailpoint) H 0 d
          :: (database, store_error, unit, driver_effect list) driver_result)
      | Confirm i \<Rightarrow> Option.bind (entry (dr_core d) i) (\<lambda>e.
          map_option snd (driver_apply_term_confirmation (database_persist H NoFailpoint) H e 0 d
            :: (database, store_error, unit, driver_effect list) driver_result))
      | Restart \<Rightarrow>
          (case load_state H (dr_persistence d) (config_epoch config) of
             Inl _ \<Rightarrow> None
           | Inr durable \<Rightarrow> (case restore H config durable of Inl _ \<Rightarrow> None | Inr s \<Rightarrow> Some (driver_new s (dr_persistence d)))))"

fun host_run :: "(bytes \<Rightarrow> bytes) \<Rightarrow> core_config \<Rightarrow> host_op list \<Rightarrow> database driver \<Rightarrow> database driver option" where
  "host_run H config [] d = Some d"
| "host_run H config (op # ops) d = Option.bind (host_op H config op d) (host_run H config ops)"

definition solo_config :: "node_id \<Rightarrow> core_config" where
  "solo_config n = \<lparr>cfg_partition_id = PartitionId (replicate 16 5), cfg_local_node_id = n, cfg_local_incarnation = (if n = member_one then 3 else 5),
     cfg_plan = solo_plan, cfg_member_incarnations = solo_incarnations\<rparr>"

definition solo_boot :: driver_cluster where
  "solo_boot = driver_boot fixed_digest solo_config (\<lambda>_. replicate 16 5)"

definition solo_host :: "database driver" where
  "solo_host = the (fst solo_boot member_one)"

lemma solo_configured: "configured fixed_digest solo_plan solo_config"
  using solo_valid by (simp add: configured_def solo_config_def)

lemma solo_storable: "plan_storable solo_plan"
  using solo_typed by (simp add: plan_storable_def) (simp add: solo_plan_def solo_spec_def i64_max_def)

lemma solo_hosts: "fst solo_boot member_one = Some solo_host"
proof -
  have "is_ok (core_new fixed_digest (solo_config member_one))" by code_simp
  then have "fst (boot fixed_digest solo_config) member_one \<noteq> None" by (auto simp: boot_def is_ok_def split: sum.splits)
  then have "fst (cores_of solo_boot) member_one \<noteq> None"
    using boot_hosted(1)[OF solo_configured solo_storable] by (simp add: solo_boot_def)
  then show ?thesis by (auto simp: solo_host_def)
qed

definition op_allowed :: "host_op \<Rightarrow> bool" where
  "op_allowed op = (case op of Handle input \<Rightarrow> input_typed input \<and> (\<forall>N n. deliverable N n input)
     | Refuse input \<Rightarrow> input_typed input \<and> (\<forall>N n. deliverable N n input) | _ \<Rightarrow> True)"

lemma host_op_reaches:
  assumes "host_op H (config n) op d = Some d'" "op_allowed op" "D n = Some d"
  shows "\<exists>N'. driver_cluster_step H config (D, N) (D(n \<mapsto> d'), N')"
proof (cases op)
  case (Handle input)
  then show ?thesis using assms stepped[where D = D and n = n and N = N, OF assms(3), of input H NoFailpoint 0]
    by (auto simp: host_op_def op_allowed_def)
next
  case (Refuse input)
  then show ?thesis using assms stepped[where D = D and n = n and N = N, OF assms(3), of input H BeforeCommit 0]
    by (auto simp: host_op_def op_allowed_def)
next
  case Retry
  then show ?thesis using assms retried[where D = D and n = n and N = N, OF assms(3), of H NoFailpoint 0] by (auto simp: host_op_def)
next
  case (Confirm i)
  then show ?thesis using assms confirmed[where D = D and n = n and N = N, OF assms(3), of H NoFailpoint _ 0]
    by (fastforce simp: host_op_def bind_eq_Some_conv)
next
  case Restart
  then show ?thesis using assms restarted[where D = D and n = n and N = N, OF assms(3), of H config]
    by (auto simp: host_op_def split: sum.splits)
qed

lemma host_run_reaches:
  assumes "host_run H (config n) ops d = Some d'" "list_all op_allowed ops" "fst K n = Some d"
  shows "\<exists>K'. driver_reaches H config K K' \<and> fst K' n = Some d'"
  using assms
proof (induction ops arbitrary: d K)
  case (Cons op ops)
  obtain d1 where d1: "host_op H (config n) op d = Some d1" "host_run H (config n) ops d1 = Some d'"
    using Cons.prems(1) by (auto simp: bind_eq_Some_conv)
  obtain N' where s: "driver_cluster_step H config K ((fst K)(n \<mapsto> d1), N')"
    using host_op_reaches[where config = config and n = n, OF d1(1), of "fst K" "snd K"] Cons.prems by auto
  obtain K' where "driver_reaches H config ((fst K)(n \<mapsto> d1), N') K'" "fst K' n = Some d'"
    using Cons.IH[OF d1(2), of "((fst K)(n \<mapsto> d1), N')"] Cons.prems(2) by auto
  then show ?case using converse_rtranclp_into_rtranclp[of "driver_cluster_step H config", OF s] by blast
qed auto

definition commits :: "host_op list" where
  "commits = [Handle ElectionTimeout, Handle (ConfirmTerm (ProposalId 1) (OperationId (replicate 16 1))), Confirm 1]"

definition comes_back :: "host_op list" where
  "comes_back = [Restart, Handle ElectionTimeout]"

lemma ops_allowed: "list_all op_allowed commits" "list_all op_allowed comes_back"
  by (simp_all add: commits_def comes_back_def op_allowed_def input_typed_def deliverable_def)

lemma solo_life:
  "case host_run fixed_digest (solo_config member_one) commits solo_host of
     None \<Rightarrow> False
   | Some d \<Rightarrow> db_applied_index (dr_persistence d) = 1 \<and> length (db_log (dr_persistence d)) = 1 \<and>
       (case host_run fixed_digest (solo_config member_one) comes_back d of
          None \<Rightarrow> False
        | Some d' \<Rightarrow> db_applied_index (dr_persistence d') = 1 \<and> cr_current_term (dr_core d') = 2)"
  by code_simp

lemma solo_refused:
  "case driver_step (database_persist fixed_digest BeforeCommit) fixed_digest ElectionTimeout 0 solo_host of
     None \<Rightarrow> False
   | Some (result, d') \<Rightarrow> (result :: driver_effect list outcome) = Inl (DriverPersistence InjectedFault)"
  by code_simp

lemma solo_reaches:
  obtains K K' d d' where "driver_reaches fixed_digest solo_config solo_boot K" "driver_reaches fixed_digest solo_config K K'"
    "fst K member_one = Some d" "fst K' member_one = Some d'"
    "db_applied_index (dr_persistence d) = 1" "length (db_log (dr_persistence d)) = 1"
    "db_applied_index (dr_persistence d') = 1" "cr_current_term (dr_core d') = 2"
proof -
  obtain d d' where d: "host_run fixed_digest (solo_config member_one) commits solo_host = Some d"
    "host_run fixed_digest (solo_config member_one) comes_back d = Some d'"
    and a: "db_applied_index (dr_persistence d) = 1" "length (db_log (dr_persistence d)) = 1"
      "db_applied_index (dr_persistence d') = 1" "cr_current_term (dr_core d') = 2"
    using solo_life by (auto split: option.splits)
  obtain K where K: "driver_reaches fixed_digest solo_config solo_boot K" "fst K member_one = Some d"
    using host_run_reaches[where config = solo_config, OF d(1) ops_allowed(1) solo_hosts] by blast
  obtain K' where "driver_reaches fixed_digest solo_config K K'" "fst K' member_one = Some d'"
    using host_run_reaches[where config = solo_config, OF d(2) ops_allowed(2) K(2)] by blast
  then show thesis using that K a by blast
qed

section \<open>Databases of a cluster\<close>





text \<open>
  C6. A cluster of drivers over databases refines the cluster of cores: forget the databases and the blocked
  mutations, and every run, with its failed transactions, retries and restarts, is a run of the cores from
  freshly created ones, with exactly the messages the drivers handed out.
\<close>

theorem driver_cluster_refines:
  assumes "configured H plan config" "plan_storable plan" "driver_reaches H config (driver_boot H config part) K"
  shows "reaches H config (boot H config) (cores_of K)"
  by (rule driver_boot_reaches(1)[OF assms])

theorem driver_cluster_refines_witness:
  "\<exists>K d. driver_reaches fixed_digest solo_config solo_boot K \<and> fst K member_one = Some d \<and> db_applied_index (dr_persistence d) = 1 \<and>
     reaches fixed_digest solo_config (boot fixed_digest solo_config) (cores_of K)"
proof -
  obtain K K' d d' where x: "driver_reaches fixed_digest solo_config solo_boot K" "fst K member_one = Some d"
    "db_applied_index (dr_persistence d) = 1" by (rule solo_reaches)
  then show ?thesis using driver_cluster_refines[OF solo_configured solo_storable x(1)[unfolded solo_boot_def]] x by blast
qed



section \<open>One driver\<close>

lemma driver_process_returns: "\<exists>result. driver_process persist H now effects d = Some result"
  unfolding driver_process_def using process_queue_returns by (metis (no_types, lifting) option.simps(5))

text \<open>
  C18. The driver's loop ends: whatever the store answers and whatever state the driver is in, a step and a
  retry return, with effects or an error. A completed mutation never makes the core ask for another one.
\<close>

theorem driver_returns:
  "(\<exists>result. driver_step persist H input now d = Some result) \<and> (\<exists>result. retry_persistence persist H now d = Some result)"
  by (auto simp: driver_step_def retry_persistence_def driver_process_returns[simplified] split: option.split prod.split sum.split)

text \<open>
  C19. A failed transaction is harmless: when a step of a node cannot persist its mutation, the database is as
  before, every further input is refused and changes nothing, and retrying, with a transaction that fails
  or one that commits, gives the effects, the error and the state that the step itself would have given then.
\<close>

theorem failed_persistence_resumes:
  assumes "configured H plan config" "plan_storable plan" "driver_reaches H config (driver_boot H config part) K" "fst K n = Some d"
    and "input_typed input"
    and "driver_step (database_persist H failpoint) H input now d = Some (Inl (DriverPersistence e) :: driver_effect list outcome, d')"
  shows "dr_persistence d' = dr_persistence d \<and>
    driver_step persist H other later d' = Some (Inl PersistenceBlocked, d') \<and>
    retry_persistence (database_persist H failpoint') H later d' = driver_step (database_persist H failpoint') H input later d"
proof -
  have ok: "driver_ok (recorded H) H d" using driver_boot_reaches(2)[OF assms(1-3)] assms(4) by (auto simp: hosted_def)
  note x = sqlite.retry_resumes[OF ok assms(5,6)]
  show ?thesis using x(1,2) unfolding x(3) by (simp add: driver_step_def)
qed

theorem failed_persistence_resumes_witness:
  "\<exists>d'. driver_step (database_persist fixed_digest BeforeCommit) fixed_digest ElectionTimeout 0 solo_host
       = Some (Inl (DriverPersistence InjectedFault) :: driver_effect list outcome, d') \<and>
     dr_persistence d' = dr_persistence solo_host \<and>
     retry_persistence (database_persist fixed_digest NoFailpoint) fixed_digest 7 d'
       = (driver_step (database_persist fixed_digest NoFailpoint) fixed_digest ElectionTimeout 7 solo_host
          :: (database, store_error, unit, driver_effect list) driver_result)"
proof -
  obtain d' where d': "driver_step (database_persist fixed_digest BeforeCommit) fixed_digest ElectionTimeout 0 solo_host
       = Some (Inl (DriverPersistence InjectedFault) :: driver_effect list outcome, d')"
    using solo_refused by (auto split: option.splits)
  have i: "input_typed ElectionTimeout" by (simp add: input_typed_def)
  show ?thesis
    using failed_persistence_resumes[OF solo_configured solo_storable rtranclp.rtrancl_refl solo_hosts[unfolded solo_boot_def] i d'] d'
    by blast
qed

end
