(* ===== verification/Topology.thy ===== *)
theory Topology
  imports Prelude
begin

text \<open>
  Fault topology and the exact proof of simultaneous losses (\<open>topology.rs\<close> of \<open>meshspan-domain\<close>). Hosts
  carry storage targets; fault groups name hosts and targets that fail together and belong to classes. A
  failure scenario lets a number of groups fail in each of several classes at once. \<open>prove_protection\<close>
  enumerates every such loss against one layout of slices.
\<close>

section \<open>Identifiers\<close>

datatype host_id = HostId (host_bytes: bytes)
datatype target_id = TargetId (target_bytes: bytes)
datatype fault_group_id = FaultGroupId (fault_group_bytes: bytes)
datatype fault_group_class_id = FaultGroupClassId (fault_class_bytes: bytes)

instantiation host_id :: linorder
begin
definition less_eq_host_id :: "host_id \<Rightarrow> host_id \<Rightarrow> bool" where
  "less_eq_host_id a b = (host_bytes a \<le> host_bytes b)"
definition less_host_id :: "host_id \<Rightarrow> host_id \<Rightarrow> bool" where
  "less_host_id a b = (host_bytes a < host_bytes b)"
instance
  by standard (auto simp: less_eq_host_id_def less_host_id_def host_id.expand)
end

instantiation target_id :: linorder
begin
definition less_eq_target_id :: "target_id \<Rightarrow> target_id \<Rightarrow> bool" where
  "less_eq_target_id a b = (target_bytes a \<le> target_bytes b)"
definition less_target_id :: "target_id \<Rightarrow> target_id \<Rightarrow> bool" where
  "less_target_id a b = (target_bytes a < target_bytes b)"
instance
  by standard (auto simp: less_eq_target_id_def less_target_id_def target_id.expand)
end

instantiation fault_group_id :: linorder
begin
definition less_eq_fault_group_id :: "fault_group_id \<Rightarrow> fault_group_id \<Rightarrow> bool" where
  "less_eq_fault_group_id a b = (fault_group_bytes a \<le> fault_group_bytes b)"
definition less_fault_group_id :: "fault_group_id \<Rightarrow> fault_group_id \<Rightarrow> bool" where
  "less_fault_group_id a b = (fault_group_bytes a < fault_group_bytes b)"
instance
  by standard (auto simp: less_eq_fault_group_id_def less_fault_group_id_def fault_group_id.expand)
end

datatype fault_group_member = HostMember host_id | TargetMember target_id

text \<open>The derived order: hosts before targets.\<close>

instantiation fault_group_member :: linorder
begin
definition less_eq_fault_group_member :: "fault_group_member \<Rightarrow> fault_group_member \<Rightarrow> bool" where
  "less_eq_fault_group_member m n =
     (case m of
        HostMember a \<Rightarrow> (case n of HostMember b \<Rightarrow> a \<le> b | TargetMember _ \<Rightarrow> True)
      | TargetMember a \<Rightarrow> (case n of HostMember _ \<Rightarrow> False | TargetMember b \<Rightarrow> a \<le> b))"
definition less_fault_group_member :: "fault_group_member \<Rightarrow> fault_group_member \<Rightarrow> bool" where
  "less_fault_group_member m n \<longleftrightarrow> m \<le> n \<and> \<not> n \<le> m"
instance
  by standard (auto simp: less_eq_fault_group_member_def less_fault_group_member_def split: fault_group_member.splits)
end

section \<open>Topology\<close>

datatype protection_error =
    UnknownHost | UnknownFaultGroup | UnknownResource | IdentityConflict | CapacityExceeded
  | InvalidScenario | InsufficientTopology | InvalidProofBound | ProofBoundExceeded | InvalidLayout

definition MAX_HOSTS :: nat where "MAX_HOSTS = 65536"
definition MAX_TARGETS :: nat where "MAX_TARGETS = 262144"
definition MAX_FAULT_GROUPS :: nat where "MAX_FAULT_GROUPS = 16384"
definition MAX_SCENARIO_TERMS :: nat where "MAX_SCENARIO_TERMS = 16"
definition MAX_SLICES_PER_STRIPE :: nat where "MAX_SLICES_PER_STRIPE = 24"

record fault_group =
  fg_class_id :: fault_group_class_id
  fg_members :: "fault_group_member fset"

record topology =
  tp_hosts :: "host_id fset"
  tp_target_hosts :: "(target_id, host_id) fmap"
  tp_fault_groups :: "(fault_group_id, fault_group) fmap"

definition topology_default :: topology where
  "topology_default = \<lparr>tp_hosts = {||}, tp_target_hosts = fmempty, tp_fault_groups = fmempty\<rparr>"

definition target_host :: "topology \<Rightarrow> target_id \<Rightarrow> host_id option" where
  "target_host t target = fmlookup (tp_target_hosts t) target"

definition register_host :: "host_id \<Rightarrow> topology \<Rightarrow> (protection_error + bool) \<times> topology" where
  "register_host host t =
     (if host |\<notin>| tp_hosts t \<and> fcard (tp_hosts t) = MAX_HOSTS then (Inl CapacityExceeded, t)
      else (Inr (host |\<notin>| tp_hosts t), t\<lparr>tp_hosts := finsert host (tp_hosts t)\<rparr>))"

definition register_target :: "target_id \<Rightarrow> host_id \<Rightarrow> topology \<Rightarrow> (protection_error + bool) \<times> topology" where
  "register_target target host t =
     (if host |\<notin>| tp_hosts t then (Inl UnknownHost, t)
      else case fmlookup (tp_target_hosts t) target of
          Some existing \<Rightarrow> if existing \<noteq> host then (Inl IdentityConflict, t) else (Inr False, t)
        | None \<Rightarrow>
            if fcard (fmdom (tp_target_hosts t)) = MAX_TARGETS then (Inl CapacityExceeded, t)
            else (Inr True, t\<lparr>tp_target_hosts := fmupd target host (tp_target_hosts t)\<rparr>))"

definition register_fault_group :: "fault_group_id \<Rightarrow> fault_group_class_id \<Rightarrow> topology \<Rightarrow> (protection_error + bool) \<times> topology" where
  "register_fault_group group_id class_id t =
     (case fmlookup (tp_fault_groups t) group_id of
        Some existing \<Rightarrow> if fg_class_id existing \<noteq> class_id then (Inl IdentityConflict, t) else (Inr False, t)
      | None \<Rightarrow>
          if fcard (fmdom (tp_fault_groups t)) = MAX_FAULT_GROUPS then (Inl CapacityExceeded, t)
          else (Inr True, t\<lparr>tp_fault_groups := fmupd group_id \<lparr>fg_class_id = class_id, fg_members = {||}\<rparr> (tp_fault_groups t)\<rparr>))"

definition require_member_exists :: "topology \<Rightarrow> fault_group_member \<Rightarrow> protection_error + unit" where
  "require_member_exists t member =
     (if (case member of HostMember host \<Rightarrow> host |\<in>| tp_hosts t | TargetMember target \<Rightarrow> target |\<in>| fmdom (tp_target_hosts t))
      then Inr () else Inl UnknownResource)"

definition add_fault_group_member :: "fault_group_id \<Rightarrow> fault_group_member \<Rightarrow> topology \<Rightarrow> (protection_error + bool) \<times> topology" where
  "add_fault_group_member group_id member t =
     (case require_member_exists t member of
        Inl e \<Rightarrow> (Inl e, t)
      | Inr _ \<Rightarrow>
          (case fmlookup (tp_fault_groups t) group_id of
             None \<Rightarrow> (Inl UnknownFaultGroup, t)
           | Some found \<Rightarrow>
               (Inr (member |\<notin>| fg_members found),
                t\<lparr>tp_fault_groups := fmupd group_id (found\<lparr>fg_members := finsert member (fg_members found)\<rparr>) (tp_fault_groups t)\<rparr>)))"

definition groups_in_class :: "topology \<Rightarrow> fault_group_class_id \<Rightarrow> fault_group_id list" where
  "groups_in_class t class_id = map fst (filter (\<lambda>(_, found). fg_class_id found = class_id) (btree_items (tp_fault_groups t)))"

definition member_targets :: "topology \<Rightarrow> fault_group_member \<Rightarrow> target_id fset" where
  "member_targets t member =
     (case member of
        HostMember host \<Rightarrow> fset_of_list (map fst (filter (\<lambda>(_, target_host). target_host = host) (btree_items (tp_target_hosts t))))
      | TargetMember target \<Rightarrow> {|target|})"

definition targets_affected_by :: "topology \<Rightarrow> fault_group_id list \<Rightarrow> target_id fset" where
  "targets_affected_by t failed_groups =
     foldl (\<lambda>targets group_id.
        case fmlookup (tp_fault_groups t) group_id of
          None \<Rightarrow> targets
        | Some found \<Rightarrow> foldl (\<lambda>targets member. targets |\<union>| member_targets t member) targets (btree_iter (fg_members found)))
       {||} failed_groups"

section \<open>Scenarios\<close>

record failure_term =
  ft_class_id :: fault_group_class_id
  ft_failure_count :: nat

datatype failure_scenario = FailureScenario (scenario_terms: "failure_term list")

fun scenario_loop :: "fault_group_class_id fset \<Rightarrow> failure_term list \<Rightarrow> protection_error + unit" where
  "scenario_loop classes [] = Inr ()"
| "scenario_loop classes (term # terms) =
     (if ft_failure_count term = 0 \<or> ft_class_id term |\<in>| classes then Inl InvalidScenario
      else scenario_loop (finsert (ft_class_id term) classes) terms)"

definition failure_scenario_new :: "failure_term list \<Rightarrow> protection_error + failure_scenario" where
  "failure_scenario_new terms =
     (if terms = [] \<or> length terms > MAX_SCENARIO_TERMS then Inl InvalidScenario
      else try_r (scenario_loop {||} terms) (\<lambda>_. Inr (FailureScenario terms)))"

primrec build_combinations ::
  "nat \<Rightarrow> 'a list \<Rightarrow> nat \<Rightarrow> 'a list \<Rightarrow> 'a list list \<Rightarrow> nat \<Rightarrow> protection_error + 'a list list" where
  "build_combinations 0 values start current output maximum_sets =
     (if length output = maximum_sets then Inl ProofBoundExceeded else Inr (output @ [current]))"
| "build_combinations (Suc remaining) values start current output maximum_sets =
     try_fold (\<lambda>output index. build_combinations remaining values (Suc index) (current @ [values ! index]) output maximum_sets)
       output [start ..< Suc (length values - Suc remaining)]"

definition combinations :: "'a list \<Rightarrow> nat \<Rightarrow> nat \<Rightarrow> protection_error + 'a list list" where
  "combinations values count maximum_sets = build_combinations count values 0 [] [] maximum_sets"

definition checked_mul :: "nat \<Rightarrow> nat \<Rightarrow> nat \<Rightarrow> nat option" where
  "checked_mul mx a b = (if a * b \<le> mx then Some (a * b) else None)"

definition cartesian_union :: "'a list list \<Rightarrow> 'a list list \<Rightarrow> nat \<Rightarrow> protection_error + 'a list list" where
  "cartesian_union left right maximum_sets =
     (case checked_mul u64_max (length left) (length right) of
        None \<Rightarrow> Inl ProofBoundExceeded
      | Some count \<Rightarrow>
          if count \<le> maximum_sets then Inr (concat (map (\<lambda>first. map (\<lambda>second. first @ second) right) left))
          else Inl ProofBoundExceeded)"

definition group_loss_sets :: "failure_scenario \<Rightarrow> topology \<Rightarrow> nat \<Rightarrow> protection_error + fault_group_id list list" where
  "group_loss_sets scenario t maximum_sets =
     (if maximum_sets = 0 then Inl InvalidProofBound
      else try_fold (\<lambda>combined term.
          let groups = groups_in_class t (ft_class_id term); count = ft_failure_count term
          in if count > length groups then Inl InsufficientTopology
             else try_r (combinations groups count maximum_sets) (\<lambda>selections. cartesian_union combined selections maximum_sets))
        [[]] (scenario_terms scenario))"

section \<open>Layouts and proofs\<close>

record protection_layout =
  pl_required_slices :: nat
  pl_slice_targets :: "target_id list"

definition protection_layout_new :: "nat \<Rightarrow> target_id list \<Rightarrow> protection_error + protection_layout" where
  "protection_layout_new required_slices slice_targets =
     (if required_slices = 0 \<or> required_slices > length slice_targets \<or> length slice_targets > MAX_SLICES_PER_STRIPE
      then Inl InvalidLayout
      else Inr \<lparr>pl_required_slices = required_slices, pl_slice_targets = slice_targets\<rparr>)"

record protection_proof =
  pp_survives :: bool
  pp_evaluated_loss_sets :: nat
  pp_minimum_remaining_slices :: nat

definition remaining_slices :: "topology \<Rightarrow> protection_layout \<Rightarrow> fault_group_id list \<Rightarrow> nat" where
  "remaining_slices t layout groups =
     (let lost_targets = targets_affected_by t groups
      in length (filter (\<lambda>target. target |\<notin>| lost_targets) (pl_slice_targets layout)))"

definition min_opt :: "nat list \<Rightarrow> nat option" where
  "min_opt ns = (case ns of [] \<Rightarrow> None | n # ns' \<Rightarrow> Some (foldl min n ns'))"

definition prove_protection :: "topology \<Rightarrow> failure_scenario \<Rightarrow> protection_layout \<Rightarrow> nat \<Rightarrow> protection_error + protection_proof" where
  "prove_protection t scenario layout maximum_loss_sets =
     (if list_ex (\<lambda>target. target |\<notin>| fmdom (tp_target_hosts t)) (pl_slice_targets layout) then Inl UnknownResource
      else try_r (group_loss_sets scenario t maximum_loss_sets) (\<lambda>loss_sets.
           try_r (ok_or InvalidScenario (min_opt (map (remaining_slices t layout) loss_sets))) (\<lambda>minimum.
             Inr \<lparr>pp_survives = (minimum \<ge> pl_required_slices layout), pp_evaluated_loss_sets = length loss_sets,
                  pp_minimum_remaining_slices = minimum\<rparr>)))"

end
