(* ===== verification/Protection_Proof.thy ===== *)
theory Protection_Proof
  imports Topology
begin

text \<open>
  What the enumeration of \<open>topology.rs\<close> computes. The combinations it builds are all selections of the given
  size, in order, or the work bound is exceeded; the loss sets of a scenario are exactly the sets of groups
  with the stated number of failures in each class; and the proof it returns is the exact minimum over them.
\<close>

section \<open>Combinations\<close>

fun selections :: "nat \<Rightarrow> 'a list \<Rightarrow> 'a list list" where
  "selections 0 xs = [[]]"
| "selections (Suc k) [] = []"
| "selections (Suc k) (x # xs) = map ((#) x) (selections k xs) @ selections (Suc k) xs"

lemma length_selections: "length (selections k xs) = length xs choose k"
  by (induction k xs rule: selections.induct) simp_all

lemma selections_short: "length xs < k \<Longrightarrow> selections k xs = []"
  using length_selections[of k xs] by (simp add: binomial_eq_0)

lemma selections_indexed:
  assumes "k < length xs"
  shows "selections (Suc k) xs = concat (map (\<lambda>i. map ((#) (xs ! i)) (selections k (drop (Suc i) xs))) [0 ..< length xs - k])"
  using assms
proof (induction xs)
  case (Cons x xs)
  let ?f = "\<lambda>xs i. map ((#) (xs ! i)) (selections k (drop (Suc i) xs))"
  have n: "length (x # xs) - k = Suc (length xs - k)" using Cons.prems by auto
  have "selections (Suc k) xs = concat (map (?f xs) [0 ..< length xs - k])"
    using Cons by (cases "k < length xs") (auto simp: selections_short)
  also have "map (?f xs) [0 ..< length xs - k] = map (?f (x # xs)) [1 ..< Suc (length xs - k)]"
    by (simp add: map_Suc_upt[symmetric] del: upt_Suc)
  finally have "selections (Suc k) xs = concat (map (?f (x # xs)) [1 ..< Suc (length xs - k)])" .
  moreover have "[0 ..< Suc (length xs - k)] = 0 # [1 ..< Suc (length xs - k)]" by (simp add: upt_rec)
  ultimately show ?case unfolding n by simp
qed simp

text \<open>A bounded loop that appends to its output.\<close>

definition bounded :: "nat \<Rightarrow> 'a list \<Rightarrow> 'a list \<Rightarrow> protection_error + 'a list" where
  "bounded m out new = (if length out + length new \<le> m then Inr (out @ new) else Inl ProofBoundExceeded)"

lemma try_fold_bounded:
  assumes "\<And>out i. i \<in> set is \<Longrightarrow> length out \<le> m \<Longrightarrow> f out i = bounded m out (g i)" "length out \<le> m"
  shows "try_fold f out is = bounded m out (concat (map g is))"
  using assms
proof (induction "is" arbitrary: out)
  case (Cons i "is")
  show ?case
  proof (cases "length out + length (g i) \<le> m")
    case True
    then have "f out i = Inr (out @ g i)" using Cons.prems by (simp add: bounded_def)
    moreover have "try_fold f (out @ g i) is = bounded m (out @ g i) (concat (map g is))"
      using Cons True by simp
    ultimately show ?thesis by (simp add: bounded_def)
  qed (use Cons.prems in \<open>simp add: bounded_def\<close>)
qed (simp add: bounded_def)

lemma build_combinations_bounded:
  assumes "start + remaining \<le> length values" "length out \<le> m"
  shows "build_combinations remaining values start current out m =
    bounded m out (map ((@) current) (selections remaining (drop start values)))"
  using assms
proof (induction remaining arbitrary: start current out)
  case 0
  then show ?case by (simp add: bounded_def)
next
  case (Suc k)
  let ?g = "\<lambda>i. map ((@) (current @ [values ! i])) (selections k (drop (Suc i) values))"
  have "build_combinations (Suc k) values start current out m =
    bounded m out (concat (map ?g [start ..< Suc (length values - Suc k)]))"
    unfolding build_combinations.simps using Suc.prems by (intro try_fold_bounded Suc.IH) auto
  moreover have "[start ..< Suc (length values - Suc k)] = map (\<lambda>i. i + start) [0 ..< length (drop start values) - k]"
    using Suc.prems by (simp add: map_add_upt Suc_diff_Suc)
  moreover have "map ((@) current) (selections (Suc k) (drop start values)) =
    concat (map (?g \<circ> (\<lambda>i. i + start)) [0 ..< length (drop start values) - k])"
    using Suc.prems by (subst selections_indexed) (simp_all add: map_concat comp_def add.commute cong: map_cong)
  ultimately show ?case by simp
qed

lemma combinations_bounded:
  "count \<le> length values \<Longrightarrow> combinations values count m =
     (if length values choose count \<le> m then Inr (selections count values) else Inl ProofBoundExceeded)"
  by (simp add: combinations_def build_combinations_bounded bounded_def length_selections map_idI)

lemma set_selections:
  assumes "distinct xs"
  shows "set ` set (selections k xs) = {S. S \<subseteq> set xs \<and> card S = k}"
  using assms
proof (induction k xs rule: selections.induct)
  case (1 xs)
  then show ?case by (auto simp: card_eq_0_iff dest: finite_subset[OF _ finite_set])
next
  case (2 k)
  then show ?case by auto
next
  case (3 k x xs)
  have "set ` set (selections (Suc k) (x # xs)) = insert x ` (set ` set (selections k xs)) \<union> set ` set (selections (Suc k) xs)"
    by (simp add: image_Un image_image)
  also have "\<dots> = insert x ` {T. T \<subseteq> set xs \<and> card T = k} \<union> {S. S \<subseteq> set xs \<and> card S = Suc k}"
    using 3 by simp
  also have "insert x ` {T. T \<subseteq> set xs \<and> card T = k} = {S. S \<subseteq> set (x # xs) \<and> card S = Suc k \<and> x \<in> S}"
  proof (intro equalityI subsetI)
    fix S assume "S \<in> insert x ` {T. T \<subseteq> set xs \<and> card T = k}"
    then obtain T where T: "T \<subseteq> set xs" "card T = k" "S = insert x T" by blast
    have "finite T" "x \<notin> T" using T(1) 3(3) by (auto intro: finite_subset)
    then show "S \<in> {S. S \<subseteq> set (x # xs) \<and> card S = Suc k \<and> x \<in> S}" using T by auto
  next
    fix S assume "S \<in> {S. S \<subseteq> set (x # xs) \<and> card S = Suc k \<and> x \<in> S}"
    then have S: "S \<subseteq> set (x # xs)" "card S = Suc k" "x \<in> S" by auto
    then have "S - {x} \<subseteq> set xs" "card (S - {x}) = k" "S = insert x (S - {x})" by auto
    then show "S \<in> insert x ` {T. T \<subseteq> set xs \<and> card T = k}" by blast
  qed
  also have "\<dots> \<union> {S. S \<subseteq> set xs \<and> card S = Suc k} = {S. S \<subseteq> set (x # xs) \<and> card S = Suc k}"
    using 3(3) by auto
  finally show ?case .
qed

section \<open>Loss sets\<close>

definition class_groups :: "topology \<Rightarrow> fault_group_class_id \<Rightarrow> fault_group_id set" where
  "class_groups t c = {g. \<exists>found. fmlookup (tp_fault_groups t) g = Some found \<and> fg_class_id found = c}"

text \<open>A loss set has exactly the stated number of failed groups in each class of the scenario, and no others.\<close>

definition loss_set :: "topology \<Rightarrow> failure_term list \<Rightarrow> fault_group_id set \<Rightarrow> bool" where
  "loss_set t terms F \<longleftrightarrow>
     F \<subseteq> (\<Union>x \<in> set terms. class_groups t (ft_class_id x)) \<and>
     (\<forall>x \<in> set terms. card (F \<inter> class_groups t (ft_class_id x)) = ft_failure_count x)"

definition loss_count :: "topology \<Rightarrow> failure_term list \<Rightarrow> nat" where
  "loss_count t terms = prod_list (map (\<lambda>x. card (class_groups t (ft_class_id x)) choose ft_failure_count x) terms)"

definition enough_groups :: "topology \<Rightarrow> failure_term list \<Rightarrow> bool" where
  "enough_groups t terms \<longleftrightarrow> (\<forall>x \<in> set terms. ft_failure_count x \<le> card (class_groups t (ft_class_id x)))"

definition loss_lists :: "topology \<Rightarrow> fault_group_id list list \<Rightarrow> failure_term list \<Rightarrow> fault_group_id list list" where
  "loss_lists t = foldl (\<lambda>acc x. concat (map (\<lambda>a. map ((@) a) (selections (ft_failure_count x) (groups_in_class t (ft_class_id x)))) acc))"

lemma groups_in_class [simp]:
  "set (groups_in_class t c) = class_groups t c" "distinct (groups_in_class t c)" "length (groups_in_class t c) = card (class_groups t c)"
proof -
  have s: "set (groups_in_class t c) = class_groups t c"
    by (force simp: groups_in_class_def btree_items_def class_groups_def fmdom'I fmlookup_dom_iff image_iff)
  have "map fst (btree_items (tp_fault_groups t)) = btree_iter (fmdom (tp_fault_groups t))"
    by (simp add: btree_items_def comp_def)
  then have d: "distinct (groups_in_class t c)"
    unfolding groups_in_class_def by (metis distinct_btree_iter distinct_map_filter)
  show "set (groups_in_class t c) = class_groups t c" "distinct (groups_in_class t c)" by (fact s d)+
  show "length (groups_in_class t c) = card (class_groups t c)" using distinct_card[OF d] s by simp
qed

lemma finite_class_groups [simp]: "finite (class_groups t c)"
  using groups_in_class(1) by (metis finite_set)

lemma length_product: "length (concat (map (\<lambda>a. map (f a) bs) as)) = length as * length bs"
  by (induction as) simp_all

lemma loss_count_pos: "enough_groups t terms \<Longrightarrow> 0 < loss_count t terms"
  by (induction terms) (auto simp: enough_groups_def loss_count_def)

lemma length_loss_lists: "length (loss_lists t acc terms) = length acc * loss_count t terms"
  by (induction terms arbitrary: acc) (simp_all add: loss_lists_def loss_count_def length_product length_selections)

text \<open>Enumeration succeeds exactly when every class is large enough and the loss sets fit the work bound.\<close>

lemma enumerates:
  assumes "0 < length acc" "length acc \<le> m" "m \<le> u64_max"
  shows "try_fold (\<lambda>combined x.
          let groups = groups_in_class t (ft_class_id x); count = ft_failure_count x
          in if count > length groups then Inl InsufficientTopology
             else try_r (combinations groups count m) (\<lambda>sel. cartesian_union combined sel m)) acc terms = Inr sets \<longleftrightarrow>
    enough_groups t terms \<and> length acc * loss_count t terms \<le> m \<and> sets = loss_lists t acc terms"
  using assms
proof (induction terms arbitrary: acc)
  case Nil
  then show ?case by (auto simp: enough_groups_def loss_count_def loss_lists_def)
next
  case (Cons x terms)
  let ?n = "card (class_groups t (ft_class_id x)) choose ft_failure_count x"
  let ?acc = "loss_lists t acc [x]"
  have e: "enough_groups t (x # terms) \<longleftrightarrow> ft_failure_count x \<le> card (class_groups t (ft_class_id x)) \<and> enough_groups t terms"
    by (auto simp: enough_groups_def)
  have l: "loss_lists t acc (x # terms) = loss_lists t ?acc terms" "loss_count t (x # terms) = ?n * loss_count t terms"
    "length ?acc = length acc * ?n"
    using length_loss_lists[of t acc "[x]"] by (simp_all add: loss_lists_def loss_count_def)
  show ?case
  proof (cases "ft_failure_count x \<le> card (class_groups t (ft_class_id x)) \<and> length acc * ?n \<le> m")
    case True
    then have n: "0 < ?n" by auto
    have "?n \<le> length acc * ?n" using Cons.prems(1) by (cases "length acc") auto
    then have n: "0 < ?n" "?n \<le> m" using n True by (blast, linarith)
    have "0 < length ?acc" "length ?acc \<le> m" using l(3) n(1) True Cons.prems(1) by simp_all
    note IH = Cons.IH[OF this Cons.prems(3)]
    show ?thesis
      using True n Cons.prems(3) IH e l
      by (simp add: Let_def combinations_bounded cartesian_union_def checked_mul_def length_selections loss_lists_def mult.assoc)
  next
    case False
    have "length acc * ?n \<le> m" if "enough_groups t terms" "length acc * loss_count t (x # terms) \<le> m"
      using loss_count_pos[OF that(1)] that(2) l(2) by (metis (no_types, lifting) le_trans mult.assoc mult_le_mono2 nat_mult_1_right Suc_leI One_nat_def)
    then show ?thesis
      using False e by (auto simp: Let_def combinations_bounded cartesian_union_def checked_mul_def length_selections not_le)
  qed
qed

lemma group_loss_sets_iff:
  assumes "m \<le> u64_max"
  shows "group_loss_sets (FailureScenario terms) t m = Inr sets \<longleftrightarrow>
    0 < m \<and> enough_groups t terms \<and> loss_count t terms \<le> m \<and> sets = loss_lists t [[]] terms"
  using enumerates[of "[[]]" m t terms sets] assms unfolding group_loss_sets_def by (cases "m = 0") auto

lemma class_groups_disjoint: "c \<noteq> c' \<Longrightarrow> class_groups t c \<inter> class_groups t c' = {}"
  by (auto simp: class_groups_def)

lemma loss_set_snoc:
  assumes "ft_class_id x \<notin> ft_class_id ` set terms"
  shows "loss_set t (terms @ [x]) F \<longleftrightarrow>
    (\<exists>G S. loss_set t terms G \<and> S \<subseteq> class_groups t (ft_class_id x) \<and> card S = ft_failure_count x \<and> F = G \<union> S)"
proof -
  let ?C = "\<lambda>y. class_groups t (ft_class_id y)"
  have dis: "?C y \<inter> ?C x = {}" if "y \<in> set terms" for y
    using class_groups_disjoint[of "ft_class_id y" "ft_class_id x" t] assms that by (metis image_eqI)
  show ?thesis
  proof
    assume l: "loss_set t (terms @ [x]) F"
    let ?G = "F - ?C x" and ?S = "F \<inter> ?C x"
    have "?G \<inter> ?C y = F \<inter> ?C y" if "y \<in> set terms" for y using dis[OF that] by auto
    then have "loss_set t terms ?G" using l by (auto simp: loss_set_def)
    moreover have "card ?S = ft_failure_count x" using l by (simp add: loss_set_def)
    moreover have "F = ?G \<union> ?S" by auto
    ultimately show "\<exists>G S. loss_set t terms G \<and> S \<subseteq> ?C x \<and> card S = ft_failure_count x \<and> F = G \<union> S" by blast
  next
    assume "\<exists>G S. loss_set t terms G \<and> S \<subseteq> ?C x \<and> card S = ft_failure_count x \<and> F = G \<union> S"
    then obtain G S where g: "loss_set t terms G" "S \<subseteq> ?C x" "card S = ft_failure_count x" "F = G \<union> S" by blast
    have "F \<inter> ?C y = G \<inter> ?C y" if "y \<in> set terms" for y using dis[OF that] g(2,4) by auto
    moreover have "F \<inter> ?C x = S" using g(1,2,4) dis by (fastforce simp: loss_set_def)
    ultimately show "loss_set t (terms @ [x]) F" using g by (auto simp: loss_set_def)
  qed
qed

lemma set_loss_lists:
  assumes "distinct (map ft_class_id terms)"
  shows "set ` set (loss_lists t [[]] terms) = {F. loss_set t terms F}"
  using assms
proof (induction terms rule: rev_induct)
  case Nil
  then show ?case by (auto simp: loss_lists_def loss_set_def)
next
  case (snoc x terms)
  let ?A = "loss_lists t [[]] terms" and ?B = "selections (ft_failure_count x) (groups_in_class t (ft_class_id x))"
  have "set (loss_lists t [[]] (terms @ [x])) = (\<Union>a \<in> set ?A. (@) a ` set ?B)" by (simp add: loss_lists_def)
  then have "F \<in> set ` set (loss_lists t [[]] (terms @ [x])) \<longleftrightarrow> (\<exists>G \<in> set ` set ?A. \<exists>S \<in> set ` set ?B. F = G \<union> S)" for F
    by (simp add: image_UN image_image) blast
  moreover have "set ` set ?A = {F. loss_set t terms F}" using snoc by simp
  moreover have "ft_class_id x \<notin> ft_class_id ` set terms" using snoc.prems by simp
  ultimately have "F \<in> set ` set (loss_lists t [[]] (terms @ [x])) \<longleftrightarrow> loss_set t (terms @ [x]) F" for F
    using loss_set_snoc[of x terms t F] set_selections[OF groups_in_class(2), of "ft_failure_count x" t "ft_class_id x"] by simp
  then show ?case by blast
qed

section \<open>Losses\<close>

text \<open>Losing a group loses its targets and the targets on its hosts.\<close>

definition group_affects :: "topology \<Rightarrow> fault_group_id \<Rightarrow> target_id \<Rightarrow> bool" where
  "group_affects t g target \<longleftrightarrow>
     (\<exists>found. fmlookup (tp_fault_groups t) g = Some found \<and>
        (TargetMember target |\<in>| fg_members found \<or>
         (\<exists>host. target_host t target = Some host \<and> HostMember host |\<in>| fg_members found)))"

definition surviving :: "topology \<Rightarrow> protection_layout \<Rightarrow> fault_group_id set \<Rightarrow> nat" where
  "surviving t layout F = length (filter (\<lambda>target. \<forall>g \<in> F. \<not> group_affects t g target) (pl_slice_targets layout))"

lemma member_targets_iff:
  "target |\<in>| member_targets t member \<longleftrightarrow>
     member = TargetMember target \<or> (\<exists>host. member = HostMember host \<and> target_host t target = Some host)"
  by (force simp: member_targets_def btree_items_def target_host_def fset_of_list.rep_eq fmlookup_dom_iff
      split: fault_group_member.split)

lemma foldl_targets:
  "target |\<in>| foldl (\<lambda>targets member. targets |\<union>| member_targets t member) acc members \<longleftrightarrow>
     target |\<in>| acc \<or> (\<exists>member \<in> set members. target |\<in>| member_targets t member)"
  by (induction members arbitrary: acc) auto

lemma affected_iff: "target |\<in>| targets_affected_by t groups \<longleftrightarrow> (\<exists>g \<in> set groups. group_affects t g target)"
proof -
  have "target |\<in>| foldl (\<lambda>targets group_id.
        case fmlookup (tp_fault_groups t) group_id of
          None \<Rightarrow> targets
        | Some found \<Rightarrow> foldl (\<lambda>targets member. targets |\<union>| member_targets t member) targets (btree_iter (fg_members found)))
       acc groups \<longleftrightarrow> target |\<in>| acc \<or> (\<exists>g \<in> set groups. group_affects t g target)" for acc
    by (induction groups arbitrary: acc)
      (auto simp: foldl_targets member_targets_iff group_affects_def split: option.split)
  then show ?thesis by (simp add: targets_affected_by_def)
qed

lemma remaining_surviving: "remaining_slices t layout groups = surviving t layout (set groups)"
  by (simp add: remaining_slices_def surviving_def affected_iff)

lemma min_opt_Min: "ns \<noteq> [] \<Longrightarrow> min_opt ns = Some (Min (set ns))"
proof (cases ns)
  case (Cons n ns')
  have "(\<lambda>x y. min y x) = (min :: nat \<Rightarrow> nat \<Rightarrow> nat)" by (intro ext) (rule min.commute)
  then have "foldl min n ns' = fold min ns' n" unfolding foldl_conv_fold by simp
  then show ?thesis using Cons by (simp add: min_opt_def Min.set_eq_fold[symmetric])
qed simp

text \<open>Fewer failed groups leave at least as many slices.\<close>

lemma surviving_mono: "F \<subseteq> G \<Longrightarrow> surviving t layout G \<le> surviving t layout F"
proof -
  assume "F \<subseteq> G"
  then have "length (filter (\<lambda>x. \<forall>g \<in> G. \<not> group_affects t g x) xs) \<le> length (filter (\<lambda>x. \<forall>g \<in> F. \<not> group_affects t g x) xs)" for xs
    by (induction xs) auto
  then show ?thesis by (simp add: surviving_def)
qed

section \<open>The proof\<close>

lemma failure_scenario_new_Inr:
  assumes "failure_scenario_new terms = Inr scenario"
  shows "scenario = FailureScenario terms" "distinct (map ft_class_id terms)" "\<forall>x \<in> set terms. 0 < ft_failure_count x"
proof -
  have l: "scenario_loop classes terms = Inr () \<Longrightarrow>
      distinct (map ft_class_id terms) \<and> ft_class_id ` set terms \<inter> fset classes = {} \<and> (\<forall>x \<in> set terms. 0 < ft_failure_count x)" for classes
    by (induction terms arbitrary: classes) (auto split: if_splits)
  show "scenario = FailureScenario terms" "distinct (map ft_class_id terms)" "\<forall>x \<in> set terms. 0 < ft_failure_count x"
    using assms l[of "{||}"] by (auto simp: failure_scenario_new_def try_r_Inr split: if_splits)
qed

lemma prove_protection_iff:
  assumes s: "failure_scenario_new terms = Inr scenario" and m: "m \<le> u64_max"
  shows "prove_protection t scenario layout m = Inr p \<longleftrightarrow>
    (\<forall>target \<in> set (pl_slice_targets layout). target_host t target \<noteq> None) \<and>
    0 < m \<and> enough_groups t terms \<and> loss_count t terms \<le> m \<and>
    p = \<lparr>pp_survives = (\<forall>F. loss_set t terms F \<longrightarrow> pl_required_slices layout \<le> surviving t layout F),
         pp_evaluated_loss_sets = loss_count t terms, pp_minimum_remaining_slices = Min {surviving t layout F | F. loss_set t terms F}\<rparr>"
proof (cases "(\<forall>target \<in> set (pl_slice_targets layout). target_host t target \<noteq> None) \<and> 0 < m \<and> enough_groups t terms \<and> loss_count t terms \<le> m")
  case True
  note sc = failure_scenario_new_Inr[OF s]
  let ?L = "loss_lists t [[]] terms" and ?r = "remaining_slices t layout"
  have g: "group_loss_sets scenario t m = Inr ?L" using True group_loss_sets_iff[OF m] sc(1) by simp
  have "length ?L = loss_count t terms" using length_loss_lists[of t "[[]]" terms] by simp
  moreover have "?L \<noteq> []" using loss_count_pos[of t terms] True calculation by auto
  ultimately have L: "length ?L = loss_count t terms" "map ?r ?L \<noteq> []" by simp_all
  have "set (map ?r ?L) = surviving t layout ` (set ` set ?L)" by (simp add: remaining_surviving image_image)
  also have "\<dots> = {surviving t layout F | F. loss_set t terms F}" using set_loss_lists[OF sc(2), of t] by auto
  finally have S: "set (map ?r ?L) = {surviving t layout F | F. loss_set t terms F}" .
  have fin: "finite {surviving t layout F | F. loss_set t terms F}" "{surviving t layout F | F. loss_set t terms F} \<noteq> {}"
    using S L(2) by (metis finite_set, metis set_empty)
  have sv: "pl_required_slices layout \<le> Min {surviving t layout F | F. loss_set t terms F} \<longleftrightarrow>
      (\<forall>F. loss_set t terms F \<longrightarrow> pl_required_slices layout \<le> surviving t layout F)"
    using Min_ge_iff[OF fin] by auto
  have "prove_protection t scenario layout m = Inr \<lparr>pp_survives = (\<forall>F. loss_set t terms F \<longrightarrow> pl_required_slices layout \<le> surviving t layout F),
         pp_evaluated_loss_sets = loss_count t terms, pp_minimum_remaining_slices = Min {surviving t layout F | F. loss_set t terms F}\<rparr>"
    unfolding prove_protection_def using True g min_opt_Min[OF L(2)] sv unfolding S
    by (auto simp: L(1) target_host_def list_ex_iff fmlookup_dom_iff)
  then show ?thesis using True by auto
next
  case False
  have "prove_protection t scenario layout m \<noteq> Inr p"
    using False group_loss_sets_iff[OF m] failure_scenario_new_Inr(1)[OF s]
    by (auto simp: prove_protection_def try_r_Inr target_host_def list_ex_iff fmlookup_dom_iff split: if_splits)
  then show ?thesis using False by blast
qed

text \<open>A layout that survives the exact losses of a scenario also survives fewer.\<close>

lemma loss_set_extends:
  assumes "distinct (map ft_class_id terms)" "enough_groups t terms"
    "F \<subseteq> (\<Union>x \<in> set terms. class_groups t (ft_class_id x))"
    "\<forall>x \<in> set terms. card (F \<inter> class_groups t (ft_class_id x)) \<le> ft_failure_count x"
  shows "\<exists>G. F \<subseteq> G \<and> loss_set t terms G"
  using assms
proof (induction terms arbitrary: F rule: rev_induct)
  case Nil
  then show ?case by (auto simp: loss_set_def)
next
  case (snoc x terms)
  let ?C = "class_groups t (ft_class_id x)"
  have x: "ft_class_id x \<notin> ft_class_id ` set terms" using snoc.prems(1) by simp
  have dis: "class_groups t (ft_class_id y) \<inter> ?C = {}" if "y \<in> set terms" for y
    using class_groups_disjoint[of "ft_class_id y" "ft_class_id x" t] x that by (metis image_eqI)
  have "(F - ?C) \<inter> class_groups t (ft_class_id y) = F \<inter> class_groups t (ft_class_id y)" if "y \<in> set terms" for y
    using dis[OF that] by auto
  moreover have "F - ?C \<subseteq> (\<Union>y \<in> set terms. class_groups t (ft_class_id y))" using snoc.prems(3) by auto
  ultimately obtain G where G: "F - ?C \<subseteq> G" "loss_set t terms G"
    using snoc.IH[of "F - ?C"] snoc.prems(1,2,4) by (auto simp: enough_groups_def)
  obtain S where S: "F \<inter> ?C \<subseteq> S" "S \<subseteq> ?C" "card S = ft_failure_count x"
    using exists_subset_between[of "F \<inter> ?C" "ft_failure_count x" ?C] snoc.prems(2,4) by (auto simp: enough_groups_def)
  then have "loss_set t (terms @ [x]) (G \<union> S)" using loss_set_snoc[OF x, of t] G(2) by blast
  moreover have "F \<subseteq> G \<union> S" using G(1) S(1) by blast
  ultimately show ?case by blast
qed

end
