(* ===== verification/Contracts.thy ===== *)
theory Contracts
  imports Topology
begin

text \<open>
  The shared types of replaceable components (\<open>meshspan-contracts\<close>): versions, request contexts, errors,
  bounded collections, coding geometry, and the lifecycle that the built-in coding and placement components
  implement.
\<close>

datatype contract_error =
    InvalidInput | Unauthorized | Stale | Conflict | UnsupportedVersion | NotFound | ResourceExhausted | Corrupt
  | DeadlineExceeded | Unavailable | InternalContract

record contract_version =
  cv_major :: nat
  cv_minor :: nat

definition V1_0 :: contract_version where
  "V1_0 = \<lparr>cv_major = 1, cv_minor = 0\<rparr>"

record request_context =
  rc_contract_version :: contract_version
  rc_operation_id :: operation_id
  rc_deadline :: int
  rc_expected_revision :: "nat option"

definition bounded_items_new :: "'a list \<Rightarrow> nat \<Rightarrow> 'a list option" where
  "bounded_items_new items maximum_items = (if length items > maximum_items then None else Some items)"

section \<open>Coding geometry\<close>

definition MAX_SLICES :: nat where "MAX_SLICES = 24"

record coding_layout =
  cl_data_slices :: nat
  cl_recovery_slices :: nat
  cl_slice_bytes :: nat

definition coding_layout_new :: "nat \<Rightarrow> nat \<Rightarrow> nat \<Rightarrow> coding_layout option" where
  "coding_layout_new data_slices recovery_slices slice_bytes =
     (case checked_add u16_max data_slices recovery_slices of
        None \<Rightarrow> None
      | Some total_slices \<Rightarrow>
          if data_slices = 0 \<or> slice_bytes = 0 \<or> total_slices > MAX_SLICES then None
          else Some \<lparr>cl_data_slices = data_slices, cl_recovery_slices = recovery_slices, cl_slice_bytes = slice_bytes\<rparr>)"

definition total_slices :: "coding_layout \<Rightarrow> nat" where
  "total_slices layout = cl_data_slices layout + cl_recovery_slices layout"

section \<open>Component lifecycle\<close>

datatype lifecycle_state = Registered | Active | Draining | Retired

datatype component_transition = ReadyTransition | ActiveTransition | PendingTransition | UnsupportedTransition | TimedOutTransition

record component_configuration =
  cc_schema_version :: nat
  cc_desired_revision :: nat
  cc_canonical_bytes :: bytes

record component_observation =
  ob_desired_revision :: nat
  ob_lifecycle :: lifecycle_state
  ob_observed_at :: int

text \<open>The state of the built-in placement and coding components.\<close>

record component =
  cm_lifecycle :: lifecycle_state
  cm_prepared_revision :: "nat option"
  cm_active_revision :: nat

definition component_default :: component where
  "component_default = \<lparr>cm_lifecycle = Active, cm_prepared_revision = None, cm_active_revision = 0\<rparr>"

definition require_active :: "component \<Rightarrow> contract_error + unit" where
  "require_active c = (if cm_lifecycle c = Active then Inr () else Inl Unavailable)"

definition validate_configuration :: "component_configuration \<Rightarrow> contract_error + unit" where
  "validate_configuration configuration =
     (if cc_schema_version configuration = 1 \<and> cc_desired_revision configuration \<noteq> 0 \<and> cc_canonical_bytes configuration = []
      then Inr () else Inl InvalidInput)"

definition placement_prepare :: "component_configuration \<Rightarrow> component \<Rightarrow> (contract_error + component_transition) \<times> component" where
  "placement_prepare configuration c =
     (case validate_configuration configuration of
        Inl e \<Rightarrow> (Inl e, c)
      | Inr _ \<Rightarrow>
          if cc_desired_revision configuration = cm_active_revision c then (Inr ActiveTransition, c)
          else if cm_lifecycle c = Retired then (Inl Stale, c)
          else (Inr ReadyTransition, c\<lparr>cm_prepared_revision := Some (cc_desired_revision configuration)\<rparr>))"

definition coding_prepare :: "component_configuration \<Rightarrow> component \<Rightarrow> (contract_error + component_transition) \<times> component" where
  "coding_prepare configuration c =
     (case validate_configuration configuration of
        Inl e \<Rightarrow> (Inl e, c)
      | Inr _ \<Rightarrow>
          if cc_desired_revision configuration = cm_active_revision c then (Inr ActiveTransition, c)
          else (Inr ReadyTransition, c\<lparr>cm_prepared_revision := Some (cc_desired_revision configuration)\<rparr>))"

definition component_activate :: "nat \<Rightarrow> component \<Rightarrow> (contract_error + component_transition) \<times> component" where
  "component_activate desired_revision c =
     (if desired_revision = cm_active_revision c \<and> cm_lifecycle c = Active then (Inr ActiveTransition, c)
      else if cm_prepared_revision c \<noteq> Some desired_revision \<or> cm_lifecycle c = Retired then (Inl Stale, c)
      else (Inr ActiveTransition,
        c\<lparr>cm_active_revision := desired_revision, cm_prepared_revision := None, cm_lifecycle := Active\<rparr>))"

definition component_drain :: "component \<Rightarrow> (contract_error + component_transition) \<times> component" where
  "component_drain c =
     (if cm_lifecycle c = Retired then (Inl Stale, c) else (Inr ReadyTransition, c\<lparr>cm_lifecycle := Draining\<rparr>))"

definition component_retire :: "nat \<Rightarrow> component \<Rightarrow> (contract_error + component_transition) \<times> component" where
  "component_retire desired_revision c =
     (if desired_revision \<noteq> cm_active_revision c \<or> cm_lifecycle c \<noteq> Draining then (Inl Stale, c)
      else (Inr ActiveTransition, c\<lparr>cm_lifecycle := Retired\<rparr>))"

definition component_observe :: "component \<Rightarrow> int \<Rightarrow> component_observation" where
  "component_observe c observed_at =
     \<lparr>ob_desired_revision = (case cm_prepared_revision c of None \<Rightarrow> cm_active_revision c | Some revision \<Rightarrow> revision),
      ob_lifecycle = cm_lifecycle c, ob_observed_at = observed_at\<rparr>"

end
