(* ===== verification/Placement.thy ===== *)
theory Placement
  imports Contracts "HOL-Library.Product_Lexorder"
begin

text \<open>
  The built-in placement planner (\<open>meshspan-placement\<close>): where the slices of a stripe go, which of them gate
  the acknowledgement of a write, where a lost slice is rebuilt, and which single move improves a stripe. All
  decisions rest on the exact loss proofs of the fault topology. The BLAKE3 hash of the policy evidence is a
  parameter.
\<close>

section \<open>Requests and plans\<close>

datatype availability_cell_id = AvailabilityCellId (cell_bytes: bytes)

instantiation availability_cell_id :: linorder
begin
definition less_eq_availability_cell_id :: "availability_cell_id \<Rightarrow> availability_cell_id \<Rightarrow> bool" where
  "less_eq_availability_cell_id a b = (cell_bytes a \<le> cell_bytes b)"
definition less_availability_cell_id :: "availability_cell_id \<Rightarrow> availability_cell_id \<Rightarrow> bool" where
  "less_availability_cell_id a b = (cell_bytes a < cell_bytes b)"
instance
  by standard (auto simp: less_eq_availability_cell_id_def less_availability_cell_id_def availability_cell_id.expand)
end

datatype shard_acknowledgement = RequiredShard | EventualShard

record placement_candidate =
  pc_target_id :: target_id
  pc_host_id :: host_id
  pc_target_generation :: nat
  pc_writable_bytes :: nat
  pc_performance_weight :: nat
  pc_availability_cells :: "availability_cell_id list"

datatype placement_cell_role = RequiredBeforeCommit | EventualCell | ExcludedCell

record placement_cell_requirement =
  ce_cell_id :: availability_cell_id
  ce_role :: placement_cell_role
  ce_complete_local :: bool
  ce_minimum_durable_targets :: "nat option"
  ce_minimum_distinct_nodes :: "nat option"
  ce_local_scenarios :: "failure_scenario list"

record placement_request =
  pq_context :: request_context
  pq_logical_stripe_bytes :: nat
  pq_scenarios :: "failure_scenario list"
  pq_required_scenarios :: "failure_scenario list"
  pq_topology :: topology
  pq_topology_revision :: nat
  pq_capacity_revision :: nat
  pq_candidates :: "placement_candidate list"
  pq_minimum_durable_targets :: nat
  pq_minimum_distinct_nodes :: nat
  pq_cells :: "placement_cell_requirement list"

record placement_plan =
  pn_coding_layout :: coding_layout
  pn_slice_targets :: "target_id list"
  pn_acknowledgement_roles :: "shard_acknowledgement list"
  pn_eventual_fallback_roles :: "shard_acknowledgement list"
  pn_topology_revision :: nat
  pn_capacity_revision :: nat
  pn_protection_proofs :: "protection_proof list"
  pn_evidence_version :: nat
  pn_policy_evidence :: bytes

definition MAXIMUM_CANDIDATES :: nat where "MAXIMUM_CANDIDATES = 256"
definition MAXIMUM_SLICES :: nat where "MAXIMUM_SLICES = 24"
definition MAXIMUM_SCENARIOS :: nat where "MAXIMUM_SCENARIOS = 16"
definition MAXIMUM_CELLS :: nat where "MAXIMUM_CELLS = 256"
definition MAXIMUM_PROOF_LOSS_SETS :: nat where "MAXIMUM_PROOF_LOSS_SETS = 100000"
definition EXACT_SEARCH_CANDIDATES :: nat where "EXACT_SEARCH_CANDIDATES = 10"
definition DEFAULT_DATA_SLICES :: nat where "DEFAULT_DATA_SLICES = 4"

section \<open>Validation and preferences\<close>

definition cell_malformed :: "placement_cell_requirement \<Rightarrow> bool" where
  "cell_malformed cell \<longleftrightarrow>
     ce_minimum_durable_targets cell = Some 0 \<or> ce_minimum_distinct_nodes cell = Some 0 \<or>
     (case (ce_minimum_durable_targets cell, ce_minimum_distinct_nodes cell) of
        (Some targets, Some nodes) \<Rightarrow> nodes > targets | _ \<Rightarrow> False) \<or>
     (ce_role cell = ExcludedCell \<and>
        (ce_complete_local cell \<or> ce_minimum_durable_targets cell \<noteq> None \<or> ce_minimum_distinct_nodes cell \<noteq> None \<or>
         ce_local_scenarios cell \<noteq> []))"

definition validate_cells :: "placement_cell_requirement list \<Rightarrow> contract_error + unit" where
  "validate_cells cells =
     (if \<not> distinct (map ce_cell_id cells) \<or> list_ex cell_malformed cells then Inl InvalidInput else Inr ())"

definition validate_request :: "placement_request \<Rightarrow> contract_error + unit" where
  "validate_request q =
     (if rc_contract_version (pq_context q) \<noteq> V1_0 \<or> rc_deadline (pq_context q) = 0 \<or> pq_logical_stripe_bytes q = 0
         \<or> pq_scenarios q = [] \<or> length (pq_scenarios q) > MAXIMUM_SCENARIOS
         \<or> length (pq_required_scenarios q) > MAXIMUM_SCENARIOS
         \<or> list_ex (\<lambda>required. required \<notin> set (pq_scenarios q)) (pq_required_scenarios q)
         \<or> pq_candidates q = [] \<or> length (pq_candidates q) > MAXIMUM_CANDIDATES \<or> length (pq_cells q) > MAXIMUM_CELLS
         \<or> pq_minimum_durable_targets q = 0 \<or> pq_minimum_distinct_nodes q = 0
         \<or> pq_minimum_distinct_nodes q > pq_minimum_durable_targets q
         \<or> pq_topology_revision q = 0 \<or> pq_capacity_revision q = 0
      then Inl InvalidInput
      else if list_ex (\<lambda>candidate.
             pc_target_generation candidate = 0 \<or> pc_writable_bytes candidate = 0 \<or> pc_performance_weight candidate = 0
             \<or> length (pc_availability_cells candidate) > MAXIMUM_CELLS
             \<or> target_host (pq_topology q) (pc_target_id candidate) \<noteq> Some (pc_host_id candidate)) (pq_candidates q)
           \<or> \<not> distinct (map pc_target_id (pq_candidates q))
      then Inl InvalidInput
      else validate_cells (pq_cells q))"

definition candidate_is_excluded :: "placement_candidate \<Rightarrow> placement_cell_requirement list \<Rightarrow> bool" where
  "candidate_is_excluded candidate cells =
     list_ex (\<lambda>requirement. ce_role requirement = ExcludedCell \<and> ce_cell_id requirement \<in> set (pc_availability_cells candidate)) cells"

text \<open>Fast targets first, then large ones, then by identifier.\<close>

definition candidate_key :: "placement_candidate \<Rightarrow> int \<times> int \<times> target_id" where
  "candidate_key candidate = (- int (pc_performance_weight candidate), - int (pc_writable_bytes candidate), pc_target_id candidate)"

definition preferred_data_slices :: "nat \<Rightarrow> nat" where
  "preferred_data_slices logical_bytes =
     (if logical_bytes \<ge> 1048576 then DEFAULT_DATA_SLICES else if logical_bytes \<ge> 262144 then 2 else 1)"

definition slice_bytes :: "nat \<Rightarrow> nat \<Rightarrow> contract_error + nat" where
  "slice_bytes logical_bytes data_slices =
     (let unrounded = (logical_bytes + data_slices - 1) div data_slices
      in case checked_add u32_max unrounded (unrounded mod 2) of
           None \<Rightarrow> Inl InvalidInput
         | Some bytes \<Rightarrow> if bytes \<noteq> 0 then Inr bytes else Inl InvalidInput)"

section \<open>Proofs and cells\<close>

definition best_effort_proof :: "topology \<Rightarrow> failure_scenario \<Rightarrow> protection_layout \<Rightarrow> contract_error + protection_proof" where
  "best_effort_proof t scenario layout =
     (case prove_protection t scenario layout MAXIMUM_PROOF_LOSS_SETS of
        Inr proof \<Rightarrow> Inr proof
      | Inl InsufficientTopology \<Rightarrow> Inr \<lparr>pp_survives = False, pp_evaluated_loss_sets = 0, pp_minimum_remaining_slices = 0\<rparr>
      | Inl _ \<Rightarrow> Inl InvalidInput)"

definition prove_all :: "topology \<Rightarrow> failure_scenario list \<Rightarrow> nat \<Rightarrow> target_id list \<Rightarrow> contract_error + protection_proof list option" where
  "prove_all t scenarios data_slices targets =
     try_r (map_err (\<lambda>_. InvalidInput) (protection_layout_new data_slices targets)) (\<lambda>layout.
     try_r (try_map (\<lambda>scenario. best_effort_proof t scenario layout) scenarios) (\<lambda>proofs.
       Inr (if list_all pp_survives proofs then Some proofs else None)))"

fun survives_all :: "topology \<Rightarrow> protection_layout \<Rightarrow> failure_scenario list \<Rightarrow> contract_error + bool" where
  "survives_all t layout [] = Inr True"
| "survives_all t layout (scenario # scenarios) =
     try_r (best_effort_proof t scenario layout) (\<lambda>proof.
       if \<not> pp_survives proof then Inr False else survives_all t layout scenarios)"

definition cell_satisfied ::
  "topology \<Rightarrow> placement_candidate list \<Rightarrow> target_id list \<Rightarrow> nat \<Rightarrow> placement_cell_requirement \<Rightarrow> contract_error + bool" where
  "cell_satisfied t candidates selected data_slices requirement =
     (let local = filter (\<lambda>candidate. pc_target_id candidate \<in> set selected
            \<and> ce_cell_id requirement \<in> set (pc_availability_cells candidate)) candidates;
          minimum_targets = (case ce_minimum_durable_targets requirement of
            Some n \<Rightarrow> n | None \<Rightarrow> if ce_complete_local requirement then data_slices else 0)
      in if length local < minimum_targets then Inr False
         else if fcard (fset_of_list (map pc_host_id local)) < (case ce_minimum_distinct_nodes requirement of Some n \<Rightarrow> n | None \<Rightarrow> 1)
         then Inr False
         else if ce_complete_local requirement \<or> ce_local_scenarios requirement \<noteq> [] then
           (let local_targets = map pc_target_id local
            in if length local_targets < data_slices then Inr False
               else try_r (map_err (\<lambda>_. InvalidInput) (protection_layout_new data_slices local_targets)) (\<lambda>layout.
                 survives_all t layout (ce_local_scenarios requirement)))
         else Inr True)"

fun cells_satisfied ::
  "topology \<Rightarrow> placement_candidate list \<Rightarrow> target_id list \<Rightarrow> nat \<Rightarrow> placement_cell_requirement list \<Rightarrow> contract_error + bool" where
  "cells_satisfied t candidates selected data_slices [] = Inr True"
| "cells_satisfied t candidates selected data_slices (requirement # requirements) =
     try_r (cell_satisfied t candidates selected data_slices requirement) (\<lambda>ok.
       if ok then cells_satisfied t candidates selected data_slices requirements else Inr False)"

definition cell_constraints_satisfied ::
  "topology \<Rightarrow> placement_candidate list \<Rightarrow> target_id list \<Rightarrow> placement_cell_requirement list \<Rightarrow> bool \<Rightarrow> nat \<Rightarrow> contract_error + bool" where
  "cell_constraints_satisfied t candidates selected cells enforce_eventual data_slices =
     cells_satisfied t candidates selected data_slices
       (filter (\<lambda>requirement. ce_role requirement = RequiredBeforeCommit
          \<or> (enforce_eventual \<and> ce_role requirement = EventualCell)) cells)"

section \<open>Selection\<close>

record selection_constraints =
  sc_topology :: topology
  sc_scenarios :: "failure_scenario list"
  sc_cells :: "placement_cell_requirement list"
  sc_enforce_eventual :: bool
  sc_data_slices :: nat
  sc_candidates :: "placement_candidate list"

record candidate_selection =
  cs_targets :: "target_id list"
  cs_proofs :: "protection_proof list"

text \<open>A selection of targets passes every scenario and cell, or is not taken.\<close>

definition accept_selection :: "selection_constraints \<Rightarrow> target_id list \<Rightarrow> contract_error + candidate_selection option" where
  "accept_selection c selected =
     try_r (prove_all (sc_topology c) (sc_scenarios c) (sc_data_slices c) selected) (\<lambda>proofs.
       case proofs of
         None \<Rightarrow> Inr None
       | Some proofs \<Rightarrow>
           try_r (cell_constraints_satisfied (sc_topology c) (sc_candidates c) selected (sc_cells c) (sc_enforce_eventual c)
                    (sc_data_slices c)) (\<lambda>ok.
             Inr (if ok then Some \<lparr>cs_targets = selected, cs_proofs = proofs\<rparr> else None)))"

text \<open>The first success of a loop that may return early.\<close>

fun first_some :: "('a \<Rightarrow> 'e + 'b option) \<Rightarrow> 'a list \<Rightarrow> 'e + 'b option" where
  "first_some f [] = Inr None"
| "first_some f (x # xs) = try_r (f x) (\<lambda>found. case found of Some y \<Rightarrow> Inr (Some y) | None \<Rightarrow> first_some f xs)"

primrec choose_exact :: "nat \<Rightarrow> selection_constraints \<Rightarrow> nat \<Rightarrow> target_id list \<Rightarrow> contract_error + candidate_selection option" where
  "choose_exact 0 c start selected = accept_selection c selected"
| "choose_exact (Suc remaining) c start selected =
     (case checked_sub (length (sc_candidates c)) (Suc remaining) of
        None \<Rightarrow> Inl InternalContract
      | Some last_start \<Rightarrow>
          first_some (\<lambda>index. choose_exact remaining c (Suc index) (selected @ [pc_target_id (sc_candidates c ! index)]))
            [start ..< Suc last_start])"

definition exact_selection :: "selection_constraints \<Rightarrow> contract_error + candidate_selection option" where
  "exact_selection c =
     first_some (\<lambda>count. choose_exact count c 0 [])
       [sc_data_slices c ..< Suc (min (length (sc_candidates c)) MAXIMUM_SLICES)]"

text \<open>Above the exact bound: take the best targets, then drop every one that is not needed, from the last.\<close>

fun prune_loop :: "selection_constraints \<Rightarrow> nat \<Rightarrow> candidate_selection \<Rightarrow> contract_error + candidate_selection" where
  "prune_loop c 0 current = Inr current"
| "prune_loop c (Suc index) current =
     (if length (cs_targets current) > sc_data_slices c then
        try_r (accept_selection c (take index (cs_targets current) @ drop (Suc index) (cs_targets current))) (\<lambda>smaller.
          prune_loop c index (case smaller of Some s \<Rightarrow> s | None \<Rightarrow> current))
      else Inr current)"

definition pruned_selection :: "selection_constraints \<Rightarrow> contract_error + candidate_selection option" where
  "pruned_selection c =
     (let targets = map pc_target_id (take MAXIMUM_SLICES (sc_candidates c))
      in try_r (accept_selection c targets) (\<lambda>accepted.
           case accepted of
             None \<Rightarrow> Inr None
           | Some selection \<Rightarrow> try_r (prune_loop c (length targets) selection) (\<lambda>s. Inr (Some s))))"

record geometry_selection =
  gs_layout :: coding_layout
  gs_targets :: "target_id list"
  gs_proofs :: "protection_proof list"

definition plan_geometry :: "selection_constraints \<Rightarrow> nat \<Rightarrow> contract_error + geometry_selection option" where
  "plan_geometry c slice_size =
     (if length (sc_candidates c) < sc_data_slices c then Inr None
      else try_r (if length (sc_candidates c) \<le> EXACT_SEARCH_CANDIDATES then exact_selection c else pruned_selection c) (\<lambda>found.
        case found of
          None \<Rightarrow> Inr None
        | Some selection \<Rightarrow>
            try_r (ok_or InternalContract (try_narrow u16_max (length (cs_targets selection)))) (\<lambda>count.
            try_r (ok_or InternalContract (checked_sub count (sc_data_slices c))) (\<lambda>recovery_slices.
            try_r (ok_or InternalContract (coding_layout_new (sc_data_slices c) recovery_slices slice_size)) (\<lambda>layout.
              Inr (Some \<lparr>gs_layout = layout, gs_targets = cs_targets selection, gs_proofs = cs_proofs selection\<rparr>))))))"

section \<open>Acknowledgement\<close>

definition acknowledgement_predicates_satisfied :: "placement_request \<Rightarrow> target_id fset \<Rightarrow> nat \<Rightarrow> bool \<Rightarrow> contract_error + bool" where
  "acknowledgement_predicates_satisfied q required data_slices include_strong_predicates =
     (let minimum_targets = max (pq_minimum_durable_targets q) data_slices;
          required_hosts = fset_of_list (concat (map (\<lambda>target.
            case find (\<lambda>candidate. pc_target_id candidate = target) (pq_candidates q) of
              None \<Rightarrow> [] | Some candidate \<Rightarrow> [pc_host_id candidate]) (btree_iter required)))
      in if fcard required < minimum_targets \<or> fcard required_hosts < pq_minimum_distinct_nodes q then Inr False
         else if \<not> include_strong_predicates \<or> pq_required_scenarios q = [] then Inr True
         else try_r (map_err (\<lambda>_. InvalidInput) (protection_layout_new data_slices (btree_iter required))) (\<lambda>layout.
           survives_all (pq_topology q) layout (pq_required_scenarios q)))"

fun acknowledgement_loop :: "placement_request \<Rightarrow> nat \<Rightarrow> bool \<Rightarrow> target_id list \<Rightarrow> target_id fset \<Rightarrow> contract_error + target_id fset" where
  "acknowledgement_loop q data_slices strong [] required = Inr required"
| "acknowledgement_loop q data_slices strong (target # targets) required =
     try_r (acknowledgement_predicates_satisfied q required data_slices strong) (\<lambda>ok.
       if ok then Inr required else acknowledgement_loop q data_slices strong targets (finsert target required))"

definition required_cell_targets :: "placement_request \<Rightarrow> target_id list \<Rightarrow> target_id fset" where
  "required_cell_targets q targets =
     fset_of_list (concat (map (\<lambda>requirement.
       filter (\<lambda>target. list_ex (\<lambda>candidate. pc_target_id candidate = target
         \<and> ce_cell_id requirement \<in> set (pc_availability_cells candidate)) (pq_candidates q)) targets)
       (filter (\<lambda>cell. ce_role cell = RequiredBeforeCommit) (pq_cells q))))"

definition acknowledgement_roles :: "placement_request \<Rightarrow> target_id list \<Rightarrow> nat \<Rightarrow> bool \<Rightarrow> contract_error + shard_acknowledgement list" where
  "acknowledgement_roles q targets data_slices include_strong_predicates =
     try_r (acknowledgement_loop q data_slices include_strong_predicates targets
              (if include_strong_predicates then required_cell_targets q targets else {||})) (\<lambda>required.
     try_r (acknowledgement_predicates_satisfied q required data_slices include_strong_predicates) (\<lambda>ok.
       if \<not> ok then Inl ResourceExhausted
       else Inr (map (\<lambda>target. if target |\<in>| required then RequiredShard else EventualShard) targets)))"

section \<open>Evidence\<close>

definition scenario_bytes :: "failure_scenario \<Rightarrow> bytes" where
  "scenario_bytes scenario =
     be_bytes 8 (length (scenario_terms scenario)) @
     concat (map (\<lambda>x. fault_class_bytes (ft_class_id x) @ be_bytes 2 (ft_failure_count x)) (scenario_terms scenario))"

definition optional_u16_bytes :: "nat option \<Rightarrow> bytes" where
  "optional_u16_bytes value = (case value of Some n \<Rightarrow> 1 # be_bytes 2 n | None \<Rightarrow> [0])"

definition cell_evidence :: "placement_cell_requirement \<Rightarrow> bytes" where
  "cell_evidence cell =
     cell_bytes (ce_cell_id cell) @
     [case ce_role cell of RequiredBeforeCommit \<Rightarrow> 1 | EventualCell \<Rightarrow> 2 | ExcludedCell \<Rightarrow> 3] @
     [if ce_complete_local cell then 1 else 0] @
     optional_u16_bytes (ce_minimum_durable_targets cell) @ optional_u16_bytes (ce_minimum_distinct_nodes cell) @
     concat (map scenario_bytes (ce_local_scenarios cell))"

definition acknowledgement_byte :: "shard_acknowledgement \<Rightarrow> byte" where
  "acknowledgement_byte a = (case a of RequiredShard \<Rightarrow> 1 | EventualShard \<Rightarrow> 0)"

definition policy_evidence ::
  "(bytes \<Rightarrow> bytes) \<Rightarrow> placement_request \<Rightarrow> coding_layout \<Rightarrow> target_id list \<Rightarrow> shard_acknowledgement list \<Rightarrow>
     shard_acknowledgement list \<Rightarrow> protection_proof list \<Rightarrow> bytes" where
  "policy_evidence blake3 q layout targets roles fallback proofs =
     blake3 (ascii ''meshspan.placement-policy-evidence.v1'' @ [0] @
       be_bytes 8 (pq_topology_revision q) @ be_bytes 8 (pq_capacity_revision q) @
       be_bytes 2 (cl_data_slices layout) @ be_bytes 2 (cl_recovery_slices layout) @ be_bytes 4 (cl_slice_bytes layout) @
       be_bytes 2 (pq_minimum_durable_targets q) @ be_bytes 2 (pq_minimum_distinct_nodes q) @
       concat (map scenario_bytes (pq_required_scenarios q)) @
       concat (map cell_evidence (sort_key ce_cell_id (pq_cells q))) @
       concat (map (\<lambda>((target, role), fb). target_bytes target @ [acknowledgement_byte role, acknowledgement_byte fb])
         (zip (zip targets roles) fallback)) @
       concat (map (\<lambda>proof. [if pp_survives proof then 1 else 0] @ be_bytes 8 (pp_evaluated_loss_sets proof) @
         be_bytes 8 (pp_minimum_remaining_slices proof)) proofs))"

section \<open>Writes\<close>

definition build_plan ::
  "(bytes \<Rightarrow> bytes) \<Rightarrow> placement_request \<Rightarrow> coding_layout \<Rightarrow> target_id list \<Rightarrow> protection_proof list \<Rightarrow> contract_error + placement_plan" where
  "build_plan blake3 q layout targets proofs =
     try_r (map_err (\<lambda>_. InternalContract) (protection_layout_new (cl_data_slices layout) targets)) (\<lambda>protection.
     try_r (survives_all (pq_topology q) protection (pq_required_scenarios q)) (\<lambda>protected.
     if \<not> protected then Inl ResourceExhausted
     else try_r (acknowledgement_roles q targets (cl_data_slices layout) True) (\<lambda>configured.
          try_r (acknowledgement_roles q targets (cl_data_slices layout) False) (\<lambda>fallback.
          let evidence = policy_evidence blake3 q layout targets configured fallback proofs
          in try_r (ok_or InternalContract (bounded_items_new targets MAXIMUM_SLICES)) (\<lambda>targets.
             try_r (ok_or InternalContract (bounded_items_new configured MAXIMUM_SLICES)) (\<lambda>configured.
             try_r (ok_or InternalContract (bounded_items_new fallback MAXIMUM_SLICES)) (\<lambda>fallback.
             try_r (ok_or InternalContract (bounded_items_new proofs MAXIMUM_SCENARIOS)) (\<lambda>proofs.
             try_r (ok_or InternalContract (bounded_items_new evidence 32)) (\<lambda>evidence.
               Inr \<lparr>pn_coding_layout = layout, pn_slice_targets = targets, pn_acknowledgement_roles = configured,
                    pn_eventual_fallback_roles = fallback, pn_topology_revision = pq_topology_revision q,
                    pn_capacity_revision = pq_capacity_revision q, pn_protection_proofs = proofs,
                    pn_evidence_version = 1, pn_policy_evidence = evidence\<rparr>)))))))))"

definition build_best_effort_plan :: "(bytes \<Rightarrow> bytes) \<Rightarrow> placement_request \<Rightarrow> placement_candidate list \<Rightarrow> contract_error + placement_plan" where
  "build_best_effort_plan blake3 q candidates =
     try_r (slice_bytes (pq_logical_stripe_bytes q) 1) (\<lambda>slice_size.
     let targets = map pc_target_id (take MAXIMUM_SLICES (filter (\<lambda>candidate. pc_writable_bytes candidate \<ge> slice_size) candidates))
     in if targets = [] then Inl ResourceExhausted
        else try_r (cell_constraints_satisfied (pq_topology q) candidates targets (pq_cells q) False 1) (\<lambda>ok.
          if \<not> ok then Inl ResourceExhausted
          else try_r (ok_or InternalContract (try_narrow u16_max (length targets - 1))) (\<lambda>recovery.
            try_r (ok_or InternalContract (coding_layout_new 1 recovery slice_size)) (\<lambda>layout.
            try_r (map_err (\<lambda>_. InternalContract) (protection_layout_new 1 targets)) (\<lambda>protection.
            try_r (try_map (\<lambda>scenario. best_effort_proof (pq_topology q) scenario protection) (pq_scenarios q)) (\<lambda>proofs.
              build_plan blake3 q layout targets proofs))))))"

definition write_geometry :: "placement_request \<Rightarrow> placement_candidate list \<Rightarrow> bool \<Rightarrow> nat \<Rightarrow> contract_error + geometry_selection option" where
  "write_geometry q candidates enforce_eventual data_slices =
     try_r (slice_bytes (pq_logical_stripe_bytes q) data_slices) (\<lambda>slice_size.
       plan_geometry \<lparr>sc_topology = pq_topology q, sc_scenarios = pq_scenarios q, sc_cells = pq_cells q,
           sc_enforce_eventual = enforce_eventual, sc_data_slices = data_slices,
           sc_candidates = filter (\<lambda>candidate. pc_writable_bytes candidate \<ge> slice_size) candidates\<rparr> slice_size)"

definition write_candidates :: "placement_request \<Rightarrow> placement_candidate list" where
  "write_candidates q = sort_key candidate_key (filter (\<lambda>candidate. \<not> candidate_is_excluded candidate (pq_cells q)) (pq_candidates q))"

definition plan_write :: "(bytes \<Rightarrow> bytes) \<Rightarrow> component \<Rightarrow> placement_request \<Rightarrow> contract_error + placement_plan" where
  "plan_write blake3 c q =
     try_r (require_active c) (\<lambda>_.
     try_r (validate_request q) (\<lambda>_.
     let candidates = write_candidates q; slices = rev [1 ..< Suc (preferred_data_slices (pq_logical_stripe_bytes q))]
     in try_r (first_some (\<lambda>(enforce_eventual, data_slices). write_geometry q candidates enforce_eventual data_slices)
                (map (Pair True) slices @ map (Pair False) slices)) (\<lambda>found.
          case found of
            Some selection \<Rightarrow> build_plan blake3 q (gs_layout selection) (gs_targets selection) (gs_proofs selection)
          | None \<Rightarrow> build_best_effort_plan blake3 q candidates)))"

end
