(* ===== verification/Placement_Repair.thy ===== *)
theory Placement_Repair
  imports Placement
begin

text \<open>
  Repair, rebalancing and assessment of existing stripes (\<open>meshspan-placement\<close>). A complete layout is graded
  by what it survives and which cells it satisfies; repair takes the best replacement, rebalancing the best
  strictly better single move.
\<close>

section \<open>Grading a layout\<close>

record layout_quality =
  lq_fully_protected :: bool
  lq_required_policy_satisfied :: bool
  lq_surviving_scenarios :: nat
  lq_all_cells_satisfied :: bool
  lq_minimum_remaining_slices :: nat

text \<open>The derived order compares the fields in turn.\<close>

definition quality_key :: "layout_quality \<Rightarrow> bool \<times> bool \<times> nat \<times> bool \<times> nat" where
  "quality_key q = (lq_fully_protected q, lq_required_policy_satisfied q, lq_surviving_scenarios q, lq_all_cells_satisfied q,
     lq_minimum_remaining_slices q)"

record layout_evaluation =
  le_proofs :: "protection_proof list"
  le_quality :: layout_quality

record layout_context =
  lx_topology :: topology
  lx_scenarios :: "failure_scenario list"
  lx_required_scenarios :: "failure_scenario list"
  lx_candidates :: "placement_candidate list"
  lx_cells :: "placement_cell_requirement list"
  lx_data_slices :: nat

fun index_of :: "'a \<Rightarrow> 'a list \<Rightarrow> nat option" where
  "index_of x [] = None"
| "index_of x (y # ys) = (if y = x then Some 0 else map_option Suc (index_of x ys))"

definition evaluate_layout :: "layout_context \<Rightarrow> target_id list \<Rightarrow> contract_error + layout_evaluation" where
  "evaluate_layout c targets =
     try_r (map_err (\<lambda>_. InvalidInput) (protection_layout_new (lx_data_slices c) targets)) (\<lambda>layout.
     try_r (try_map (\<lambda>scenario. best_effort_proof (lx_topology c) scenario layout) (lx_scenarios c)) (\<lambda>proofs.
     let required_scenarios_satisfied = list_all (\<lambda>required.
           case index_of required (lx_scenarios c) of None \<Rightarrow> False | Some index \<Rightarrow> pp_survives (proofs ! index)) (lx_required_scenarios c)
     in try_r (cell_constraints_satisfied (lx_topology c) (lx_candidates c) targets (lx_cells c) False (lx_data_slices c)) (\<lambda>required_cells.
        try_r (cell_constraints_satisfied (lx_topology c) (lx_candidates c) targets (lx_cells c) True (lx_data_slices c)) (\<lambda>all_cells.
        let surviving = length (filter pp_survives proofs)
        in Inr \<lparr>le_proofs = proofs, le_quality = \<lparr>
             lq_fully_protected = (surviving = length proofs \<and> all_cells),
             lq_required_policy_satisfied = (required_scenarios_satisfied \<and> required_cells),
             lq_surviving_scenarios = surviving,
             lq_all_cells_satisfied = all_cells,
             lq_minimum_remaining_slices =
               (case min_opt (map pp_minimum_remaining_slices proofs) of None \<Rightarrow> 0 | Some n \<Rightarrow> n)\<rparr>\<rparr>))))"

section \<open>Requests\<close>

record layout_request =
  lr_context :: request_context
  lr_coding_layout :: coding_layout
  lr_current_targets :: "target_id list"
  lr_scenarios :: "failure_scenario list"
  lr_required_scenarios :: "failure_scenario list"
  lr_topology :: topology
  lr_topology_revision :: nat
  lr_capacity_revision :: nat
  lr_candidates :: "placement_candidate list"
  lr_cells :: "placement_cell_requirement list"

text \<open>The checks that both kinds of request share; a repair also names the slice to replace.\<close>

definition validate_rebalance_request :: "layout_request \<Rightarrow> contract_error + unit" where
  "validate_rebalance_request q =
     (if rc_contract_version (lr_context q) \<noteq> V1_0 \<or> rc_deadline (lr_context q) = 0
         \<or> lr_topology_revision q = 0 \<or> lr_capacity_revision q = 0
         \<or> lr_scenarios q = [] \<or> length (lr_scenarios q) > MAXIMUM_SCENARIOS
         \<or> length (lr_required_scenarios q) > length (lr_scenarios q) \<or> length (lr_cells q) > MAXIMUM_CELLS
         \<or> lr_candidates q = [] \<or> length (lr_candidates q) > MAXIMUM_CANDIDATES
         \<or> length (lr_current_targets q) \<noteq> total_slices (lr_coding_layout q)
         \<or> \<not> distinct (lr_current_targets q)
         \<or> list_ex (\<lambda>candidate. pc_target_generation candidate = 0 \<or> pc_writable_bytes candidate = 0
              \<or> pc_performance_weight candidate = 0) (lr_candidates q)
         \<or> \<not> distinct (map pc_target_id (lr_candidates q))
         \<or> list_ex (\<lambda>required. required \<notin> set (lr_scenarios q)) (lr_required_scenarios q)
      then Inl InvalidInput else validate_cells (lr_cells q))"

definition validate_repair_request :: "layout_request \<Rightarrow> nat \<Rightarrow> contract_error + unit" where
  "validate_repair_request q source_shard_index =
     (if source_shard_index \<ge> total_slices (lr_coding_layout q) then Inl InvalidInput else validate_rebalance_request q)"

definition layout_evaluation_context :: "layout_request \<Rightarrow> layout_context" where
  "layout_evaluation_context q =
     \<lparr>lx_topology = lr_topology q, lx_scenarios = lr_scenarios q, lx_required_scenarios = lr_required_scenarios q,
      lx_candidates = lr_candidates q, lx_cells = lr_cells q, lx_data_slices = cl_data_slices (lr_coding_layout q)\<rparr>"

definition eligible_candidates :: "layout_request \<Rightarrow> placement_candidate list" where
  "eligible_candidates q =
     sort_key candidate_key (filter (\<lambda>candidate.
       pc_target_id candidate \<notin> set (lr_current_targets q) \<and> \<not> candidate_is_excluded candidate (lr_cells q)
       \<and> pc_writable_bytes candidate \<ge> cl_slice_bytes (lr_coding_layout q)) (lr_candidates q))"

section \<open>Repair and rebalancing\<close>

record move =
  mv_source_shard_index :: nat
  mv_target :: placement_candidate
  mv_evaluation :: layout_evaluation

text \<open>A move is kept when its grade is strictly better than the best so far.\<close>

definition better_move :: "move option \<Rightarrow> move \<Rightarrow> move option" where
  "better_move best candidate =
     (case best of
        None \<Rightarrow> Some candidate
      | Some current \<Rightarrow>
          if quality_key (le_quality (mv_evaluation candidate)) > quality_key (le_quality (mv_evaluation current))
          then Some candidate else Some current)"

definition evaluate_move :: "layout_request \<Rightarrow> nat \<Rightarrow> placement_candidate \<Rightarrow> contract_error + move" where
  "evaluate_move q index candidate =
     try_r (evaluate_layout (layout_evaluation_context q) ((lr_current_targets q)[index := pc_target_id candidate])) (\<lambda>evaluation.
       Inr \<lparr>mv_source_shard_index = index, mv_target = candidate, mv_evaluation = evaluation\<rparr>)"

record repair_plan =
  rp_replacement_target_id :: target_id
  rp_replacement_target_generation :: nat
  rp_fully_protected :: bool
  rp_protection_proofs :: "protection_proof list"
  rp_topology_revision :: nat
  rp_capacity_revision :: nat

definition plan_repair :: "component \<Rightarrow> layout_request \<Rightarrow> nat \<Rightarrow> contract_error + repair_plan" where
  "plan_repair c q source_shard_index =
     try_r (require_active c) (\<lambda>_.
     try_r (validate_repair_request q source_shard_index) (\<lambda>_.
     try_r (try_fold (\<lambda>best candidate.
              try_r (evaluate_move q source_shard_index candidate) (\<lambda>move. Inr (better_move best move)))
            None (eligible_candidates q)) (\<lambda>best.
     try_r (ok_or ResourceExhausted best) (\<lambda>selected.
     try_r (ok_or InternalContract (bounded_items_new (le_proofs (mv_evaluation selected)) MAXIMUM_SCENARIOS)) (\<lambda>proofs.
       Inr \<lparr>rp_replacement_target_id = pc_target_id (mv_target selected),
            rp_replacement_target_generation = pc_target_generation (mv_target selected),
            rp_fully_protected = lq_fully_protected (le_quality (mv_evaluation selected)),
            rp_protection_proofs = proofs, rp_topology_revision = lr_topology_revision q,
            rp_capacity_revision = lr_capacity_revision q\<rparr>)))))"

record rebalance_plan =
  bp_source_shard_index :: nat
  bp_replacement_target_id :: target_id
  bp_replacement_target_generation :: nat
  bp_current_fully_protected :: bool
  bp_resulting_fully_protected :: bool
  bp_protection_proofs :: "protection_proof list"
  bp_topology_revision :: nat
  bp_capacity_revision :: nat

definition consider_move :: "layout_request \<Rightarrow> layout_quality \<Rightarrow> move option \<Rightarrow> nat \<times> placement_candidate \<Rightarrow> contract_error + move option" where
  "consider_move q current best step =
     try_r (evaluate_move q (fst step) (snd step)) (\<lambda>move.
       if quality_key (le_quality (mv_evaluation move)) \<le> quality_key current then Inr best
       else try_r (ok_or InternalContract (try_narrow u16_max (fst step))) (\<lambda>_. Inr (better_move best move)))"

definition plan_rebalance :: "component \<Rightarrow> layout_request \<Rightarrow> contract_error + rebalance_plan option" where
  "plan_rebalance c q =
     try_r (require_active c) (\<lambda>_.
     try_r (validate_rebalance_request q) (\<lambda>_.
     try_r (evaluate_layout (layout_evaluation_context q) (lr_current_targets q)) (\<lambda>current.
     try_r (try_fold (consider_move q (le_quality current)) None
              (concat (map (\<lambda>index. map (Pair index) (eligible_candidates q)) [0 ..< length (lr_current_targets q)]))) (\<lambda>best.
     case best of
       None \<Rightarrow> Inr None
     | Some selected \<Rightarrow>
         try_r (ok_or InternalContract (bounded_items_new (le_proofs (mv_evaluation selected)) MAXIMUM_SCENARIOS)) (\<lambda>proofs.
           Inr (Some \<lparr>bp_source_shard_index = mv_source_shard_index selected,
                bp_replacement_target_id = pc_target_id (mv_target selected),
                bp_replacement_target_generation = pc_target_generation (mv_target selected),
                bp_current_fully_protected = lq_fully_protected (le_quality current),
                bp_resulting_fully_protected = lq_fully_protected (le_quality (mv_evaluation selected)),
                bp_protection_proofs = proofs, bp_topology_revision = lr_topology_revision q,
                bp_capacity_revision = lr_capacity_revision q\<rparr>))))))"

definition evaluate_placement :: "component \<Rightarrow> failure_scenario \<Rightarrow> protection_layout \<Rightarrow> topology \<Rightarrow> contract_error + protection_proof" where
  "evaluate_placement c scenario layout t =
     try_r (require_active c) (\<lambda>_. map_err (\<lambda>_. InvalidInput) (prove_protection t scenario layout MAXIMUM_PROOF_LOSS_SETS))"

section \<open>Assessment\<close>

record assessment_request =
  aq_coding_layout :: coding_layout
  aq_recorded_targets :: "target_id list"
  aq_scenarios :: "failure_scenario list"
  aq_topology :: topology
  aq_candidates :: "placement_candidate list"
  aq_cells :: "placement_cell_requirement list"

record placement_assessment =
  pa_sufficient_receipts :: bool
  pa_protection_satisfied :: bool
  pa_locality_satisfied :: bool

definition validate_assessment :: "assessment_request \<Rightarrow> contract_error + unit" where
  "validate_assessment q =
     (if length (aq_recorded_targets q) > total_slices (aq_coding_layout q) \<or> length (aq_scenarios q) > MAXIMUM_SCENARIOS
         \<or> length (aq_candidates q) > MAXIMUM_CANDIDATES \<or> length (aq_cells q) > MAXIMUM_CELLS
         \<or> list_ex (\<lambda>cell. length (ce_local_scenarios cell) > MAXIMUM_SCENARIOS) (aq_cells q)
      then Inl InvalidInput
      else try_r (validate_cells (aq_cells q)) (\<lambda>_.
        if \<not> distinct (map pc_target_id (aq_candidates q))
           \<or> list_ex (\<lambda>candidate. pc_target_generation candidate = 0 \<or> length (pc_availability_cells candidate) > MAXIMUM_CELLS
                \<or> target_host (aq_topology q) (pc_target_id candidate) \<noteq> Some (pc_host_id candidate)) (aq_candidates q)
        then Inl InvalidInput
        else if \<not> distinct (aq_recorded_targets q) \<or> \<not> set (aq_recorded_targets q) \<subseteq> set (map pc_target_id (aq_candidates q))
        then Inl InvalidInput else Inr ()))"

text \<open>All scenarios are evaluated, also after one has failed.\<close>

fun protection_fold :: "topology \<Rightarrow> protection_layout \<Rightarrow> bool \<Rightarrow> failure_scenario list \<Rightarrow> contract_error + bool" where
  "protection_fold t layout satisfied [] = Inr satisfied"
| "protection_fold t layout satisfied (scenario # scenarios) =
     try_r (best_effort_proof t scenario layout) (\<lambda>proof. protection_fold t layout (satisfied \<and> pp_survives proof) scenarios)"

definition assess :: "assessment_request \<Rightarrow> contract_error + placement_assessment" where
  "assess q =
     try_r (validate_assessment q) (\<lambda>_.
     let data_slices = cl_data_slices (aq_coding_layout q);
         sufficient = (length (aq_recorded_targets q) \<ge> data_slices);
         excluded = list_ex (\<lambda>cell. list_ex (\<lambda>candidate. pc_target_id candidate \<in> set (aq_recorded_targets q)
           \<and> ce_cell_id cell \<in> set (pc_availability_cells candidate)) (aq_candidates q))
           (filter (\<lambda>cell. ce_role cell = ExcludedCell) (aq_cells q))
     in try_r (if sufficient then
                 try_r (map_err (\<lambda>_. InvalidInput) (protection_layout_new data_slices (aq_recorded_targets q))) (\<lambda>layout.
                   protection_fold (aq_topology q) layout True (aq_scenarios q))
               else Inr False) (\<lambda>protection_satisfied.
        try_r (if excluded then Inr False
               else cell_constraints_satisfied (aq_topology q) (aq_candidates q) (aq_recorded_targets q) (aq_cells q) True data_slices)
          (\<lambda>locality_satisfied.
            Inr \<lparr>pa_sufficient_receipts = sufficient, pa_protection_satisfied = protection_satisfied,
                 pa_locality_satisfied = locality_satisfied\<rparr>)))"

definition assess_recorded :: "component \<Rightarrow> assessment_request \<Rightarrow> contract_error + placement_assessment" where
  "assess_recorded c q = try_r (require_active c) (\<lambda>_. assess q)"

end
