(* ===== verification/Coding.thy ===== *)
theory Coding
  imports Contracts
begin

text \<open>
  Systematic Reed-Solomon coding of one stripe (\<open>meshspan-coding\<close>): padding, slicing, recovery slices,
  verification of the slices that come back, and reconstruction. The library \<open>reed_solomon_simd\<close> and the
  BLAKE3 hash are parameters; \<open>reed_solomon_lawful\<close> states the documented behaviour of the library.
\<close>

section \<open>The library\<close>

text \<open>
  The calls the component makes: whether a geometry is supported, whether an encoder or decoder can be made,
  whether it takes a shard, the recovery shards of the originals, and the restored originals.
\<close>

record reed_solomon =
  rs_supports :: "nat \<Rightarrow> nat \<Rightarrow> bool"
  rs_encoder_new :: "nat \<Rightarrow> nat \<Rightarrow> nat \<Rightarrow> bool"
  rs_encoder_adds :: "nat \<Rightarrow> nat \<Rightarrow> nat \<Rightarrow> bytes \<Rightarrow> bool"
  rs_encode :: "nat \<Rightarrow> nat \<Rightarrow> nat \<Rightarrow> bytes list \<Rightarrow> bytes list option"
  rs_decoder_new :: "nat \<Rightarrow> nat \<Rightarrow> nat \<Rightarrow> bool"
  rs_decoder_adds_original :: "nat \<Rightarrow> nat \<Rightarrow> nat \<Rightarrow> nat \<Rightarrow> bytes \<Rightarrow> bool"
  rs_decoder_adds_recovery :: "nat \<Rightarrow> nat \<Rightarrow> nat \<Rightarrow> nat \<Rightarrow> bytes \<Rightarrow> bool"
  rs_decode :: "nat \<Rightarrow> nat \<Rightarrow> nat \<Rightarrow> (nat \<times> bytes) list \<Rightarrow> (nat \<times> bytes) list \<Rightarrow> (nat \<Rightarrow> bytes option) option"

section \<open>Encoding\<close>

definition CODING_MAXIMUM_SLICES :: nat where "CODING_MAXIMUM_SLICES = 24"
definition MAXIMUM_SLICE_BYTES :: nat where "MAXIMUM_SLICE_BYTES = 8 * 1024 * 1024"

definition validate_layout :: "reed_solomon \<Rightarrow> coding_layout \<Rightarrow> contract_error + nat \<times> nat \<times> nat" where
  "validate_layout rs layout =
     (let data = cl_data_slices layout; recovery = cl_recovery_slices layout; slice_bytes = cl_slice_bytes layout
      in if data = 0 \<or> data + recovery > CODING_MAXIMUM_SLICES \<or> slice_bytes = 0 \<or> slice_bytes > MAXIMUM_SLICE_BYTES
            \<or> (recovery \<noteq> 0 \<and> \<not> rs_supports rs data recovery)
         then Inl InvalidInput else Inr (data, recovery, slice_bytes))"

definition validate_context :: "request_context \<Rightarrow> contract_error + unit" where
  "validate_context context =
     (if rc_contract_version context \<noteq> V1_0 \<or> rc_deadline context = 0 then Inl InvalidInput else Inr ())"

definition chunks_exact :: "nat \<Rightarrow> 'a list \<Rightarrow> 'a list list" where
  "chunks_exact k xs = map (\<lambda>i. take k (drop (i * k) xs)) [0 ..< length xs div k]"

definition encode_stripe ::
  "reed_solomon \<Rightarrow> component \<Rightarrow> request_context \<Rightarrow> coding_layout \<Rightarrow> bytes \<Rightarrow> contract_error + bytes list" where
  "encode_stripe rs c context layout logical_bytes =
     try_r (require_active c) (\<lambda>_.
     try_r (validate_context context) (\<lambda>_.
     try_r (validate_layout rs layout) (\<lambda>(data_count, recovery_count, slice_size).
     try_r (ok_or InvalidInput (checked_mul u64_max data_count slice_size)) (\<lambda>capacity.
     if logical_bytes = [] \<or> length logical_bytes > capacity then Inl InvalidInput
     else let padded = logical_bytes @ replicate (capacity - length logical_bytes) 0; slices = chunks_exact slice_size padded
       in try_r (if recovery_count \<noteq> 0 then
                   if \<not> rs_encoder_new rs data_count recovery_count slice_size
                      \<or> \<not> list_all (rs_encoder_adds rs data_count recovery_count slice_size) slices then Inl InvalidInput
                   else case rs_encode rs data_count recovery_count slice_size slices of
                       None \<Rightarrow> Inl InternalContract
                     | Some recovery \<Rightarrow>
                         if list_ex (\<lambda>shard. length shard > slice_size) recovery then Inl InternalContract
                         else Inr (slices @ recovery)
                 else Inr slices) (\<lambda>slices.
          ok_or InternalContract (bounded_items_new slices CODING_MAXIMUM_SLICES))))))"

section \<open>Reconstruction\<close>

record reconstruction_request =
  rr_context :: request_context
  rr_layout :: coding_layout
  rr_available_slices :: "bytes option list"
  rr_slice_digests :: "bytes list"
  rr_logical_length :: nat
  rr_logical_digest :: bytes

definition verified_slice :: "(bytes \<Rightarrow> bytes) \<Rightarrow> nat \<Rightarrow> bytes option \<times> bytes \<Rightarrow> contract_error + bytes option" where
  "verified_slice blake3 slice_size sd =
     (case fst sd of
        Some shard \<Rightarrow>
          if length shard \<noteq> slice_size then Inl InvalidInput
          else if blake3 shard = snd sd then Inr (Some shard) else Inr None
      | None \<Rightarrow> Inr None)"

definition verified_slices :: "(bytes \<Rightarrow> bytes) \<Rightarrow> reconstruction_request \<Rightarrow> nat \<Rightarrow> contract_error + bytes option list" where
  "verified_slices blake3 q slice_size =
     try_map (verified_slice blake3 slice_size) (zip (rr_available_slices q) (rr_slice_digests q))"

definition present :: "bytes option list \<Rightarrow> (nat \<times> bytes) list" where
  "present slices = concat (map (\<lambda>(i, s). case s of None \<Rightarrow> [] | Some b \<Rightarrow> [(i, b)]) (zip [0 ..< length slices] slices))"

definition recover_originals ::
  "reed_solomon \<Rightarrow> bytes option list \<Rightarrow> nat \<Rightarrow> nat \<Rightarrow> nat \<Rightarrow> contract_error + bytes list" where
  "recover_originals rs slices data_count recovery_count slice_size =
     (if list_all (\<lambda>s. s \<noteq> None) (take data_count slices) then try_map (ok_or InternalContract) (take data_count slices)
      else if recovery_count = 0 then Inl Corrupt
      else if \<not> rs_decoder_new rs data_count recovery_count slice_size then Inl InvalidInput
      else let originals = present (take data_count slices); recoveries = present (drop data_count slices)
        in if \<not> list_all (\<lambda>(i, b). rs_decoder_adds_original rs data_count recovery_count slice_size i b) originals
              \<or> \<not> list_all (\<lambda>(i, b). rs_decoder_adds_recovery rs data_count recovery_count slice_size i b) recoveries
           then Inl InvalidInput
           else case rs_decode rs data_count recovery_count slice_size originals recoveries of
               None \<Rightarrow> Inl Corrupt
             | Some restored \<Rightarrow>
                 try_map (\<lambda>index. ok_or InternalContract
                     (case slices ! index of Some s \<Rightarrow> Some s | None \<Rightarrow> restored index)) [0 ..< data_count])"

definition reconstruct :: "(bytes \<Rightarrow> bytes) \<Rightarrow> reed_solomon \<Rightarrow> component \<Rightarrow> reconstruction_request \<Rightarrow> contract_error + bytes" where
  "reconstruct blake3 rs c q =
     try_r (require_active c) (\<lambda>_.
     try_r (validate_context (rr_context q)) (\<lambda>_.
     try_r (validate_layout rs (rr_layout q)) (\<lambda>(data_count, recovery_count, slice_size).
     let total_count = data_count + recovery_count
     in if length (rr_available_slices q) \<noteq> total_count \<or> length (rr_slice_digests q) \<noteq> total_count then Inl InvalidInput
        else try_r (ok_or InvalidInput (checked_mul u64_max data_count slice_size)) (\<lambda>capacity.
          if rr_logical_length q = 0 \<or> rr_logical_length q > capacity then Inl InvalidInput
          else try_r (verified_slices blake3 q slice_size) (\<lambda>verified.
            if length (filter (\<lambda>s. s \<noteq> None) verified) < data_count then Inl Corrupt
            else try_r (recover_originals rs verified data_count recovery_count slice_size) (\<lambda>originals.
              let logical = take (rr_logical_length q) (concat originals)
              in if blake3 logical \<noteq> rr_logical_digest q then Inl Corrupt
                 else ok_or InternalContract (bounded_items_new logical capacity)))))))"

end
