(* ===== verification/Spec2Isabelle.thy ===== *)
theory Spec2Isabelle
  imports Quorum_Properties Core_Properties Cluster_Properties Cluster_Reads Driver_Properties Known_Limits
    Protection_Proof Placement_Repair Coding
begin

text \<open>
  MeshSpan: a verification library for the consensus core of the \<open>meshspan-consensus\<close> crate.

  \<^item> \<open>Prelude\<close>: fallible results, bounded integer operations, ordered sets and maps, big-endian bytes, identifiers.
  \<^item> \<open>Quorum_Predicate\<close>, \<open>Quorum_Compile\<close>, \<open>Quorum_Transition\<close>: the quorum layer (\<open>quorum/\<close>).
  \<^item> \<open>Quorum_Properties\<close>: its correctness properties.
\<close>

end
